(* ===== verification/Prelude.thy ===== *)
theory Prelude
  imports Complex_Main "HOL-Library.AList"
begin

text \<open>
  What every theory of the development shares: the fragment of the JavaScript standard library
  the front-end code calls (string search and slicing, \<open>split\<close>/\<open>join\<close>, array \<open>indexOf\<close>,
  \<open>slice\<close>), plain objects as association lists in insertion order, and the fact collections.

  Conventions. A JavaScript string is a \<^typ>\<open>string\<close> (a list of code units; the model's
  characters are the 256 of HOL's \<^typ>\<open>char\<close>). \<open>undefined\<close> and \<open>null\<close> are \<open>None\<close>. An
  index that may be \<open>-1\<close> is an \<^typ>\<open>int\<close>. An object used as a dictionary is an association
  list: \<open>AList.update\<close> overwrites a key in place or appends it, as assignment to a
  property does, and \<open>AList.delete\<close> is the \<open>delete\<close> operator.
\<close>

named_theorems js_simps \<open>equations of the JavaScript library functions\<close>
named_theorems keeps \<open>one fact per operation and invariant: the operation keeps it\<close>
named_theorems frame \<open>fields an operation does not write\<close>

section \<open>Objects as association lists\<close>

type_synonym ('k, 'v) obj = "('k \<times> 'v) list"

abbreviation obj_set :: "'k \<Rightarrow> 'v \<Rightarrow> ('k, 'v) obj \<Rightarrow> ('k, 'v) obj" where
  "obj_set \<equiv> AList.update"

abbreviation obj_del :: "'k \<Rightarrow> ('k, 'v) obj \<Rightarrow> ('k, 'v) obj" where
  "obj_del \<equiv> AList.delete"

definition obj_keys :: "('k, 'v) obj \<Rightarrow> 'k list" where
  "obj_keys o1 = map fst o1"

lemma obj_keys_simps [simp]:
  "obj_keys [] = []" "obj_keys ((k, v) # xs) = k # obj_keys xs"
  by (simp_all add: obj_keys_def)

lemma set_obj_keys [simp]: "set (obj_keys xs) = fst ` set xs"
  by (simp add: obj_keys_def)

lemma length_obj_keys [simp]: "length (obj_keys xs) = length xs"
  by (simp add: obj_keys_def)

lemma obj_set_twice: "obj_set k v (obj_set k w o1) = obj_set k v o1"
  by (induction o1) auto

lemma obj_set_same: "map_of o1 k = Some v \<Longrightarrow> obj_set k v o1 = o1"
  by (induction o1) auto

lemma obj_set_fresh: "k \<notin> fst ` set o1 \<Longrightarrow> obj_set k v o1 = o1 @ [(k, v)]"
  by (induction o1) auto

lemma obj_set_not_Nil [simp]: "obj_set k v xs \<noteq> []"
  by (cases xs) (auto split: if_splits)

section \<open>Arrays\<close>

fun js_indexOf :: "'a list \<Rightarrow> 'a \<Rightarrow> int" where
  "js_indexOf [] y = - 1"
| "js_indexOf (x # xs) y =
     (if x = y then 0 else (let i = js_indexOf xs y in if i < 0 then - 1 else i + 1))"

lemma js_indexOf_ge: "- 1 \<le> js_indexOf xs y"
  by (induction xs) (auto simp: Let_def)

lemma js_indexOf_neg_iff [simp]: "js_indexOf xs y < 0 \<longleftrightarrow> y \<notin> set xs"
  by (induction xs) (auto simp: Let_def)

lemma js_indexOf_absent: "y \<notin> set xs \<Longrightarrow> js_indexOf xs y = - 1"
  by (induction xs) auto

lemma js_indexOf_nonneg: "y \<in> set xs \<Longrightarrow> 0 \<le> js_indexOf xs y"
  using js_indexOf_neg_iff [of xs y] by linarith

lemma js_indexOf_gt_iff [simp]: "- 1 < js_indexOf xs y \<longleftrightarrow> y \<in> set xs"
proof (cases "y \<in> set xs")
  case True
  then show ?thesis using js_indexOf_nonneg [of y xs] by simp
next
  case False
  then show ?thesis using js_indexOf_absent [of y xs] by simp
qed

lemma js_indexOf_minus_one [simp]: "js_indexOf xs y = - 1 \<longleftrightarrow> y \<notin> set xs"
  using js_indexOf_nonneg [of y xs] js_indexOf_absent [of y xs] by fastforce

text \<open>The negative-offset rule of \<open>Array.prototype.slice\<close>.\<close>

definition js_norm :: "nat \<Rightarrow> int \<Rightarrow> nat" where
  "js_norm n i = (if i < 0 then nat (int n + i) else min (nat i) n)"

definition js_slice :: "'a list \<Rightarrow> int \<Rightarrow> int \<Rightarrow> 'a list" where
  "js_slice xs a b =
     (let n = length xs; a' = js_norm n a; b' = js_norm n b in take (b' - a') (drop a' xs))"

definition js_slice_from :: "'a list \<Rightarrow> int \<Rightarrow> 'a list" where
  "js_slice_from xs a = drop (js_norm (length xs) a) xs"

lemma js_slice_nat: "js_slice xs (int a) (int b) = take (b - a) (drop a xs)"
  by (auto simp: js_slice_def js_norm_def Let_def min_def)

lemma js_slice_prefix [js_simps]: "js_slice xs 0 (int b) = take b xs"
  using js_slice_nat [of xs 0 b] by simp

lemma js_slice_from_nat [js_simps]: "js_slice_from xs (int a) = drop a xs"
  by (auto simp: js_slice_from_def js_norm_def min_def)

lemma js_slice_butlast [js_simps]: "js_slice xs 0 (- 1) = butlast xs"
  by (cases xs) (auto simp: js_slice_def js_norm_def butlast_conv_take Let_def nat_diff_distrib)

lemma js_slice_full [js_simps]: "js_slice_from xs 0 = xs"
  by (simp add: js_slice_from_def js_norm_def)

section \<open>Strings\<close>

definition starts_with :: "string \<Rightarrow> string \<Rightarrow> bool" where
  "starts_with p s \<longleftrightarrow> take (length p) s = p"

text \<open>\<open>String.prototype.indexOf\<close> of a non-empty needle, \<open>None\<close> for \<open>-1\<close>.\<close>

fun find_sub :: "string \<Rightarrow> string \<Rightarrow> nat option" where
  "find_sub p [] = (if p = [] then Some 0 else None)"
| "find_sub p (c # s) =
     (if starts_with p (c # s) then Some 0 else map_option Suc (find_sub p s))"

definition contains_sub :: "string \<Rightarrow> string \<Rightarrow> bool" where
  "contains_sub p s \<longleftrightarrow> find_sub p s \<noteq> None"

text \<open>\<open>s.replace(p, r)\<close> with a string pattern: the first occurrence only.\<close>

definition js_replace :: "string \<Rightarrow> string \<Rightarrow> string \<Rightarrow> string" where
  "js_replace s p r =
     (case find_sub p s of None \<Rightarrow> s
      | Some i \<Rightarrow> take i s @ r @ drop (i + length p) s)"

fun last_index_of :: "char \<Rightarrow> string \<Rightarrow> int" where
  "last_index_of c [] = - 1"
| "last_index_of c (x # s) =
     (let i = last_index_of c s in if 0 \<le> i then i + 1 else if x = c then 0 else - 1)"

lemma last_index_of_ge: "- 1 \<le> last_index_of c s"
  by (induction s) (auto simp: Let_def)

lemma last_index_of_neg [simp]: "c \<notin> set s \<Longrightarrow> last_index_of c s = - 1"
  by (induction s) (auto simp: Let_def)

lemma last_index_of_less: "last_index_of c s < int (length s)"
  by (induction s) (auto simp: Let_def)

lemma last_index_of_append:
  "last_index_of c (s @ t) =
     (if 0 \<le> last_index_of c t then int (length s) + last_index_of c t else last_index_of c s)"
proof (induction s)
  case Nil
  then show ?case using last_index_of_ge [of c t] by auto
next
  case (Cons x s)
  then show ?case by (auto simp: Let_def)
qed

lemma starts_with_iff: "starts_with p s \<longleftrightarrow> (\<exists>t. s = p @ t)"
  unfolding starts_with_def by (metis append_eq_conv_conj append_take_drop_id)

lemma contains_sub_iff: "contains_sub p s \<longleftrightarrow> (\<exists>u v. s = u @ p @ v)"
proof (induction s)
  case (Cons c s)
  show ?case
  proof (cases "starts_with p (c # s)")
    case True
    then show ?thesis by (metis append_Nil contains_sub_def find_sub.simps(2) option.distinct(1) starts_with_iff)
  next
    case False
    then have "contains_sub p (c # s) \<longleftrightarrow> contains_sub p s" by (simp add: contains_sub_def)
    also have "\<dots> \<longleftrightarrow> (\<exists>u v. c # s = u @ p @ v)"
      unfolding Cons by (metis False append_Cons append_Nil list.inject neq_Nil_conv starts_with_iff)
    finally show ?thesis .
  qed
qed (auto simp: contains_sub_def)

lemma contains_sub_append: "contains_sub p s \<Longrightarrow> contains_sub p (s @ t)"
  unfolding contains_sub_iff by (metis append.assoc)

fun js_split :: "char \<Rightarrow> string \<Rightarrow> string list" where
  "js_split c [] = [[]]"
| "js_split c (x # s) =
     (if x = c then [] # js_split c s
      else (case js_split c s of [] \<Rightarrow> [[x]] | w # ws \<Rightarrow> (x # w) # ws))"

fun js_join :: "string \<Rightarrow> string list \<Rightarrow> string" where
  "js_join sep [] = []"
| "js_join sep [w] = w"
| "js_join sep (w # v # ws) = w @ sep @ js_join sep (v # ws)"

lemma js_split_not_Nil [simp]: "js_split c s \<noteq> []"
  by (induction s) (auto split: list.splits)

lemma js_join_Cons: "ws \<noteq> [] \<Longrightarrow> js_join sep (w # ws) = w @ sep @ js_join sep ws"
  by (cases ws) auto

lemma js_join_append: "q \<noteq> [] \<Longrightarrow> s \<noteq> [] \<Longrightarrow> js_join sep (q @ s) = js_join sep q @ sep @ js_join sep s"
proof (induction q)
  case (Cons x q)
  then show ?case by (cases "q = []") (simp_all add: js_join_Cons)
qed simp

lemma js_join_split: "js_join [c] (js_split c s) = s"
proof (induction s)
  case (Cons x s)
  then show ?case
    by (cases "js_split c s") (auto simp: js_join_Cons, (cases "tl (js_split c s)", auto)+)
qed simp

lemma js_split_no_sep: "c \<notin> set s \<Longrightarrow> js_split c s = [s]"
  by (induction s) auto

lemma js_split_append:
  "c \<notin> set w \<Longrightarrow> js_split c (w @ c # s) = w # js_split c s"
  by (induction w) auto

lemma js_split_join:
  "ws \<noteq> [] \<Longrightarrow> \<forall>w \<in> set ws. c \<notin> set w \<Longrightarrow> js_split c (js_join [c] ws) = ws"
proof (induction ws)
  case (Cons w ws)
  then show ?case
    by (cases "ws = []") (auto simp: js_split_no_sep js_join_Cons js_split_append)
qed simp

lemma js_split_parts: "w \<in> set (js_split c s) \<Longrightarrow> c \<notin> set w"
proof (induction s arbitrary: w)
  case (Cons x s)
  then show ?case
    by (cases "js_split c s") (auto split: if_splits)
qed simp

text \<open>ASCII case mapping, the part of \<open>toLowerCase\<close> the code relies on.\<close>

definition lower_char :: "char \<Rightarrow> char" where
  "lower_char c =
     (let n = of_char c :: nat in if 65 \<le> n \<and> n \<le> 90 then char_of (n + 32) else c)"

definition js_lower :: "string \<Rightarrow> string" where
  "js_lower = map lower_char"

lemma length_js_lower [simp]: "length (js_lower s) = length s"
  by (simp add: js_lower_def)

lemma lower_char_idem [simp]: "lower_char (lower_char c) = lower_char c"
  by (simp add: lower_char_def Let_def)

lemma js_lower_idem [simp]: "js_lower (js_lower s) = js_lower s"
  by (simp add: js_lower_def)

text \<open>Decimal notation of a natural number, as string concatenation prints it.\<close>

definition digit_char :: "nat \<Rightarrow> char" where
  "digit_char d = char_of (48 + d)"

fun nat_str :: "nat \<Rightarrow> string" where
  "nat_str n = (if n < 10 then [digit_char n] else nat_str (n div 10) @ [digit_char (n mod 10)])"

declare nat_str.simps [simp del]

definition is_digit :: "char \<Rightarrow> bool" where
  "is_digit c \<longleftrightarrow> (48 :: nat) \<le> of_char c \<and> (of_char c :: nat) \<le> 57"

definition digit_val :: "char \<Rightarrow> nat" where
  "digit_val c = of_char c - 48"

definition digits_val :: "string \<Rightarrow> nat" where
  "digits_val s = foldl (\<lambda>n c. 10 * n + digit_val c) 0 s"

text \<open>\<open>parseInt\<close>: the longest decimal prefix after an optional sign, \<open>None\<close> for \<open>NaN\<close>.
  (Leading white space and hexadecimal literals do not occur in the configuration values.)\<close>

definition parse_nat :: "string \<Rightarrow> nat option" where
  "parse_nat s = (let d = takeWhile is_digit s in if d = [] then None else Some (digits_val d))"

definition parse_int :: "string \<Rightarrow> int option" where
  "parse_int s =
     (case s of
        [] \<Rightarrow> None
      | c # t \<Rightarrow> if c = CHR ''-'' then map_option (\<lambda>n. - int n) (parse_nat t)
                else if c = CHR ''+'' then map_option int (parse_nat t)
                else map_option int (parse_nat s))"

lemma of_char_digit_char: "d < 10 \<Longrightarrow> (of_char (digit_char d) :: nat) = 48 + d"
  by (simp add: digit_char_def)

lemma is_digit_digit_char [simp]: "d < 10 \<Longrightarrow> is_digit (digit_char d)"
  by (simp add: is_digit_def of_char_digit_char)

lemma digit_val_digit_char [simp]: "d < 10 \<Longrightarrow> digit_val (digit_char d) = d"
  by (simp add: digit_val_def of_char_digit_char)

lemma digits_val_append: "digits_val (s @ [c]) = 10 * digits_val s + digit_val c"
  by (simp add: digits_val_def)

lemma nat_str_digits: "list_all is_digit (nat_str n)"
proof (induction n rule: nat_str.induct)
  case (1 n)
  then show ?case by (subst nat_str.simps) auto
qed

lemma nat_str_not_Nil [simp]: "nat_str n \<noteq> []"
  by (subst nat_str.simps) simp

lemma digits_val_nat_str [simp]: "digits_val (nat_str n) = n"
proof (induction n rule: nat_str.induct)
  case (1 n)
  show ?case
  proof (cases "n < 10")
    case True
    then show ?thesis by (subst nat_str.simps) (simp add: digits_val_def)
  next
    case False
    with 1 have "digits_val (nat_str (n div 10)) = n div 10" by simp
    with False show ?thesis by (subst nat_str.simps) (simp add: digits_val_append)
  qed
qed

lemma parse_nat_nat_str [simp]: "parse_nat (nat_str n) = Some n"
proof -
  have "takeWhile is_digit (nat_str n) = nat_str n"
    using nat_str_digits [of n] by (simp add: list_all_iff takeWhile_eq_all_conv)
  then show ?thesis by (simp add: parse_nat_def Let_def del: takeWhile_eq_all_conv)
qed

lemma nat_str_inj: "nat_str m = nat_str n \<longleftrightarrow> m = n"
  by (metis digits_val_nat_str)

lemma parse_int_nat_str [simp]: "parse_int (nat_str n) = Some (int n)"
proof (cases "nat_str n")
  case Nil
  then show ?thesis by simp
next
  case (Cons c t)
  then have "is_digit c" using nat_str_digits [of n] by simp
  then have "c \<noteq> CHR ''-''" "c \<noteq> CHR ''+''" by (auto simp: is_digit_def)
  then show ?thesis using Cons parse_nat_nat_str [of n] by (simp add: parse_int_def)
qed

end
