(* ===== verification/JobsStore.thy ===== *)
theory JobsStore
  imports Prelude
begin

text \<open>
  The registry of background jobs of the interface,
  \<open>gui.ajax/res/js/ui/ReactUI/tasks/JobsStore.js\<close>: the jobs the server reports
  (\<open>tasksList\<close>) and the jobs that only live in the browser (\<open>localJobs\<close>, the uploads).
  Both are JavaScript \<open>Map\<close>s, association lists in insertion order here. An asynchronous
  method is split at its \<open>await\<close> point: the part that runs at the call, and one function
  per way the request comes back. The entries are of a type \<open>'j\<close>, because the uploader
  registers a reference to a job it keeps changing, while the server sends values.

  The locale \<open>local_jobs\<close> is the contract the uploader relies on; \<open>jobs_registry\<close>
  interprets it on the definitions below.
\<close>

section \<open>Jobs and tasks\<close>

record jtask =
  t_ID :: string
  t_JobID :: string
  t_Status :: string
  t_StatusMessage :: string
  t_HasProgress :: bool
  t_Progress :: "rat option"
  t_StartTime :: nat

record jjob =
  j_ID :: string
  j_Owner :: string
  j_Label :: string
  j_Stoppable :: bool
  j_Tasks :: "jtask list option"

record 'j jobs_store =
  js_loaded :: bool
  tasksList :: "(string, 'j) obj"
  localJobs :: "(string, 'j) obj"
  reloadScheduled :: bool                 \<comment> \<open>a debounced \<open>scanPending\<close> is due\<close>
  jsNotified :: "string option list"     \<comment> \<open>\<open>tasks_updated\<close>, with the job it names\<close>

definition new_jobs_store :: "'j jobs_store" where
  "new_jobs_store =
     \<lparr>js_loaded = False, tasksList = [], localJobs = [], reloadScheduled = False, jsNotified = []\<rparr>"

definition tasks_updated :: "string option \<Rightarrow> 'j jobs_store \<Rightarrow> 'j jobs_store" where
  "tasks_updated j s = s\<lparr>jsNotified := jsNotified s @ [j]\<rparr>"

section \<open>Messages from the server\<close>

definition task_pending :: "jtask \<Rightarrow> bool" where
  "task_pending t \<longleftrightarrow> t_Status t = ''Running'' \<and> t_StatusMessage t = ''Pending''"

definition job_pending :: "jjob \<Rightarrow> bool" where
  "job_pending j \<longleftrightarrow> (case j_Tasks j of None \<Rightarrow> False | Some ts \<Rightarrow> list_ex task_pending ts)"

text \<open>The observer of \<open>task_message\<close>, with the deserialised job and task.\<close>

definition on_task_message :: "jjob \<Rightarrow> jtask \<Rightarrow> jjob jobs_store \<Rightarrow> jjob jobs_store" where
  "on_task_message job0 task s =
     (let job = (if j_Tasks job0 = None then job0\<lparr>j_Tasks := Some [task]\<rparr> else job0);
          s1 = tasks_updated (Some (j_ID job)) (s\<lparr>tasksList := obj_set (j_ID job) job (tasksList s)\<rparr>)
      in if job_pending job then s1\<lparr>reloadScheduled := True\<rparr> else s1)"

section \<open>Loading\<close>

text \<open>
  The end of \<open>this.localJobs.forEach(j => this.tasksList.set(j.ID, j))\<close>. A local job is
  registered under its own identifier, so the key of the entry is \<open>j.ID\<close>.
\<close>

definition merge_local :: "(string, 'j) obj \<Rightarrow> (string, 'j) obj \<Rightarrow> (string, 'j) obj" where
  "merge_local locals tlist = fold (\<lambda>(k, j) acc. obj_set k j acc) locals tlist"

datatype 'j get_jobs = Resolved "'j jobs_store" | Requested "'j jobs_store"

definition getJobs :: "bool \<Rightarrow> bool \<Rightarrow> 'j jobs_store \<Rightarrow> 'j get_jobs" where
  "getJobs user forceRefresh s =
     (if \<not> user then Resolved (s\<lparr>tasksList := [], localJobs := []\<rparr>)
      else if \<not> js_loaded s \<or> forceRefresh
        then Requested (s\<lparr>tasksList := merge_local (localJobs s) []\<rparr>)
      else Resolved (s\<lparr>tasksList := merge_local (localJobs s) (tasksList s)\<rparr>))"

text \<open>The answer of \<open>userListJobs\<close>; \<open>result.Jobs\<close> may be missing.\<close>

definition getJobs_resolved :: "('j \<Rightarrow> string) \<Rightarrow> 'j list option \<Rightarrow> 'j jobs_store \<Rightarrow> 'j jobs_store" where
  "getJobs_resolved idOf jobs s =
     s\<lparr>js_loaded := True,
       tasksList := (case jobs of None \<Rightarrow> tasksList s
                     | Some js \<Rightarrow> fold (\<lambda>j acc. obj_set (idOf j) j acc) js (tasksList s))\<rparr>"

text \<open>\<open>scanPending\<close>, the body of the debounced reload: the store after the call, and whether
  it asked the server.\<close>

definition scanPending :: "bool \<Rightarrow> jjob jobs_store \<Rightarrow> jjob get_jobs" where
  "scanPending user s0 =
     (let s = s0\<lparr>reloadScheduled := False\<rparr>
      in if \<not> user \<or> tasksList s = [] then Resolved s
         else if list_ex (\<lambda>(k, j). job_pending j) (tasksList s) then getJobs user True s
         else Resolved s)"

section \<open>Requests to the server\<close>

datatype job_sel = AnyJob | OneJob string | ManyJobs "string list"

record list_jobs_request =
  r_LoadTasks :: string
  r_Owner :: string
  r_TasksLimit :: "nat option"
  r_JobIDs :: "string list option"
  r_TimersOnly :: bool
  r_EventsOnly :: bool

text \<open>\<open>getAdminJobs\<close>: an empty identifier is no selection.\<close>

definition getAdminJobs :: "string option \<Rightarrow> string option \<Rightarrow> job_sel \<Rightarrow> nat \<Rightarrow> list_jobs_request" where
  "getAdminJobs owner triggerType jobId maxTasks =
     \<lparr>r_LoadTasks = ''Any'',
      r_Owner = (case owner of Some u \<Rightarrow> u | None \<Rightarrow> ''*''),
      r_TasksLimit = (if maxTasks > 0 then Some maxTasks else None),
      r_JobIDs = (case jobId of ManyJobs js \<Rightarrow> Some js | OneJob j \<Rightarrow> if j \<noteq> [] then Some [j] else None
                  | AnyJob \<Rightarrow> None),
      r_TimersOnly = (triggerType = Some ''schedule''),
      r_EventsOnly = (triggerType = Some ''events'')\<rparr>"

record ctrl_command =
  c_Cmd :: string
  c_TaskId :: "string option"
  c_JobId :: "string option"

definition controlTask :: "jtask \<Rightarrow> string \<Rightarrow> ctrl_command" where
  "controlTask task status =
     \<lparr>c_Cmd = status, c_TaskId = Some (t_ID task),
      c_JobId = (if status = ''Delete'' then Some (t_JobID task) else None)\<rparr>"

definition controlTask_done :: "jtask \<Rightarrow> string \<Rightarrow> 'j jobs_store \<Rightarrow> 'j jobs_store" where
  "controlTask_done task status s =
     (if status = ''Delete'' then tasks_updated (Some (t_JobID task)) s else s)"

record delete_request =
  d_JobId :: string
  d_TaskID :: "string list"
  d_Status :: "string list"

definition deleteTasks :: "string \<Rightarrow> jtask list \<Rightarrow> delete_request" where
  "deleteTasks jobID tasks = \<lparr>d_JobId = jobID, d_TaskID = map t_ID tasks, d_Status = []\<rparr>"

definition deleteAllTasksForJob :: "string \<Rightarrow> delete_request" where
  "deleteAllTasksForJob jobId =
     \<lparr>d_JobId = jobId, d_TaskID = [], d_Status = [''Finished'', ''Interrupted'', ''Error'']\<rparr>"

definition delete_done :: "string \<Rightarrow> 'j jobs_store \<Rightarrow> 'j jobs_store" where
  "delete_done jobId = tasks_updated (Some jobId)"

definition controlJob :: "jjob \<Rightarrow> string \<Rightarrow> ctrl_command" where
  "controlJob job command = \<lparr>c_Cmd = command, c_TaskId = None, c_JobId = Some (j_ID job)\<rparr>"

definition controlJob_done :: "jjob \<Rightarrow> 'j jobs_store \<Rightarrow> 'j jobs_store" where
  "controlJob_done job = tasks_updated (Some (j_ID job))"

section \<open>Local jobs\<close>

definition enqueueLocalJob :: "string \<Rightarrow> 'j \<Rightarrow> 'j jobs_store \<Rightarrow> 'j jobs_store" where
  "enqueueLocalJob jid job s =
     tasks_updated (Some jid) (s\<lparr>localJobs := obj_set jid job (localJobs s)\<rparr>)"

definition deleteLocalJob :: "string \<Rightarrow> 'j jobs_store \<Rightarrow> 'j jobs_store" where
  "deleteLocalJob jobID s =
     tasks_updated None
       (let s1 = s\<lparr>localJobs := obj_del jobID (localJobs s)\<rparr>
        in if jobID \<in> set (obj_keys (tasksList s1))
           then s1\<lparr>tasksList := obj_del jobID (tasksList s1)\<rparr> else s1)"

section \<open>Facts\<close>

definition js_wf :: "'j jobs_store \<Rightarrow> bool" where
  "js_wf s \<longleftrightarrow> distinct (obj_keys (tasksList s)) \<and> distinct (obj_keys (localJobs s))"

lemma distinct_keys_update: "distinct (obj_keys xs) \<Longrightarrow> distinct (obj_keys (obj_set k v xs))"
  by (simp add: obj_keys_def distinct_update)

lemma distinct_keys_delete: "distinct (obj_keys xs) \<Longrightarrow> distinct (obj_keys (obj_del k xs))"
  by (simp add: obj_keys_def distinct_delete)

lemma distinct_keys_fold:
  "distinct (obj_keys tlist) \<Longrightarrow> distinct (obj_keys (fold (\<lambda>j acc. obj_set (f j) (g j) acc) js tlist))"
  by (induction js arbitrary: tlist) (auto simp: distinct_keys_update)

lemma merge_local_alt: "merge_local ls tlist = fold (\<lambda>p acc. obj_set (fst p) (snd p) acc) ls tlist"
  unfolding merge_local_def by (simp add: case_prod_unfold)

lemma distinct_merge_local: "distinct (obj_keys tlist) \<Longrightarrow> distinct (obj_keys (merge_local ls tlist))"
  unfolding merge_local_alt by (rule distinct_keys_fold)

lemma map_of_merge_local:
  "distinct (obj_keys ls) \<Longrightarrow> map_of (merge_local ls tlist) = map_of tlist ++ map_of ls"
proof (induction ls arbitrary: tlist)
  case (Cons p ls)
  obtain k v where p: "p = (k, v)" by (cases p)
  have "map_of ls k = None"
    using Cons.prems by (auto simp: p map_of_eq_None_iff obj_keys_def)
  moreover have "map_of (merge_local ls (obj_set k v tlist)) = map_of (obj_set k v tlist) ++ map_of ls"
    using Cons by (simp add: p)
  ultimately show ?case
    by (auto simp: p merge_local_def update_conv' fun_eq_iff map_add_def split: option.splits)
qed (simp add: merge_local_def)

lemma map_of_fold_set:
  "map_of (fold (\<lambda>j acc. obj_set (f j) j acc) js tlist) k =
     (case find (\<lambda>j. f j = k) (rev js) of Some j \<Rightarrow> Some j | None \<Rightarrow> map_of tlist k)"
proof (induction js rule: rev_induct)
  case (snoc j js)
  then show ?case by (simp add: update_conv')
qed simp

lemma tasks_updated_frame [simp]:
  "localJobs (tasks_updated j s) = localJobs s" "tasksList (tasks_updated j s) = tasksList s"
  "js_loaded (tasks_updated j s) = js_loaded s"
  by (simp_all add: tasks_updated_def)

lemma js_wf_new [keeps]: "js_wf new_jobs_store"
  by (simp add: js_wf_def new_jobs_store_def)

lemma js_wf_enqueue [keeps]: "js_wf s \<Longrightarrow> js_wf (enqueueLocalJob i j s)"
  by (simp add: js_wf_def enqueueLocalJob_def distinct_keys_update)

lemma js_wf_delete [keeps]: "js_wf s \<Longrightarrow> js_wf (deleteLocalJob i s)"
  by (simp add: js_wf_def deleteLocalJob_def Let_def distinct_keys_delete)

lemma js_wf_resolved [keeps]: "js_wf s \<Longrightarrow> js_wf (getJobs_resolved f r s)"
  by (cases r) (auto simp: js_wf_def getJobs_resolved_def intro: distinct_keys_fold)

lemma js_wf_message [keeps]: "js_wf s \<Longrightarrow> js_wf (on_task_message j t s)"
  by (simp add: js_wf_def on_task_message_def Let_def distinct_keys_update)

section \<open>The contract of local jobs\<close>

locale local_jobs =
  fixes enq :: "string \<Rightarrow> 'j \<Rightarrow> 's \<Rightarrow> 's"
    and del :: "string \<Rightarrow> 's \<Rightarrow> 's"
    and look :: "'s \<Rightarrow> string \<Rightarrow> 'j option"
    and ok :: "'s \<Rightarrow> bool"
  assumes look_enq: "look (enq i j s) i' = (if i' = i then Some j else look s i')"
    and look_del: "ok s \<Longrightarrow> look (del i s) i' = (if i' = i then None else look s i')"
    and ok_enq: "ok s \<Longrightarrow> ok (enq i j s)"
    and ok_del: "ok s \<Longrightarrow> ok (del i s)"
begin

lemma enq_del: "ok s \<Longrightarrow> look (del i (enq i j s)) i' = (if i' = i then None else look s i')"
  by (simp add: look_enq look_del ok_enq)

lemma enq_same: "look s i = Some j \<Longrightarrow> look (enq i j s) = look s"
  by (auto simp: look_enq)

lemma enq_all:
  "look (fold (\<lambda>(i, j). enq i j) ps s) i =
     (case map_of (rev ps) i of None \<Rightarrow> look s i | Some j \<Rightarrow> Some j)"
proof (induction ps rule: rev_induct)
  case (snoc p ps)
  then show ?case by (cases p) (simp add: look_enq)
qed simp

end

interpretation jobs_registry: local_jobs enqueueLocalJob deleteLocalJob "\<lambda>s. map_of (localJobs s)" js_wf
  by unfold_locales
    (simp_all add: js_wf_enqueue js_wf_delete, simp_all add: enqueueLocalJob_def deleteLocalJob_def
      Let_def update_conv' delete_conv')

section \<open>Properties\<close>

text \<open>
  Refreshing: once the server has answered, the list holds exactly the jobs of the answer and
  the local jobs, the answer winning where both name a job. Nothing from before survives.
\<close>

lemma refresh_contents:
  assumes wf: "js_wf s" and req: "getJobs True True s = Requested s1"
  shows "map_of (tasksList (getJobs_resolved idOf (Some jobs) s1)) k =
           (case find (\<lambda>j. idOf j = k) (rev jobs) of Some j \<Rightarrow> Some j | None \<Rightarrow> map_of (localJobs s) k)"
proof -
  have s1: "s1 = s\<lparr>tasksList := merge_local (localJobs s) []\<rparr>"
    using req by (simp add: getJobs_def)
  have "map_of (tasksList s1) = map_of (localJobs s)"
    using wf by (simp add: s1 js_wf_def map_of_merge_local)
  then show ?thesis
    by (simp add: getJobs_resolved_def map_of_fold_set split: option.splits)
qed

lemma getJobs_wf [keeps]:
  "js_wf s \<Longrightarrow> (case getJobs u f s of Resolved s' \<Rightarrow> js_wf s' | Requested s' \<Rightarrow> js_wf s')"
  by (auto simp: getJobs_def js_wf_def intro: distinct_merge_local)

end
