(* ===== verification/UploadTask.thy ===== *)
theory UploadTask
  imports JobsStore
begin

text \<open>
  The job an upload session shows in the tasks panel, \<open>uploader.html/res/js/model/Task.js\<close>.
  The \<open>Task\<close> object keeps a \<open>JobsJob\<close> whose \<open>Tasks\<close> array holds the one \<open>JobsTask\<close> it
  mutates; both are shared by reference with the registry, so the registry's entry is the
  session's number and \<open>local_job\<close> is what a reader of the registry sees. The status of a
  session is compared as the strings of \<open>StatusItem\<close>, as the code does.
\<close>

datatype status =
    StNew | StAnalyse | StFolders | StLoading | StLoaded | StError | StPause
  | StCannotPause | StMultiPause | StReady | StConfirm

text \<open>The constants \<open>StatusItem.Status...\<close>; \<open>ready\<close> and \<open>confirm\<close> are literals of \<open>Session.js\<close>.\<close>

fun status_string :: "status \<Rightarrow> string" where
  "status_string StNew = ''new''"
| "status_string StAnalyse = ''analyse''"
| "status_string StFolders = ''folders''"
| "status_string StLoading = ''loading''"
| "status_string StLoaded = ''loaded''"
| "status_string StError = ''error''"
| "status_string StPause = ''pause''"
| "status_string StCannotPause = ''cannot-pause''"
| "status_string StMultiPause = ''multi-pause''"
| "status_string StReady = ''ready''"
| "status_string StConfirm = ''confirm''"

text \<open>There are eleven statuses, so a statement about all of them is evaluated.\<close>

instantiation status :: enum
begin

definition enum_status :: "status list" where
  "enum_status = [StNew, StAnalyse, StFolders, StLoading, StLoaded, StError, StPause,
     StCannotPause, StMultiPause, StReady, StConfirm]"

definition enum_all_status :: "(status \<Rightarrow> bool) \<Rightarrow> bool" where
  "enum_all_status P \<longleftrightarrow> list_all P enum_class.enum"

definition enum_ex_status :: "(status \<Rightarrow> bool) \<Rightarrow> bool" where
  "enum_ex_status P \<longleftrightarrow> list_ex P enum_class.enum"

instance
proof
  show all: "(UNIV :: status set) = set enum_class.enum"
  proof (intro set_eqI iffI)
    fix st :: status
    show "st \<in> set enum_class.enum" by (cases st) (simp_all add: enum_status_def)
  qed simp
  show "distinct (enum_class.enum :: status list)" by (simp add: enum_status_def)
  show "enum_class.enum_all P \<longleftrightarrow> Ball UNIV P" for P :: "status \<Rightarrow> bool"
    by (simp only: all enum_all_status_def list_all_iff)
  show "enum_class.enum_ex P \<longleftrightarrow> Bex UNIV P" for P :: "status \<Rightarrow> bool"
    by (simp only: all enum_ex_status_def list_ex_iff)
qed

end

lemma status_strings_differ: "\<forall>a b. status_string a = status_string b \<longrightarrow> a = b"
  by code_simp

lemma status_string_inj: "status_string a = status_string b \<longleftrightarrow> a = b"
  using status_strings_differ by auto

record upload_task =
  utJob :: jjob
  utTask :: jtask

definition local_job :: "upload_task \<Rightarrow> jjob" where
  "local_job t = (utJob t)\<lparr>j_Tasks := Some [utTask t]\<rparr>"

type_synonym messages = "string \<Rightarrow> string option"

definition task_msg :: "messages \<Rightarrow> string \<Rightarrow> string" where
  "task_msg hash i =
     (case hash (''html_uploader.task.'' @ i) of
        Some m \<Rightarrow> if m = [] then i else m
      | None \<Rightarrow> i)"

definition notifyMainStore :: "nat \<Rightarrow> nat \<Rightarrow> upload_task \<times> nat jobs_store \<Rightarrow> upload_task \<times> nat jobs_store" where
  "notifyMainStore now ref ts =
     (let (t, js) = ts in
      if t_Progress (utTask t) = Some 1 then (t, js)
      else (t\<lparr>utTask := (utTask t)\<lparr>t_StartTime := now\<rparr>\<rparr>,
            enqueueLocalJob (j_ID (utJob t)) ref js))"

definition set_label :: "string \<Rightarrow> upload_task \<Rightarrow> upload_task" where
  "set_label l t = t\<lparr>utJob := (utJob t)\<lparr>j_Label := l\<rparr>\<rparr>"

definition set_task :: "string \<Rightarrow> string option \<Rightarrow> upload_task \<Rightarrow> upload_task" where
  "set_task st m t =
     t\<lparr>utTask := (utTask t)\<lparr>t_Status := st,
        t_StatusMessage := (case m of Some x \<Rightarrow> x | None \<Rightarrow> t_StatusMessage (utTask t))\<rparr>\<rparr>"

text \<open>The status observer; \<open>ff\<close> is \<open>getCreateFolders()\<close>, \<open>aa\<close> the number of children.\<close>

definition statusObserver ::
    "messages \<Rightarrow> nat \<Rightarrow> nat \<Rightarrow> string \<Rightarrow> nat \<Rightarrow> nat \<Rightarrow> upload_task \<times> nat jobs_store \<Rightarrow> upload_task \<times> nat jobs_store" where
  "statusObserver hash now ref s ff aa ts =
     (let m = task_msg hash; (t, js) = ts;
          t' = (if s = status_string StFolders \<and> ff \<noteq> 0 then
                  set_task ''Running''
                    (Some (if ff > 1 then js_replace (m ''message.folder-many'') ''%s'' (nat_str ff)
                           else m ''message.folder-one''))
                    (set_label (m ''status.folders'') t)
                else if s = status_string StAnalyse then
                  set_task ''Running''
                    (Some (if aa > 1 then js_replace (m ''message.analyse-many'') ''%s'' (nat_str aa)
                           else if aa = 1 then m ''message.analyse-one''
                           else m ''message.analyse-wait''))
                    (set_label (m ''status.analyse'') t)
                else if s = ''ready'' then
                  set_task ''Idle'' (Some (m ''status.ready'')) (set_label (m ''7'') t)
                else if s = ''paused'' then
                  set_task ''Paused'' None (set_label (m ''status.paused'') t)
                else if s = ''loading'' then
                  set_task ''Running'' None (set_label (m ''status.upload'') t)
                else t)
      in notifyMainStore now ref (t', js))"

definition progressObserver ::
    "messages \<Rightarrow> nat \<Rightarrow> nat \<Rightarrow> rat \<Rightarrow> upload_task \<times> nat jobs_store \<Rightarrow> upload_task \<times> nat jobs_store" where
  "progressObserver hash now ref p ts =
     (let m = task_msg hash; (t, js) = ts;
          t1 = set_label (m ''status.upload'') t;
          t2 = t1\<lparr>utTask := (utTask t1)\<lparr>t_Progress := Some (p / 100)\<rparr>\<rparr>;
          t3 = set_task ''Running''
                 (if p > 0 then Some (js_replace (m ''message.upload-progress'') ''%s'' (nat_str (nat \<lceil>p\<rceil>)))
                  else None) t2
      in notifyMainStore now ref (t3, js))"

text \<open>\<open>Task.create(session)\<close>: \<open>ref\<close> and \<open>sid\<close> are the session and its identifier.\<close>

definition blank_task :: "messages \<Rightarrow> string \<Rightarrow> string \<Rightarrow> upload_task" where
  "blank_task hash owner sid =
     \<lparr>utJob = \<lparr>j_ID = ''local-upload-task-'' @ sid, j_Owner = owner,
               j_Label = task_msg hash ''label'', j_Stoppable = True, j_Tasks = None\<rparr>,
      utTask = \<lparr>t_ID = ''upload'', t_JobID = [], t_Status = ''Idle'', t_StatusMessage = [],
                t_HasProgress = True, t_Progress = None, t_StartTime = 0\<rparr>\<rparr>"

definition newTask ::
    "messages \<Rightarrow> string \<Rightarrow> nat \<Rightarrow> nat \<Rightarrow> string \<Rightarrow> nat \<Rightarrow> nat \<Rightarrow> rat \<Rightarrow> nat jobs_store
     \<Rightarrow> upload_task \<times> nat jobs_store" where
  "newTask hash owner now ref st ff aa p js =
     (let ts1 = statusObserver hash now ref st ff aa (blank_task hash owner (nat_str ref), js);
          (t, js2) = progressObserver hash now ref p ts1
      in (t, enqueueLocalJob (j_ID (utJob t)) ref js2))"

definition setIdle :: "nat \<Rightarrow> nat \<Rightarrow> upload_task \<times> nat jobs_store \<Rightarrow> upload_task \<times> nat jobs_store" where
  "setIdle now ref ts =
     (let (t, js) = ts in
      if t_Progress (utTask t) = Some 1 then (t, deleteLocalJob (j_ID (utJob t)) js)
      else notifyMainStore now ref
             (t\<lparr>utTask := (utTask t)\<lparr>t_Status := ''Idle'', t_StatusMessage := []\<rparr>\<rparr>, js))"

section \<open>Facts\<close>

lemma set_task_sel [simp]:
  "utJob (set_task st m t) = utJob t" "t_Status (utTask (set_task st m t)) = st"
  "t_Progress (utTask (set_task st m t)) = t_Progress (utTask t)"
  by (simp_all add: set_task_def)

lemma set_label_sel [simp]:
  "utTask (set_label l t) = utTask t" "j_ID (utJob (set_label l t)) = j_ID (utJob t)"
  by (simp_all add: set_label_def)

lemma notifyMainStore_sel [simp]:
  "utJob (fst (notifyMainStore now ref ts)) = utJob (fst ts)"
  "t_Status (utTask (fst (notifyMainStore now ref ts))) = t_Status (utTask (fst ts))"
  "t_Progress (utTask (fst (notifyMainStore now ref ts))) = t_Progress (utTask (fst ts))"
  by (simp_all add: notifyMainStore_def split: prod.splits)

lemma notifyMainStore_registers:
  assumes "t_Progress (utTask t) \<noteq> Some 1"
  shows "map_of (localJobs (snd (notifyMainStore now ref (t, js)))) =
           (map_of (localJobs js))(j_ID (utJob t) \<mapsto> ref)"
  using assms jobs_registry.look_enq [of "j_ID (utJob t)" ref js]
  by (simp add: notifyMainStore_def fun_eq_iff)

lemma js_wf_notifyMainStore [keeps]: "js_wf (snd ts) \<Longrightarrow> js_wf (snd (notifyMainStore now ref ts))"
  by (auto simp: notifyMainStore_def js_wf_enqueue split: prod.splits)

lemma js_wf_statusObserver [keeps]:
  "js_wf (snd ts) \<Longrightarrow> js_wf (snd (statusObserver hash now ref s ff aa ts))"
  unfolding statusObserver_def Let_def
  by (cases ts) (simp add: js_wf_notifyMainStore)

lemma js_wf_progressObserver [keeps]:
  "js_wf (snd ts) \<Longrightarrow> js_wf (snd (progressObserver hash now ref p ts))"
  unfolding progressObserver_def Let_def
  by (cases ts) (simp add: js_wf_notifyMainStore)

lemma js_wf_setIdle [keeps]: "js_wf (snd ts) \<Longrightarrow> js_wf (snd (setIdle now ref ts))"
  unfolding setIdle_def Let_def
  by (cases ts) (simp add: js_wf_notifyMainStore js_wf_delete)

lemma progressObserver_sel:
  "t_Progress (utTask (fst (progressObserver hash now ref p ts))) = Some (p / 100)"
  "t_Status (utTask (fst (progressObserver hash now ref p ts))) = ''Running''"
  "j_ID (utJob (fst (progressObserver hash now ref p ts))) = j_ID (utJob (fst ts))"
  by (cases ts; simp add: progressObserver_def Let_def set_label_def)+

lemma statusObserver_ID:
  "j_ID (utJob (fst (statusObserver hash now ref s ff aa ts))) = j_ID (utJob (fst ts))"
  by (cases ts) (simp add: statusObserver_def Let_def)

text \<open>
  No status of an item is the string \<open>paused\<close> the observer tests for (the constant is
  \<open>pause\<close>), so a session's status never turns its job to \<open>Paused\<close>.
\<close>

lemma job_never_paused:
  "t_Status (utTask t) \<noteq> ''Paused'' \<Longrightarrow>
   t_Status (utTask (fst (statusObserver hash now ref (status_string st) ff aa (t, js)))) \<noteq> ''Paused''"
  by (cases st) (simp_all add: statusObserver_def Let_def)

text \<open>
  A finished session leaves the registry when it goes idle; an unfinished one stays, marked idle.
\<close>

lemma setIdle_registry:
  assumes "js_wf js"
  shows "map_of (localJobs (snd (setIdle now ref (t, js)))) =
           (if t_Progress (utTask t) = Some 1 then (map_of (localJobs js))(j_ID (utJob t) := None)
            else (map_of (localJobs js))(j_ID (utJob t) \<mapsto> ref))"
proof (cases "t_Progress (utTask t) = Some 1")
  case True
  then show ?thesis
    using jobs_registry.look_del [OF assms, of "j_ID (utJob t)"] by (simp add: setIdle_def fun_eq_iff)
next
  case False
  then show ?thesis by (simp add: setIdle_def notifyMainStore_registers)
qed

end
