(* ===== verification/Paths.thy ===== *)
theory Paths
  imports Prelude
begin

text \<open>
  The path and language helpers of the core library that the modelled components call:
  \<open>PathUtils.getBasename\<close>, \<open>getDirname\<close>, \<open>getFileExtension\<close> and
  \<open>LangUtils.arrayWithout\<close>, \<open>trimLeft\<close>, \<open>trimRight\<close>, \<open>trim\<close>, \<open>computeStringSlug\<close>
  (\<open>gui.ajax/res/js/core/util/PathUtils.es6\<close> and \<open>LangUtils.es6\<close>), with the facts about
  them the components use: a base name is a path segment, \<open>arrayWithout\<close> at the index of an
  element removes that element, and a slug is a fixed point over a small alphabet.
\<close>

section \<open>PathUtils\<close>

definition getBasename :: "string \<Rightarrow> string" where
  "getBasename fileName =
     (let separator = (if CHR 92 \<in> set fileName then CHR 92 else CHR ''/'')
      in drop (nat (last_index_of separator fileName + 1)) fileName)"

text \<open>\<open>substr(0, -1)\<close> is the empty string.\<close>

definition getDirname :: "string \<Rightarrow> string" where
  "getDirname fileName = take (nat (last_index_of CHR ''/'' fileName)) fileName"

definition getFileExtension :: "string \<Rightarrow> string" where
  "getFileExtension fileName =
     (if fileName = [] then []
      else let sp = js_split CHR ''.'' (getBasename fileName)
           in if length sp > 1 then js_lower (last sp) else [])"

lemma drop_last_index_no_sep:
  "c \<notin> set (drop (nat (last_index_of c s + 1)) s)"
proof (induction s)
  case (Cons x s)
  show ?case
  proof (cases "0 \<le> last_index_of c s")
    case True
    then have "nat (last_index_of c s + 2) = Suc (nat (last_index_of c s + 1))" by simp
    with True Cons show ?thesis by (simp add: Let_def add.commute)
  next
    case False
    then have "last_index_of c s = - 1" using last_index_of_ge [of c s] by simp
    with Cons have "c \<notin> set s" by simp
    with False show ?thesis by (auto simp: Let_def)
  qed
qed simp

lemma take_drop_last_index:
  assumes "c \<in> set s"
  shows "take (nat (last_index_of c s)) s @ c # drop (nat (last_index_of c s + 1)) s = s"
  using assms
proof (induction s)
  case (Cons x s)
  show ?case
  proof (cases "0 \<le> last_index_of c s")
    case True
    then have "c \<in> set s" by (cases "c \<in> set s") auto
    moreover from True have "nat (last_index_of c s + 2) = Suc (nat (last_index_of c s + 1))"
      and "nat (last_index_of c s + 1) = Suc (nat (last_index_of c s))" by simp_all
    ultimately show ?thesis using True Cons.IH by (simp add: Let_def add.commute)
  next
    case False
    then have "last_index_of c s = - 1" using last_index_of_ge [of c s] by simp
    moreover from this have "c \<notin> set s"
      using drop_last_index_no_sep [of c s] by simp
    ultimately show ?thesis using Cons.prems False by (auto simp: Let_def)
  qed
qed simp

lemma getBasename_no_slash:
  "CHR 92 \<notin> set p \<Longrightarrow> CHR ''/'' \<notin> set (getBasename p)"
  by (simp add: getBasename_def Let_def drop_last_index_no_sep)

lemma getBasename_no_slash_id:
  "CHR 92 \<notin> set p \<Longrightarrow> CHR ''/'' \<notin> set p \<Longrightarrow> getBasename p = p"
  by (simp add: getBasename_def)

lemma dirname_basename:
  "CHR 92 \<notin> set p \<Longrightarrow> CHR ''/'' \<in> set p \<Longrightarrow> getDirname p @ ''/'' @ getBasename p = p"
  using take_drop_last_index [of "CHR ''/''" p] by (simp add: getBasename_def getDirname_def)

lemma getBasename_append:
  assumes "CHR 92 \<notin> set d" "CHR 92 \<notin> set b" "CHR ''/'' \<notin> set b"
  shows "getBasename (d @ ''/'' @ b) = b"
  using assms by (simp add: getBasename_def last_index_of_append Let_def nat_add_distrib)

section \<open>LangUtils\<close>

definition arrayWithout :: "'a list \<Rightarrow> int \<Rightarrow> 'a list" where
  "arrayWithout array key =
     (if array = [] then array
      else if key \<ge> int (length array) then array
      else if key = 0 then js_slice_from array 1
      else if key = int (length array) - 1 then js_slice array 0 (- 1)
      else js_slice array 0 key @ js_slice_from array (key + 1))"

lemma arrayWithout_nat:
  assumes "i < length xs"
  shows "arrayWithout xs (int i) = take i xs @ drop (Suc i) xs"
proof -
  have one: "js_slice_from xs 1 = drop 1 xs" using js_slice_from_nat [of xs 1] by simp
  have "js_slice_from xs (int i + 1) = drop (Suc i) xs"
    using js_slice_from_nat [of xs "Suc i"] by (simp add: add.commute)
  moreover have "i = length xs - Suc 0" if "int i = int (length xs) - 1" using that by linarith
  ultimately show ?thesis using assms one
    by (auto simp: arrayWithout_def js_slice_prefix js_slice_butlast butlast_conv_take)
qed

lemma js_indexOf_remove1:
  "y \<in> set xs \<Longrightarrow>
     take (nat (js_indexOf xs y)) xs @ drop (Suc (nat (js_indexOf xs y))) xs = remove1 y xs
     \<and> nat (js_indexOf xs y) < length xs"
proof (induction xs)
  case (Cons x xs)
  show ?case
  proof (cases "x = y")
    case False
    with Cons.prems have y: "y \<in> set xs" by simp
    then have "0 \<le> js_indexOf xs y" by (rule js_indexOf_nonneg)
    then have "nat (js_indexOf xs y + 1) = Suc (nat (js_indexOf xs y))" by simp
    with Cons.IH [OF y] False y show ?thesis by (auto simp: Let_def)
  qed simp
qed simp

lemma arrayWithout_indexOf:
  assumes "y \<in> set xs"
  shows "arrayWithout xs (js_indexOf xs y) = remove1 y xs"
proof -
  have i: "js_indexOf xs y = int (nat (js_indexOf xs y))"
    using js_indexOf_nonneg [OF assms] by simp
  show ?thesis
    using js_indexOf_remove1 [OF assms] arrayWithout_nat [of "nat (js_indexOf xs y)" xs] i
    by simp
qed

text \<open>
  The index \<open>-1\<close> of a missing element is not guarded: on two elements or more the array
  without its last element is put before the whole array.
\<close>

lemma arrayWithout_minus_one:
  "xs \<noteq> [] \<Longrightarrow> arrayWithout xs (- 1) = butlast xs @ xs"
  by (simp add: arrayWithout_def js_slice_butlast js_slice_full)

definition trimLeft :: "string \<Rightarrow> char \<Rightarrow> string" where
  "trimLeft s c = dropWhile (\<lambda>x. x = c) s"

definition trimRight :: "string \<Rightarrow> char \<Rightarrow> string" where
  "trimRight s c = rev (dropWhile (\<lambda>x. x = c) (rev s))"

definition trim :: "string \<Rightarrow> char \<Rightarrow> string" where
  "trim s c = trimLeft (trimRight s c) c"

lemma trimRight_snoc [simp]:
  "trimRight (s @ [x]) c = (if x = c then trimRight s c else s @ [x])"
  by (simp add: trimRight_def)

lemma trimRight_Nil [simp]: "trimRight [] c = []"
  by (simp add: trimRight_def)

lemma trimRight_last: "trimRight s c \<noteq> [] \<Longrightarrow> last (trimRight s c) \<noteq> c"
  by (induction s rule: rev_induct) auto

lemma trimRight_idem: "trimRight (trimRight s c) c = trimRight s c"
  by (induction s rule: rev_induct) auto

subsection \<open>Slugs\<close>

text \<open>\<open>LangUtils.slugTable\<close>: code point ranges and their replacement, in the table's order.\<close>

definition slugTable :: "(nat \<times> nat \<times> char) list" where
  "slugTable =
     [(0xC0, 0xC6, CHR ''A''), (0xE0, 0xE6, CHR ''a''), (0xC8, 0xCB, CHR ''E''),
      (0xE8, 0xEB, CHR ''e''), (0xCC, 0xCF, CHR ''I''), (0xEC, 0xEF, CHR ''i''),
      (0xD2, 0xD6, CHR ''O''), (0xF2, 0xF6, CHR ''o''), (0xD9, 0xDC, CHR ''U''),
      (0xF9, 0xFC, CHR ''u''), (0xC7, 0xE7, CHR ''c''), (0xD1, 0xD1, CHR ''N''),
      (0xF1, 0xF1, CHR ''n'')]"

definition is_space :: "char \<Rightarrow> bool" where
  "is_space c \<longleftrightarrow> (let n = of_char c :: nat in n = 32 \<or> (9 \<le> n \<and> n \<le> 13) \<or> n = 0xA0)"

definition slug_char :: "char \<Rightarrow> bool" where
  "slug_char c \<longleftrightarrow> (let n = of_char c :: nat in
     (97 \<le> n \<and> n \<le> 122) \<or> (48 \<le> n \<and> n \<le> 57) \<or> n = 45)"

text \<open>Replacing every maximal run of characters in \<open>p\<close> by one \<open>r\<close>, as \<open>replace(/p+/g, r)\<close>.\<close>

fun squeeze :: "(char \<Rightarrow> bool) \<Rightarrow> char \<Rightarrow> string \<Rightarrow> string" where
  "squeeze p r [] = []"
| "squeeze p r (c # s) =
     (if p c then (if s \<noteq> [] \<and> p (hd s) then squeeze p r s else r # squeeze p r s)
      else c # squeeze p r s)"

definition slug_table_pass :: "string \<Rightarrow> string" where
  "slug_table_pass value =
     foldl (\<lambda>v (lo, hi, ch). map (\<lambda>c. if lo \<le> (of_char c :: nat) \<and> of_char c \<le> hi then ch else c) v)
       value slugTable"

definition computeStringSlug :: "string \<Rightarrow> string" where
  "computeStringSlug value =
     squeeze (\<lambda>c. c = CHR ''-'') CHR ''-''
       (filter slug_char (squeeze is_space CHR ''-'' (js_lower (slug_table_pass value))))"

fun no_double :: "char \<Rightarrow> string \<Rightarrow> bool" where
  "no_double r (a # b # s) \<longleftrightarrow> \<not> (a = r \<and> b = r) \<and> no_double r (b # s)"
| "no_double r _ \<longleftrightarrow> True"

lemma set_squeeze: "set (squeeze p r s) \<subseteq> insert r (set s)"
  by (induction s) auto

lemma squeeze_Nil_iff [simp]: "squeeze p r s = [] \<longleftrightarrow> s = []"
  by (induction s) auto

lemma hd_squeeze: "s \<noteq> [] \<Longrightarrow> hd (squeeze (\<lambda>c. c = r) r s) = hd s"
  by (induction s) auto

lemma no_double_Cons: "no_double r (c # s) \<longleftrightarrow> (s = [] \<or> \<not> (c = r \<and> hd s = r)) \<and> no_double r s"
  by (cases s) auto

lemma no_double_squeeze: "no_double r (squeeze (\<lambda>c. c = r) r s)"
  by (induction s) (auto simp: no_double_Cons hd_squeeze)

lemma squeeze_no_double: "no_double r s \<Longrightarrow> squeeze (\<lambda>c. c = r) r s = s"
  by (induction s) (auto simp: no_double_Cons)

lemma squeeze_none: "\<forall>c \<in> set s. \<not> p c \<Longrightarrow> squeeze p r s = s"
  by (induction s) auto

lemma slug_table_pass_id:
  "\<forall>c \<in> set s. (of_char c :: nat) < 128 \<Longrightarrow> slug_table_pass s = s"
proof -
  assume a: "\<forall>c \<in> set s. (of_char c :: nat) < 128"
  have m: "128 \<le> lo \<Longrightarrow>
      map (\<lambda>c. if lo \<le> (of_char c :: nat) \<and> of_char c \<le> hi then ch else c) s = s" for lo hi ch
    using a by (intro map_idI) force
  show ?thesis by (simp add: slug_table_pass_def slugTable_def m)
qed

lemma slug_char_ascii: "slug_char c \<Longrightarrow> (of_char c :: nat) < 128"
  by (auto simp: slug_char_def Let_def)

lemma slug_char_not_space: "slug_char c \<Longrightarrow> \<not> is_space c"
  by (auto simp: slug_char_def is_space_def Let_def)

lemma lower_slug_char: "slug_char c \<Longrightarrow> lower_char c = c"
  by (auto simp: slug_char_def lower_char_def Let_def)

lemma slug_chars: "list_all slug_char (computeStringSlug v)"
proof -
  have "slug_char CHR ''-''" by (simp add: slug_char_def)
  then show ?thesis
    using set_squeeze [of "\<lambda>c. c = CHR ''-''" "CHR ''-''"]
    unfolding computeStringSlug_def list_all_iff by fastforce
qed

lemma slug_no_double: "no_double CHR ''-'' (computeStringSlug v)"
  by (simp add: computeStringSlug_def no_double_squeeze)

lemma slug_fixpoint:
  assumes "list_all slug_char s" "no_double CHR ''-'' s"
  shows "computeStringSlug s = s"
proof -
  have t: "slug_table_pass s = s"
    using assms(1) by (auto simp: list_all_iff slug_char_ascii intro: slug_table_pass_id)
  have l: "js_lower s = s"
    using assms(1) by (simp add: js_lower_def list_all_iff lower_slug_char map_idI)
  have w: "squeeze is_space CHR ''-'' s = s"
    using assms(1) by (simp add: squeeze_none list_all_iff slug_char_not_space)
  have f: "filter slug_char s = s"
    using assms(1) by (simp add: list_all_iff filter_id_conv)
  show ?thesis using assms(2) by (simp add: computeStringSlug_def t l w f squeeze_no_double)
qed

text \<open>The slug of a name is stable: recomputing it changes nothing.\<close>

lemma slug_idem: "computeStringSlug (computeStringSlug v) = computeStringSlug v"
  by (rule slug_fixpoint [OF slug_chars slug_no_double])

text \<open>
  The table's range \<open>[C7-E7]\<close> for the two cedillas also covers the capital N with tilde
  (\<open>D1\<close>), and it comes first: the entry for \<open>N\<close> is never reached.
\<close>

lemma slug_n_tilde: "computeStringSlug [CHR 0xD1] = ''c''"
  by (simp add: computeStringSlug_def slug_table_pass_def slugTable_def js_lower_def lower_char_def
      slug_char_def is_space_def Let_def)

end
