(* ===== verification/UploadConfigs.thy ===== *)
theory UploadConfigs
  imports Paths
begin

text \<open>
  The options of the uploader, \<open>uploader.html/res/js/model/Configs.js\<close>: the plugin's
  configuration, overridden by a preference the user may keep for all workspaces or for the
  active one, and the check of a file's extension. The user's \<open>gui_preferences\<close> are an object
  of objects; the entries of one element whose key is \<open>repo-\<close> followed by a workspace hold an
  object again, the others a value, so they are two components of \<open>gui_element\<close>.
\<close>

datatype optval = OBool bool | OStr string

record gui_element =
  plainPrefs :: "(string, string) obj"
  repoPrefs :: "(string, (string, string) obj) obj"

type_synonym gui_preferences = "(string, gui_element) obj"

record upload_config =
  pluginConfigs :: "string \<Rightarrow> optval option"
  user :: "gui_preferences option option"   \<comment> \<open>no user; a user without preferences; preferences\<close>
  currentRepository :: string               \<comment> \<open>empty when there is none\<close>
  changes :: nat                            \<comment> \<open>notifications of \<open>change\<close>\<close>
  saved :: "string list"                    \<comment> \<open>preferences sent to the server\<close>

definition repo_key :: "string \<Rightarrow> string" where
  "repo_key r = ''repo-'' @ r"

definition getUserPreference :: "upload_config \<Rightarrow> string \<Rightarrow> string \<Rightarrow> string option" where
  "getUserPreference c guiElementId prefName =
     (case user c of
        Some (Some gui_pref) \<Rightarrow>
          (case map_of gui_pref guiElementId of
             None \<Rightarrow> None
           | Some el \<Rightarrow>
               (case (if currentRepository c \<noteq> [] then map_of (repoPrefs el) (repo_key (currentRepository c))
                      else None) of
                  Some o1 \<Rightarrow> map_of o1 prefName
                | None \<Rightarrow> map_of (plainPrefs el) prefName))
      | _ \<Rightarrow> None)"

definition the_obj :: "('k, 'v) obj option \<Rightarrow> ('k, 'v) obj" where
  "the_obj m = (case m of None \<Rightarrow> [] | Some o1 \<Rightarrow> o1)"

definition the_element :: "gui_element option \<Rightarrow> gui_element" where
  "the_element m = (case m of None \<Rightarrow> \<lparr>plainPrefs = [], repoPrefs = []\<rparr> | Some el \<Rightarrow> el)"

text \<open>
  \<open>setUserPreference\<close>: the missing levels are created, an unchanged value (unless it is the
  empty string, which is falsy) stops before anything is saved.
\<close>

definition setUserPreference :: "string \<Rightarrow> string \<Rightarrow> string \<Rightarrow> upload_config \<Rightarrow> upload_config" where
  "setUserPreference guiElementId prefName prefValue c =
     (case user c of
        None \<Rightarrow> c
      | Some prefs \<Rightarrow>
          let guiPref = the_obj prefs;
              el = the_element (map_of guiPref guiElementId)
          in if currentRepository c \<noteq> [] then
               let repokey = repo_key (currentRepository c);
                   o1 = the_obj (map_of (repoPrefs el) repokey)
               in if prefValue \<noteq> [] \<and> map_of o1 prefName = Some prefValue then c
                  else c\<lparr>user := Some (Some (obj_set guiElementId
                             (el\<lparr>repoPrefs := obj_set repokey (obj_set prefName prefValue o1) (repoPrefs el)\<rparr>)
                             guiPref)),
                         saved := saved c @ [prefName]\<rparr>
             else if prefValue \<noteq> [] \<and> map_of (plainPrefs el) prefName = Some prefValue then c
             else c\<lparr>user := Some (Some (obj_set guiElementId
                        (el\<lparr>plainPrefs := obj_set prefName prefValue (plainPrefs el)\<rparr>) guiPref)),
                    saved := saved c @ [prefName]\<rparr>)"

definition uploaderForm :: string where
  "uploaderForm = ''originalUploadForm_XHRUploader''"

definition getOption :: "upload_config \<Rightarrow> string \<Rightarrow> string \<Rightarrow> optval option \<Rightarrow> optval option" where
  "getOption c name userPref defaultValue =
     (case (if userPref \<noteq> [] then getUserPreference c uploaderForm userPref else None) of
        Some test \<Rightarrow> Some (OStr test)
      | None \<Rightarrow> (case pluginConfigs c name of Some v \<Rightarrow> Some v | None \<Rightarrow> defaultValue))"

definition getOptionAsBool :: "upload_config \<Rightarrow> string \<Rightarrow> string \<Rightarrow> optval option \<Rightarrow> bool" where
  "getOptionAsBool c name userPref defaultValue =
     (let o1 = getOption c name userPref defaultValue in o1 = Some (OBool True) \<or> o1 = Some (OStr ''true''))"

definition getAutoStart :: "upload_config \<Rightarrow> bool" where
  "getAutoStart c = getOptionAsBool c ''DEFAULT_AUTO_START'' ''upload_auto_send'' None"

definition getAutoClose :: "upload_config \<Rightarrow> bool" where
  "getAutoClose c = getOptionAsBool c ''DEFAULT_AUTO_CLOSE'' ''upload_auto_close'' None"

datatype optarg = ArgBool bool | ArgStr string

definition updateOption :: "string \<Rightarrow> optarg \<Rightarrow> upload_config \<Rightarrow> upload_config" where
  "updateOption name value c =
     (let v = (case value of ArgBool b \<Rightarrow> if b then ''true'' else ''false'' | ArgStr s \<Rightarrow> s);
          c1 = setUserPreference uploaderForm name v c
      in c1\<lparr>changes := Suc (changes c1)\<rparr>)"

text \<open>
  \<open>extensionAllowed\<close>: \<open>Some\<close> message when the label's extension is not in the configured list.
  The message is \<open>MessageHash[367]\<close> (an argument) with the list and its description.
\<close>

definition opt_text :: "optval option \<Rightarrow> string" where
  "opt_text v = (case v of Some (OStr s) \<Rightarrow> s | _ \<Rightarrow> [])"

definition extensionAllowed :: "upload_config \<Rightarrow> string \<Rightarrow> string \<Rightarrow> string option" where
  "extensionAllowed c msg367 label =
     (let extString = opt_text (getOption c ''ALLOWED_EXTENSIONS'' [] (Some (OStr [])));
          desc0 = opt_text (getOption c ''ALLOWED_EXTENSIONS_READABLE'' [] (Some (OStr [])));
          extDescription = (if desc0 \<noteq> [] then '' ('' @ desc0 @ '')'' else desc0);
          itemExt = getFileExtension label
      in if extString = [] then None
         else if js_indexOf (js_split CHR '','' extString) itemExt = - 1
           then Some (msg367 @ extString @ extDescription)
         else None)"

section \<open>Facts\<close>

lemma obj_set_hit [simp]: "map_of (obj_set k v o1) k' = (if k' = k then Some v else map_of o1 k')"
  by (simp add: update_conv')

text \<open>A preference that was set is the one read back, whatever was stored before.\<close>

lemma getUserPreference_set:
  assumes "user c \<noteq> None"
  shows "getUserPreference (setUserPreference g p v c) g p = Some v"
  using assms
  by (auto simp: getUserPreference_def setUserPreference_def Let_def the_obj_def the_element_def
      split: option.splits if_splits)

lemma getUserPreference_changes [simp]:
  "getUserPreference (c\<lparr>changes := n\<rparr>) g p = getUserPreference c g p"
  by (simp add: getUserPreference_def cong: option.case_cong if_cong)

lemma setUserPreference_sel [simp]:
  "pluginConfigs (setUserPreference g p v c) = pluginConfigs c"
  "currentRepository (setUserPreference g p v c) = currentRepository c"
  by (auto simp: setUserPreference_def Let_def split: option.splits)

text \<open>
  A boolean option set by the user is the one read back, whatever the plugin's configuration says.
\<close>

lemma updateOption_bool:
  assumes "user c \<noteq> None" "name \<noteq> []"
  shows "getOptionAsBool (updateOption name (ArgBool b) c) key name d = b"
proof -
  have "getUserPreference (updateOption name (ArgBool b) c) uploaderForm name =
      Some (if b then ''true'' else ''false'')"
    using getUserPreference_set [OF assms(1), of uploaderForm name "if b then ''true'' else ''false''"]
    by (simp add: updateOption_def Let_def)
  then show ?thesis using assms(2) by (simp add: getOptionAsBool_def getOption_def Let_def)
qed

lemma extension_unrestricted:
  "pluginConfigs c ''ALLOWED_EXTENSIONS'' = None \<Longrightarrow> extensionAllowed c m l = None"
  by (simp add: extensionAllowed_def getOption_def opt_text_def Let_def)

lemma extension_check:
  assumes "pluginConfigs c ''ALLOWED_EXTENSIONS'' = Some (OStr exts)" "exts \<noteq> []"
  shows "extensionAllowed c m l = None \<longleftrightarrow> getFileExtension l \<in> set (js_split CHR '','' exts)"
  using assms
  by (auto simp: extensionAllowed_def getOption_def opt_text_def Let_def)

end
