(* ===== verification/UploadState.thy ===== *)
theory UploadState
  imports UploadTask UploadConfigs
begin

text \<open>
  The objects of the upload queue and the operations on one of them
  (\<open>uploader.html/res/js/model\<close>: \<open>StatusItem.js\<close>, \<open>FolderItem.js\<close>, \<open>UploadItem.js\<close>,
  \<open>PartItem.js\<close>, the constructor of \<open>Session.js\<close>).

  Items refer to each other (a child to its parent, a parent to its children, the store to the
  items it processes), so they live in a heap: an item is a number, given in the order of
  creation in place of the random \<open>_id\<close>, and \<open>ustate\<close> holds the heap with the state of the
  \<open>Store\<close>, the sessions' tasks and the jobs registry. What the code reads from the rest of the
  application (user, configuration, messages, clock) is a record \<open>uenv\<close>. Notifications whose
  observers are views are appended to \<open>posted\<close>; those with an observer in the model (the
  parent's progress observer, a session's task, the store) run it.

  A percentage is a rational number; the code's floating point mean of integers differs from it
  by rounding only. \<open>normalize('NFC')\<close> is the identity on the model's characters.
\<close>

datatype klass = KSession | KFolder | KFile | KPart

datatype xhr = PlainXhr | ManagedXhr

record item =
  klass :: klass
  status :: status
  label :: string
  parent :: "nat option"
  target :: string                 \<comment> \<open>\<open>_targetNode.getPath()\<close>\<close>
  repositoryId :: string
  present :: bool                  \<comment> \<open>\<open>_exists\<close>\<close>
  progress :: rat
  errorMessage :: "string option"
  folders :: "nat list"
  files :: "nat list"
  pg :: "(nat, rat) obj"
  isNew :: bool
  fsize :: nat                     \<comment> \<open>\<open>_file.size\<close>\<close>
  parts :: "nat list option"
  xhr :: "xhr option"
  userAborted :: bool
  watched :: bool                  \<comment> \<open>has its parent's \<open>progress\<close> observer\<close>
  monitored :: bool                \<comment> \<open>has the store's \<open>status\<close> observer\<close>
  hasTask :: bool                  \<comment> \<open>a session that went through \<open>pushSession\<close>\<close>
  analyzeStatus :: string
  createFolders :: nat             \<comment> \<open>undefined is 0: both are falsy\<close>

datatype notif = NUpdate | NAutoClose | NSessionAdded nat | NDialog bool | NStatus nat status | NBytes nat nat

text \<open>Asynchronous calls under way; their answers are the events of \<open>UploadEvents\<close>.\<close>

datatype request =
    RCreateNodes "nat list"        \<comment> \<open>\<open>Store.processNext\<close>\<close>
  | RCreateFolder nat              \<comment> \<open>\<open>FolderItem._doProcess\<close>\<close>
  | RTimer nat nat                 \<comment> \<open>the back-off timer of an upload, with its retry count\<close>
  | RUpload nat nat                \<comment> \<open>an upload under way, with the count its error callback holds\<close>

record ustate =
  heap :: "nat \<Rightarrow> item"
  nextId :: nat
  tasks :: "nat \<Rightarrow> upload_task"
  jobs :: "nat jobs_store"
  sessions :: "nat list"
  processing :: "nat list"
  pauseRequired :: bool
  requests :: "request list"
  posted :: "notif list"

record uenv =
  activeRepository :: string
  userId :: string
  repoSlug :: "string \<Rightarrow> string option"
  messageHash :: messages
  clock :: nat
  multipartThreshold :: nat
  multipartPartSize :: nat
  config :: upload_config

definition post :: "notif \<Rightarrow> ustate \<Rightarrow> ustate" where
  "post n s = s\<lparr>posted := posted s @ [n]\<rparr>"

definition upd :: "nat \<Rightarrow> (item \<Rightarrow> item) \<Rightarrow> ustate \<Rightarrow> ustate" where
  "upd i f s = s\<lparr>heap := (heap s)(i := f (heap s i))\<rparr>"

definition getChildren :: "nat \<Rightarrow> ustate \<Rightarrow> nat list" where
  "getChildren i s = folders (heap s i) @ files (heap s i)"

section \<open>Notifications with observers in the model\<close>

definition run_task :: "nat \<Rightarrow> (upload_task \<times> nat jobs_store \<Rightarrow> upload_task \<times> nat jobs_store) \<Rightarrow> ustate \<Rightarrow> ustate" where
  "run_task i f s =
     (let (t, js) = f (tasks s i, jobs s) in s\<lparr>tasks := (tasks s)(i := t), jobs := js\<rparr>)"

text \<open>
  \<open>setStatus\<close>: the field, the task of a pushed session, the monitor of an item being processed.
  The store's own observer of a session's status only acts on \<open>ready\<close> and \<open>confirm\<close>: it is
  run by \<open>set_session_status\<close> in \<open>UploadStore\<close>.
\<close>

definition setStatus :: "uenv \<Rightarrow> nat \<Rightarrow> status \<Rightarrow> ustate \<Rightarrow> ustate" where
  "setStatus e i st s =
     (let s1 = upd i (\<lambda>it. it\<lparr>status := st\<rparr>) s;
          s2 = (if hasTask (heap s1 i) then
                  run_task i (statusObserver (messageHash e) (clock e) i (status_string st)
                    (createFolders (heap s1 i)) (length (getChildren i s1))) s1
                else s1);
          s3 = (if monitored (heap s2 i) then post NUpdate s2 else s2)
      in post (NStatus i st) s3)"

definition mean :: "(nat, rat) obj \<Rightarrow> rat" where
  "mean o1 = sum_list (map snd o1) / of_nat (length o1)"

text \<open>
  \<open>notify('progress', p)\<close> on \<open>i\<close>: a watched child writes its parent's entry and the parent
  recomputes and notifies in turn, up to the session, whose task observes it. A parent is
  created before its children, so the chain from \<open>i\<close> has at most \<open>i + 1\<close> items: the fuel
  \<open>Suc i\<close> is enough (\<open>notify_progress_fuel\<close> below).
\<close>

fun notify_progress :: "nat \<Rightarrow> uenv \<Rightarrow> nat \<Rightarrow> rat \<Rightarrow> ustate \<Rightarrow> ustate" where
  "notify_progress 0 e i p s = s"
| "notify_progress (Suc n) e i p s =
     (let s1 = (if hasTask (heap s i) then run_task i (progressObserver (messageHash e) (clock e) i p) s
                else s)
      in if watched (heap s1 i) then
           (case parent (heap s1 i) of
              None \<Rightarrow> s1
            | Some q \<Rightarrow>
                let s2 = upd q (\<lambda>it. it\<lparr>pg := obj_set i p (pg it)\<rparr>) s1;
                    m = mean (pg (heap s2 q))
                in notify_progress n e q m (upd q (\<lambda>it. it\<lparr>progress := m\<rparr>) s2))
         else s1)"

declare notify_progress.simps [simp del]

definition recomputeProgress :: "uenv \<Rightarrow> nat \<Rightarrow> ustate \<Rightarrow> ustate" where
  "recomputeProgress e i s =
     (let accu = pg (heap s i) in
      if accu \<noteq> [] then
        notify_progress (Suc i) e i (mean accu) (upd i (\<lambda>it. it\<lparr>progress := mean accu\<rparr>) s)
      else s)"

definition setProgress :: "uenv \<Rightarrow> nat \<Rightarrow> rat \<Rightarrow> nat option \<Rightarrow> ustate \<Rightarrow> ustate" where
  "setProgress e i v bytes s =
     (let s1 = notify_progress (Suc i) e i v (upd i (\<lambda>it. it\<lparr>progress := v\<rparr>) s)
      in case bytes of None \<Rightarrow> s1 | Some b \<Rightarrow> post (NBytes i b) s1)"

section \<open>Constructors\<close>

definition blank_item :: "klass \<Rightarrow> string \<Rightarrow> string \<Rightarrow> nat option \<Rightarrow> item" where
  "blank_item k tgt repo par =
     \<lparr>klass = k, status = StNew, label = [], parent = par, target = tgt, repositoryId = repo,
      present = False, progress = 0, errorMessage = None, folders = [], files = [], pg = [],
      isNew = False, fsize = 0, parts = None, xhr = None, userAborted = False, watched = False,
      monitored = False, hasTask = False, analyzeStatus = [], createFolders = 0\<rparr>"

definition newStatusItem :: "uenv \<Rightarrow> klass \<Rightarrow> string \<Rightarrow> nat option \<Rightarrow> ustate \<Rightarrow> nat \<times> ustate" where
  "newStatusItem e k tgt par s =
     (let repo = (case par of Some p \<Rightarrow> repositoryId (heap s p) | None \<Rightarrow> activeRepository e);
          i = nextId s;
          s1 = s\<lparr>heap := (heap s)(i := blank_item k tgt repo par), nextId := Suc i\<rparr>
      in (i, case par of
               None \<Rightarrow> s1
             | Some p \<Rightarrow> upd p (\<lambda>it. if k = KFolder then it\<lparr>folders := folders it @ [i]\<rparr>
                                      else it\<lparr>files := files it @ [i]\<rparr>) s1))"

definition addChild :: "nat \<Rightarrow> nat \<Rightarrow> ustate \<Rightarrow> ustate" where
  "addChild p c s =
     upd c (\<lambda>it. it\<lparr>watched := True\<rparr>) (upd p (\<lambda>it. it\<lparr>pg := obj_set c 0 (pg it)\<rparr>) s)"

definition newFolderItem :: "uenv \<Rightarrow> string \<Rightarrow> string \<Rightarrow> nat option \<Rightarrow> ustate \<Rightarrow> nat \<times> ustate" where
  "newFolderItem e path tgt par s =
     (let (i, s1) = newStatusItem e KFolder tgt par s;
          s2 = upd i (\<lambda>it. it\<lparr>isNew := True, label := getBasename path, pg := obj_set i 0 (pg it)\<rparr>) s1
      in (i, case par of None \<Rightarrow> s2 | Some p \<Rightarrow> addChild p i s2))"

text \<open>\<open>Session\<close>: the folder constructor for \<open>/\<close>, without the entry for itself.\<close>

definition newSession :: "uenv \<Rightarrow> string \<Rightarrow> string \<Rightarrow> ustate \<Rightarrow> nat \<times> ustate" where
  "newSession e repo tgt s =
     (let (i, s1) = newFolderItem e ''/'' tgt None s
      in (i, upd i (\<lambda>it. it\<lparr>klass := KSession, repositoryId := repo, status := StAnalyse,
                            pg := obj_del i (pg it), analyzeStatus := []\<rparr>) s1))"

definition newPartItem :: "uenv \<Rightarrow> nat \<Rightarrow> nat \<Rightarrow> ustate \<Rightarrow> nat \<times> ustate" where
  "newPartItem e p index s =
     (let (i, s1) = newStatusItem e KPart [] (Some p) s
      in (i, upd i (\<lambda>it. it\<lparr>label := ''Part '' @ nat_str index\<rparr>) s1))"

text \<open>\<open>createParts\<close>: \<open>Math.ceil(size / partSize)\<close> parts, numbered from 1.\<close>

fun push_parts :: "uenv \<Rightarrow> nat \<Rightarrow> nat list \<Rightarrow> ustate \<Rightarrow> ustate" where
  "push_parts e p [] s = s"
| "push_parts e p (k # ks) s =
     (let (c, s1) = newPartItem e p (k + 1) s
      in push_parts e p ks
           (upd p (\<lambda>it. it\<lparr>parts := Some (case parts it of None \<Rightarrow> [c] | Some cs \<Rightarrow> cs @ [c])\<rparr>) s1))"

definition part_count :: "nat \<Rightarrow> nat \<Rightarrow> nat" where
  "part_count sz partSize = (sz + partSize - 1) div partSize"

definition createParts :: "uenv \<Rightarrow> nat \<Rightarrow> ustate \<Rightarrow> ustate" where
  "createParts e i s =
     push_parts e i [0..<part_count (fsize (heap s i)) (multipartPartSize e)]
       (upd i (\<lambda>it. it\<lparr>parts := Some []\<rparr>) s)"

definition newUploadItem ::
    "uenv \<Rightarrow> string \<Rightarrow> nat \<Rightarrow> string \<Rightarrow> string option \<Rightarrow> nat option \<Rightarrow> ustate \<Rightarrow> nat \<times> ustate" where
  "newUploadItem e fileName fileSize tgt relativePath par s =
     (let (i, s1) = newStatusItem e KFile tgt par s;
          l = (case relativePath of Some r \<Rightarrow> if r \<noteq> [] then getBasename r else fileName
               | None \<Rightarrow> fileName);
          s2 = upd i (\<lambda>it. it\<lparr>fsize := fileSize, status := StNew, label := l\<rparr>) s1;
          s3 = (if fileSize > multipartThreshold e then createParts e i s2 else s2)
      in (i, case par of None \<Rightarrow> s3 | Some p \<Rightarrow> addChild p i s3))"

section \<open>Accessors and small operations\<close>

definition updateLabel :: "nat \<Rightarrow> string \<Rightarrow> ustate \<Rightarrow> ustate" where
  "updateLabel i l = upd i (\<lambda>it. it\<lparr>label := l\<rparr>)"

definition setExists :: "nat \<Rightarrow> ustate \<Rightarrow> ustate" where
  "setExists i = upd i (\<lambda>it. it\<lparr>present := True\<rparr>)"

definition updateRepositoryId :: "nat \<Rightarrow> string \<Rightarrow> ustate \<Rightarrow> ustate" where
  "updateRepositoryId i r = upd i (\<lambda>it. it\<lparr>repositoryId := r\<rparr>)"

definition getErrorMessage :: "nat \<Rightarrow> ustate \<Rightarrow> string" where
  "getErrorMessage i s = (case errorMessage (heap s i) of None \<Rightarrow> [] | Some m \<Rightarrow> m)"

definition onError :: "uenv \<Rightarrow> nat \<Rightarrow> string \<Rightarrow> ustate \<Rightarrow> ustate" where
  "onError e i m s = setStatus e i StError (upd i (\<lambda>it. it\<lparr>errorMessage := Some m\<rparr>) s)"

text \<open>\<open>FolderItem.setIgnore\<close>: an existing folder counts as done and is not created.\<close>

definition setIgnore :: "uenv \<Rightarrow> nat \<Rightarrow> ustate \<Rightarrow> ustate" where
  "setIgnore e i s =
     upd i (\<lambda>it. it\<lparr>isNew := False\<rparr>)
       (recomputeProgress e i (upd i (\<lambda>it. it\<lparr>pg := obj_set i 100 (pg it)\<rparr>) (setStatus e i StLoaded s)))"

text \<open>
  \<open>getFullPath\<close>: a session answers for itself and raises (\<open>None\<close>) when its repository is no
  longer in the user's list; any other item appends its label to its parent's path. An item
  without a parent has no path.
\<close>

fun full_path :: "nat \<Rightarrow> uenv \<Rightarrow> nat \<Rightarrow> ustate \<Rightarrow> string option" where
  "full_path 0 e i s = None"
| "full_path (Suc n) e i s =
     (if klass (heap s i) = KSession then
        map_option (\<lambda>slug. slug @ trimRight (target (heap s i)) CHR ''/'')
          (repoSlug e (repositoryId (heap s i)))
      else case parent (heap s i) of
             None \<Rightarrow> None
           | Some p \<Rightarrow> map_option (\<lambda>q. q @ ''/'' @ label (heap s i)) (full_path n e p s))"

definition getFullPath :: "uenv \<Rightarrow> nat \<Rightarrow> ustate \<Rightarrow> string option" where
  "getFullPath e i = full_path (Suc i) e i"

section \<open>What the operations leave alone\<close>

lemma post_sel [simp]:
  "heap (post n s) = heap s" "nextId (post n s) = nextId s" "tasks (post n s) = tasks s"
  "jobs (post n s) = jobs s" "sessions (post n s) = sessions s"
  "processing (post n s) = processing s" "pauseRequired (post n s) = pauseRequired s"
  "requests (post n s) = requests s" "posted (post n s) = posted s @ [n]"
  by (simp_all add: post_def)

lemma upd_sel [simp]:
  "heap (upd i f s) = (heap s)(i := f (heap s i))" "nextId (upd i f s) = nextId s"
  "tasks (upd i f s) = tasks s" "jobs (upd i f s) = jobs s" "sessions (upd i f s) = sessions s"
  "processing (upd i f s) = processing s" "pauseRequired (upd i f s) = pauseRequired s"
  "requests (upd i f s) = requests s" "posted (upd i f s) = posted s"
  by (simp_all add: upd_def)

lemma run_task_sel [simp]:
  "heap (run_task i f s) = heap s" "nextId (run_task i f s) = nextId s"
  "sessions (run_task i f s) = sessions s" "processing (run_task i f s) = processing s"
  "pauseRequired (run_task i f s) = pauseRequired s" "requests (run_task i f s) = requests s"
  "posted (run_task i f s) = posted s"
  by (simp_all add: run_task_def split: prod.splits)

lemma setStatus_sel [simp]:
  "heap (setStatus e i st s) = (heap s)(i := (heap s i)\<lparr>status := st\<rparr>)"
  "nextId (setStatus e i st s) = nextId s" "sessions (setStatus e i st s) = sessions s"
  "processing (setStatus e i st s) = processing s"
  "pauseRequired (setStatus e i st s) = pauseRequired s"
  "requests (setStatus e i st s) = requests s"
  by (simp_all add: setStatus_def Let_def)

text \<open>
  Progress only touches the percentages (and the tasks and the registry, which observe them):
  the relation \<open>quiet\<close>, transitive and with one selector fact per field.
\<close>

definition strip :: "item \<Rightarrow> item" where
  "strip it = it\<lparr>progress := 0, pg := []\<rparr>"

definition quiet :: "ustate \<Rightarrow> ustate \<Rightarrow> bool" where
  "quiet s s' \<longleftrightarrow> (\<forall>j. strip (heap s' j) = strip (heap s j)) \<and> nextId s' = nextId s
     \<and> sessions s' = sessions s \<and> processing s' = processing s
     \<and> pauseRequired s' = pauseRequired s \<and> requests s' = requests s \<and> posted s' = posted s"

lemma quiet_refl [simp]: "quiet s s"
  by (simp add: quiet_def)

lemma quiet_trans: "quiet s t \<Longrightarrow> quiet t u \<Longrightarrow> quiet s u"
  by (simp add: quiet_def)

lemma quiet_run_task: "quiet s (run_task i f s)"
  by (simp add: quiet_def)

lemma quiet_upd: "(\<And>it. strip (f it) = strip it) \<Longrightarrow> quiet s (upd i f s)"
  by (simp add: quiet_def)

lemma strip_pg [simp]: "strip (it\<lparr>pg := x\<rparr>) = strip it" "strip (it\<lparr>progress := v\<rparr>) = strip it"
  by (simp_all add: strip_def)

lemma strip_sel:
  assumes "strip it = strip it'"
  shows "klass it = klass it'" "status it = status it'" "label it = label it'"
    "parent it = parent it'" "target it = target it'" "repositoryId it = repositoryId it'"
    "folders it = folders it'" "files it = files it'" "isNew it = isNew it'"
    "fsize it = fsize it'" "parts it = parts it'" "xhr it = xhr it'"
    "userAborted it = userAborted it'" "watched it = watched it'"
    "monitored it = monitored it'" "hasTask it = hasTask it'"
    "createFolders it = createFolders it'" "errorMessage it = errorMessage it'"
  using assms by (cases it; cases it'; simp add: strip_def)+

lemma quiet_item: "quiet s s' \<Longrightarrow> strip (heap s' j) = strip (heap s j)"
  by (simp add: quiet_def)

lemmas quiet_fields = strip_sel [OF quiet_item]

lemma quiet_state:
  assumes "quiet s s'"
  shows "nextId s' = nextId s" "sessions s' = sessions s" "processing s' = processing s"
    "pauseRequired s' = pauseRequired s" "requests s' = requests s" "posted s' = posted s"
  using assms by (simp_all add: quiet_def)

lemma quiet_notify_progress: "quiet s (notify_progress n e i p s)"
proof (induction n arbitrary: i p s)
  case (Suc n)
  define s1 where "s1 = (if hasTask (heap s i)
    then run_task i (progressObserver (messageHash e) (clock e) i p) s else s)"
  have s1: "quiet s s1" by (simp add: s1_def quiet_run_task)
  have u: "quiet s1 (upd q (\<lambda>it. it\<lparr>progress := m\<rparr>) (upd q (\<lambda>it. it\<lparr>pg := obj_set i p (pg it)\<rparr>) s1))"
    for q m by (rule quiet_trans [OF quiet_upd quiet_upd]) simp_all
  have "quiet s1 (notify_progress n e q m
      (upd q (\<lambda>it. it\<lparr>progress := m\<rparr>) (upd q (\<lambda>it. it\<lparr>pg := obj_set i p (pg it)\<rparr>) s1)))"
    for q m by (rule quiet_trans [OF u Suc.IH])
  then have "quiet s1 (notify_progress (Suc n) e i p s)"
    by (simp add: notify_progress.simps s1_def [symmetric] Let_def split: option.split)
  then show ?case by (rule quiet_trans [OF s1])
qed (simp add: notify_progress.simps)

lemma quiet_recompute: "quiet s (recomputeProgress e i s)"
  unfolding recomputeProgress_def Let_def
  by (auto intro: quiet_trans [OF quiet_upd quiet_notify_progress])

lemma quiet_setProgress_None: "quiet s (setProgress e i v None s)"
  unfolding setProgress_def Let_def
  by (auto intro: quiet_trans [OF quiet_upd quiet_notify_progress])

lemmas notify_progress_sel [simp] =
  quiet_state [OF quiet_notify_progress] quiet_fields [OF quiet_notify_progress]
lemmas recompute_sel [simp] =
  quiet_state [OF quiet_recompute] quiet_fields [OF quiet_recompute]

lemma setProgress_strip [simp]: "strip (heap (setProgress e i v b s) j) = strip (heap s j)"
  by (cases b) (simp_all add: setProgress_def Let_def strip_def quiet_item [OF quiet_notify_progress, unfolded strip_def])

lemmas setProgress_fields [simp] = strip_sel [OF setProgress_strip]

lemma setProgress_state [simp]:
  "nextId (setProgress e i v b s) = nextId s" "sessions (setProgress e i v b s) = sessions s"
  "processing (setProgress e i v b s) = processing s"
  "pauseRequired (setProgress e i v b s) = pauseRequired s"
  "requests (setProgress e i v b s) = requests s"
  by (cases b; simp add: setProgress_def Let_def)+

section \<open>The fuel of the walks up the tree is enough\<close>

definition parents_ok :: "ustate \<Rightarrow> bool" where
  "parents_ok s \<longleftrightarrow> (\<forall>i q. parent (heap s i) = Some q \<longrightarrow> q < i)"

lemma parents_ok_quiet: "quiet s t \<Longrightarrow> parents_ok s \<Longrightarrow> parents_ok t"
  by (simp add: parents_ok_def quiet_fields)

lemma notify_progress_fuel:
  "parents_ok s \<Longrightarrow> i < n \<Longrightarrow> i < m \<Longrightarrow> notify_progress n e i p s = notify_progress m e i p s"
proof (induction n arbitrary: m i p s)
  case (Suc n)
  obtain m' where m: "m = Suc m'" using Suc.prems(3) by (cases m) auto
  define s1 where "s1 = (if hasTask (heap s i)
    then run_task i (progressObserver (messageHash e) (clock e) i p) s else s)"
  have "quiet s s1" by (simp add: s1_def quiet_run_task)
  then have ok1: "parents_ok s1" using Suc.prems(1) by (rule parents_ok_quiet)
  have "notify_progress n e q v (upd q (\<lambda>it. it\<lparr>progress := v\<rparr>) (upd q (\<lambda>it. it\<lparr>pg := obj_set i p (pg it)\<rparr>) s1))
      = notify_progress m' e q v (upd q (\<lambda>it. it\<lparr>progress := v\<rparr>) (upd q (\<lambda>it. it\<lparr>pg := obj_set i p (pg it)\<rparr>) s1))"
    if "parent (heap s1 i) = Some q" for q v
  proof (rule Suc.IH)
    show "parents_ok (upd q (\<lambda>it. it\<lparr>progress := v\<rparr>) (upd q (\<lambda>it. it\<lparr>pg := obj_set i p (pg it)\<rparr>) s1))"
      by (rule parents_ok_quiet [OF quiet_trans [OF quiet_upd quiet_upd] ok1]) simp_all
    have "q < i" using ok1 that by (simp add: parents_ok_def)
    then show "q < n" "q < m'" using Suc.prems(2,3) m by simp_all
  qed
  then show ?case
    by (simp add: m notify_progress.simps s1_def [symmetric] Let_def split: option.split)
qed simp

lemma full_path_fuel:
  "parents_ok s \<Longrightarrow> i < n \<Longrightarrow> i < m \<Longrightarrow> full_path n e i s = full_path m e i s"
proof (induction n arbitrary: m i)
  case (Suc n)
  obtain m' where m: "m = Suc m'" using Suc.prems(3) by (cases m) auto
  have "full_path n e q s = full_path m' e q s" if "parent (heap s i) = Some q" for q
  proof -
    have "q < i" using Suc.prems(1) that by (simp add: parents_ok_def)
    then show ?thesis using Suc.IH [of q m'] Suc.prems m by simp
  qed
  then show ?case by (simp add: m split: option.split)
qed simp

end
