(* ===== verification/UploadTree.thy ===== *)
theory UploadTree
  imports UploadState
begin

text \<open>
  Operations on the tree under a session: \<open>StatusItem.walk\<close>, \<open>collectWithLimit\<close>,
  \<open>removeChild\<close>, and \<open>abort\<close>, \<open>pause\<close>, \<open>resume\<close> with the methods \<open>_doAbort\<close>, \<open>_doPause\<close>,
  \<open>_doResume\<close> of \<open>UploadItem.js\<close>; \<open>Store.removeSession\<close>, which \<open>removeChild\<close> reaches
  through the \<open>children\<close> observer.

  \<open>walk\<close> is polymorphic in the state its callbacks thread, because the code uses it both to
  collect (the heap is only read) and to change the tree it walks. The locale \<open>item_forest\<close>
  states what makes the walk end: the folders of an item are younger than it. Under that law
  the fuel \<open>nextId - i\<close> is enough. \<open>heap_forest\<close> interprets it on a heap.
\<close>

section \<open>Walking\<close>

datatype wtype = TypeBoth | TypeFile | TypeFolder

text \<open>The loop over the files: whether \<open>stop\<close> broke it, and the state.\<close>

fun walk_files ::
    "(nat \<Rightarrow> 's \<Rightarrow> 's) \<Rightarrow> ('s \<Rightarrow> nat \<Rightarrow> bool) \<Rightarrow> ('s \<Rightarrow> nat \<Rightarrow> bool) \<Rightarrow> nat list \<Rightarrow> 's \<Rightarrow> bool \<times> 's" where
  "walk_files callback filt stop [] s = (False, s)"
| "walk_files callback filt stop (f # fs) s =
     (if stop s f then (True, s)
      else walk_files callback filt stop fs (if filt s f then callback f s else s))"

text \<open>
  \<open>walk\<close>. The arrays of files and of folders are read once, when their loop starts. In the loop
  over the folders \<open>stop\<close> is only consulted before going down, after the callback.
\<close>

fun walk ::
    "nat \<Rightarrow> ('s \<Rightarrow> nat \<Rightarrow> nat list) \<Rightarrow> ('s \<Rightarrow> nat \<Rightarrow> nat list) \<Rightarrow> (nat \<Rightarrow> 's \<Rightarrow> 's) \<Rightarrow>
     ('s \<Rightarrow> nat \<Rightarrow> bool) \<Rightarrow> wtype \<Rightarrow> ('s \<Rightarrow> nat \<Rightarrow> bool) \<Rightarrow> nat \<Rightarrow> 's \<Rightarrow> 's" where
  "walk 0 fls fds callback filt ty stop i s = s"
| "walk (Suc n) fls fds callback filt ty stop i s =
     (let (stopped, s1) = (if ty = TypeBoth \<or> ty = TypeFile
                           then walk_files callback filt stop (fls s i) s else (False, s))
      in if stopped then s1
         else foldl (\<lambda>s c.
                let s2 = (if (ty = TypeFolder \<or> ty = TypeBoth) \<and> filt s c then callback c s else s)
                in if \<not> stop s2 c then walk n fls fds callback filt ty stop c s2 else s2)
              s1 (fds s1 i))"

declare walk.simps [simp del]

locale item_forest =
  fixes fls :: "'s \<Rightarrow> nat \<Rightarrow> nat list" and fds :: "'s \<Rightarrow> nat \<Rightarrow> nat list"
    and bound :: "'s \<Rightarrow> nat" and inv :: "'s \<Rightarrow> bool"
  assumes younger: "inv s \<Longrightarrow> c \<in> set (fds s i) \<Longrightarrow> i < c \<and> c < bound s"
begin

definition steady :: "(nat \<Rightarrow> 's \<Rightarrow> 's) \<Rightarrow> bool" where
  "steady cb \<longleftrightarrow> (\<forall>c s. inv s \<longrightarrow> inv (cb c s) \<and> bound (cb c s) = bound s)"

lemma walk_files_keeps:
  "steady cb \<Longrightarrow> inv s \<Longrightarrow> walk_files cb flt stp fs s = (b, s') \<Longrightarrow> inv s' \<and> bound s' = bound s"
proof (induction fs arbitrary: s)
  case (Cons f fs)
  have "inv (if flt s f then cb f s else s) \<and> bound (if flt s f then cb f s else s) = bound s"
    using Cons.prems(1,2) by (simp add: steady_def)
  then show ?case using Cons by (auto split: if_splits)
qed simp

lemma foldl_keeps:
  assumes "\<And>c s. inv s \<Longrightarrow> inv (f s c) \<and> bound (f s c) = bound s" and "inv s"
  shows "inv (foldl f s cs) \<and> bound (foldl f s cs) = bound s"
  using assms(2)
proof (induction cs arbitrary: s)
  case (Cons c cs)
  then show ?case using assms(1) [of s c] by auto
qed simp

lemma walk_keeps:
  assumes "steady cb"
  shows "inv s \<Longrightarrow> inv (walk n fls fds cb flt ty stp i s)
           \<and> bound (walk n fls fds cb flt ty stp i s) = bound s"
proof (induction n arbitrary: i s)
  case (Suc n)
  obtain b s1 where s1: "(if ty = TypeBoth \<or> ty = TypeFile
      then walk_files cb flt stp (fls s i) s else (False, s)) = (b, s1)" by fastforce
  then have k1: "inv s1 \<and> bound s1 = bound s"
    using walk_files_keeps [OF assms Suc.prems] Suc.prems by (auto split: if_splits)
  have "inv (let s2 = (if (ty = TypeFolder \<or> ty = TypeBoth) \<and> flt s c then cb c s else s)
             in if \<not> stp s2 c then walk n fls fds cb flt ty stp c s2 else s2)
        \<and> bound (let s2 = (if (ty = TypeFolder \<or> ty = TypeBoth) \<and> flt s c then cb c s else s)
             in if \<not> stp s2 c then walk n fls fds cb flt ty stp c s2 else s2) = bound s"
    if "inv s" for c s
    using that assms Suc.IH by (auto simp: Let_def steady_def)
  then have "inv (foldl (\<lambda>s c.
                let s2 = (if (ty = TypeFolder \<or> ty = TypeBoth) \<and> flt s c then cb c s else s)
                in if \<not> stp s2 c then walk n fls fds cb flt ty stp c s2 else s2) s1 (fds s1 i))
      \<and> bound (foldl (\<lambda>s c.
                let s2 = (if (ty = TypeFolder \<or> ty = TypeBoth) \<and> flt s c then cb c s else s)
                in if \<not> stp s2 c then walk n fls fds cb flt ty stp c s2 else s2) s1 (fds s1 i)) = bound s1"
    using k1 by (intro foldl_keeps) blast+
  then show ?case using k1 by (simp only: walk.simps s1 Let_def [of "(b, s1)"] prod.case) simp
qed (simp add: walk.simps)

lemma foldl_same:
  assumes eq: "\<And>c s. c \<in> set cs \<Longrightarrow> inv s \<Longrightarrow> bound s = B \<Longrightarrow> f s c = g s c"
    and keep: "\<And>c s. inv s \<Longrightarrow> inv (g s c) \<and> bound (g s c) = bound s"
  shows "inv s \<Longrightarrow> bound s = B \<Longrightarrow> foldl f s cs = foldl g s cs"
  using eq
proof (induction cs arbitrary: s)
  case (Cons c cs)
  then show ?case using keep [of s c] by auto
qed simp

text \<open>Any two amounts of fuel above the room left under the bound give the same walk.\<close>

lemma walk_fuel:
  assumes st: "steady cb"
  shows "inv s \<Longrightarrow> i < bound s \<Longrightarrow> bound s - i \<le> n \<Longrightarrow> bound s - i \<le> m \<Longrightarrow>
     walk n fls fds cb flt ty stp i s = walk m fls fds cb flt ty stp i s"
proof (induction n arbitrary: m i s)
  case (Suc n)
  then obtain m' where m: "m = Suc m'" by (cases m) auto
  obtain b s1 where s1: "(if ty = TypeBoth \<or> ty = TypeFile
      then walk_files cb flt stp (fls s i) s else (False, s)) = (b, s1)" by fastforce
  then have k1: "inv s1 \<and> bound s1 = bound s"
    using walk_files_keeps [OF st Suc.prems(1)] Suc.prems(1) by (auto split: if_splits)
  define body where "body k = (\<lambda>s c.
      let s2 = (if (ty = TypeFolder \<or> ty = TypeBoth) \<and> flt s c then cb c s else s)
      in if \<not> stp s2 c then walk k fls fds cb flt ty stp c s2 else s2)" for k
  have same: "body n t c = body m' t c" if "c \<in> set (fds s1 i)" "inv t" "bound t = bound s" for c t
  proof -
    have c: "i < c \<and> c < bound s" using younger [of s1 c i] k1 that(1) by simp
    have "walk n fls fds cb flt ty stp c u = walk m' fls fds cb flt ty stp c u"
      if "inv u" "bound u = bound s" for u
      using Suc.IH [of u c m'] that c Suc.prems(3,4) m by auto
    then show ?thesis using that st by (auto simp: body_def Let_def steady_def)
  qed
  have keep: "inv (body m' t c) \<and> bound (body m' t c) = bound t" if "inv t" for c t
    using that st walk_keeps [OF st] by (auto simp: body_def Let_def steady_def)
  have "foldl (body n) s1 (fds s1 i) = foldl (body m') s1 (fds s1 i)"
    using k1 by (intro foldl_same [where B = "bound s"]) (auto simp: same keep)
  then show ?case
    by (simp only: m walk.simps s1 Let_def [of "(b, s1)"] prod.case body_def [symmetric])
qed simp

end

section \<open>The tree in the heap\<close>

definition files_in :: "ustate \<Rightarrow> nat \<Rightarrow> nat list" where
  "files_in s i = files (heap s i)"

definition folders_in :: "ustate \<Rightarrow> nat \<Rightarrow> nat list" where
  "folders_in s i = folders (heap s i)"

text \<open>Children are younger than their parent and allocated.\<close>

definition tree_ok :: "ustate \<Rightarrow> bool" where
  "tree_ok s \<longleftrightarrow>
     (\<forall>i. \<forall>c \<in> set (folders (heap s i)) \<union> set (files (heap s i)). i < c \<and> c < nextId s)"

interpretation heap_forest: item_forest files_in folders_in nextId tree_ok
  by unfold_locales (auto simp: tree_ok_def folders_in_def)

definition walk_heap ::
    "(nat \<Rightarrow> ustate \<Rightarrow> ustate) \<Rightarrow> (ustate \<Rightarrow> nat \<Rightarrow> bool) \<Rightarrow> wtype \<Rightarrow> (ustate \<Rightarrow> nat \<Rightarrow> bool) \<Rightarrow> nat \<Rightarrow> ustate \<Rightarrow> ustate" where
  "walk_heap callback filt ty stop i s =
     walk (nextId s - i) files_in folders_in callback filt ty stop i s"

text \<open>A walk that only reads the heap \<open>h\<close> and threads an accumulator.\<close>

definition walk_acc ::
    "(nat \<Rightarrow> item) \<Rightarrow> nat \<Rightarrow> (nat \<Rightarrow> 's \<Rightarrow> 's) \<Rightarrow> ('s \<Rightarrow> nat \<Rightarrow> bool) \<Rightarrow> wtype \<Rightarrow> ('s \<Rightarrow> nat \<Rightarrow> bool) \<Rightarrow> nat \<Rightarrow> 's \<Rightarrow> 's" where
  "walk_acc h n = walk n (\<lambda>_ i. files (h i)) (\<lambda>_ i. folders (h i))"

definition collectWithLimit ::
    "ustate \<Rightarrow> nat \<Rightarrow> nat \<Rightarrow> (nat \<Rightarrow> bool) \<Rightarrow> wtype \<Rightarrow> nat list" where
  "collectWithLimit s i limit filt ty =
     walk_acc (heap s) (nextId s - i) (\<lambda>c accu. accu @ [c]) (\<lambda>_ c. filt c) ty
       (\<lambda>accu _. limit \<le> length accu) i []"

text \<open>The items under \<open>i\<close> in the order of the walk.\<close>

fun preorder :: "(nat \<Rightarrow> item) \<Rightarrow> wtype \<Rightarrow> nat \<Rightarrow> nat \<Rightarrow> nat list" where
  "preorder h ty 0 i = []"
| "preorder h ty (Suc n) i =
     (if ty = TypeBoth \<or> ty = TypeFile then files (h i) else []) @
     concat (map (\<lambda>c. (if ty = TypeFolder \<or> ty = TypeBoth then [c] else []) @ preorder h ty n c)
       (folders (h i)))"

definition under :: "ustate \<Rightarrow> wtype \<Rightarrow> nat \<Rightarrow> nat list" where
  "under s ty i = preorder (heap s) ty (nextId s - i) i"

section \<open>Aborting, pausing, resuming\<close>

text \<open>
  \<open>UploadItem._doAbort\<close>. \<open>xhr.abort()\<close> makes the upload's error callback run later, from the
  network layer: the request stays in \<open>requests\<close> until that event.
\<close>

definition doAbort :: "uenv \<Rightarrow> nat \<Rightarrow> ustate \<Rightarrow> ustate" where
  "doAbort e i s =
     (if status (heap s i) = StLoaded then s
      else let s1 = (if xhr (heap s i) \<noteq> None then upd i (\<lambda>it. it\<lparr>userAborted := True\<rparr>) s else s)
           in setProgress e i 0 None (setStatus e i StError s1))"

text \<open>Only \<open>UploadItem\<close> defines the methods \<open>_doAbort\<close>, \<open>_doPause\<close> and \<open>_doResume\<close>.\<close>

definition abort :: "uenv \<Rightarrow> nat \<Rightarrow> ustate \<Rightarrow> ustate" where
  "abort e i s = (if klass (heap s i) = KFile then doAbort e i s else s)"

definition doPause :: "uenv \<Rightarrow> nat \<Rightarrow> ustate \<Rightarrow> status \<times> ustate" where
  "doPause e i s =
     (case xhr (heap s i) of
        Some ManagedXhr \<Rightarrow>
          (StMultiPause,
           fold (\<lambda>p. setStatus e p StCannotPause)
             (filter (\<lambda>p. status (heap s p) = StLoading)
               (case parts (heap s i) of None \<Rightarrow> [] | Some ps \<Rightarrow> ps)) s)
      | Some PlainXhr \<Rightarrow> (StCannotPause, s)
      | None \<Rightarrow> (StNew, s))"

definition pause :: "uenv \<Rightarrow> nat \<Rightarrow> ustate \<Rightarrow> ustate" where
  "pause e i s =
     (if klass (heap s i) = KFile then let (st, s1) = doPause e i s in setStatus e i st s1 else s)"

definition resume :: "uenv \<Rightarrow> nat \<Rightarrow> ustate \<Rightarrow> ustate" where
  "resume e i s = (if klass (heap s i) = KFile then setStatus e i StLoading s else s)"

section \<open>Removing\<close>

definition removeSession :: "uenv \<Rightarrow> nat \<Rightarrow> ustate \<Rightarrow> ustate" where
  "removeSession e i s =
     (let s1 = run_task i (setIdle (clock e) i) s
      in post NUpdate (s1\<lparr>sessions := arrayWithout (sessions s1) (js_indexOf (sessions s1) i)\<rparr>))"

text \<open>The store's observer of a session's \<open>children\<close>.\<close>

definition children_changed :: "uenv \<Rightarrow> nat \<Rightarrow> ustate \<Rightarrow> ustate" where
  "children_changed e p s =
     (if hasTask (heap s p) then
        post NUpdate (if getChildren p s = [] then removeSession e p s else s)
      else s)"

definition removeChild :: "uenv \<Rightarrow> nat \<Rightarrow> nat \<Rightarrow> ustate \<Rightarrow> ustate" where
  "removeChild e p c s =
     (let s1 = abort e c s;
          s2 = walk_heap (abort e) (\<lambda>_ _. True) TypeFile (\<lambda>_ _. False) c s1;
          folderIndex = js_indexOf (folders (heap s2 p)) c;
          fileIndex = js_indexOf (files (heap s2 p)) c;
          removed = (folderIndex > - 1 \<or> fileIndex > - 1);
          s3 = (if folderIndex > - 1 then
                  upd p (\<lambda>it. it\<lparr>folders := arrayWithout (folders it) folderIndex\<rparr>) s2
                else if fileIndex > - 1 then
                  upd p (\<lambda>it. it\<lparr>files := arrayWithout (files it) fileIndex\<rparr>) s2
                else s2)
      in if removed then
           children_changed e p
             (recomputeProgress e p
               (upd p (\<lambda>it. it\<lparr>pg := obj_del c (pg it)\<rparr>)
                 (upd c (\<lambda>it. it\<lparr>watched := False\<rparr>) s3)))
         else s3)"

section \<open>Facts about walking\<close>

lemma walk_files_preserves:
  assumes "\<And>c s. P s \<Longrightarrow> P (cb c s)"
  shows "P s \<Longrightarrow> P (snd (walk_files cb flt stp fs s))"
  by (induction fs arbitrary: s) (auto simp: assms)

lemma foldl_preserves:
  assumes "\<And>s c. P s \<Longrightarrow> P (f s c)"
  shows "P s \<Longrightarrow> P (foldl f s cs)"
  by (induction cs arbitrary: s) (auto simp: assms)

lemma walk_preserves:
  assumes cb: "\<And>c s. P s \<Longrightarrow> P (cb c s)"
  shows "P s \<Longrightarrow> P (walk n fls fds cb flt ty stp i s)"
proof (induction n arbitrary: i s)
  case (Suc n)
  obtain b s1 where s1: "(if ty = TypeBoth \<or> ty = TypeFile
      then walk_files cb flt stp (fls s i) s else (False, s)) = (b, s1)" by fastforce
  have "P (snd (walk_files cb flt stp (fls s i) s))"
    using cb Suc.prems by (rule walk_files_preserves)
  then have "P s1" using s1 Suc.prems by (auto split: if_splits)
  then have "P (foldl (\<lambda>s c.
      let s2 = (if (ty = TypeFolder \<or> ty = TypeBoth) \<and> flt s c then cb c s else s)
      in if \<not> stp s2 c then walk n fls fds cb flt ty stp c s2 else s2) s1 (fds s1 i))"
    by (rule foldl_preserves [rotated]) (auto simp: Let_def cb Suc.IH)
  with \<open>P s1\<close> show ?case by (simp only: walk.simps s1 Let_def [of "(b, s1)"] prod.case) simp
qed (simp add: walk.simps)

text \<open>
  An invariant of the accumulator, with what is known of the item at each callback: it is a file
  or a folder of an item in \<open>K\<close>, it passed the filter, and for a file \<open>stop\<close> was false.
\<close>

lemma walk_files_induct:
  assumes "\<And>a c. c \<in> set base \<Longrightarrow> P a \<Longrightarrow> \<not> stp a c \<Longrightarrow> flt a c \<Longrightarrow> P (cb c a)"
  shows "set fs \<subseteq> set base \<Longrightarrow> P a \<Longrightarrow> P (snd (walk_files cb flt stp fs a))"
  by (induction fs arbitrary: a) (auto simp: assms)

lemma foldl_induct:
  assumes "\<And>a c. c \<in> set base \<Longrightarrow> P a \<Longrightarrow> P (f a c)"
  shows "set cs \<subseteq> set base \<Longrightarrow> P a \<Longrightarrow> P (foldl f a cs)"
  by (induction cs arbitrary: a) (auto simp: assms)

lemma walk_acc_induct:
  assumes closed: "\<And>j c. K j \<Longrightarrow> c \<in> set (folders (h j)) \<Longrightarrow> K c"
    and on_file: "\<And>j a c. K j \<Longrightarrow> c \<in> set (files (h j)) \<Longrightarrow> ty \<noteq> TypeFolder \<Longrightarrow> P a \<Longrightarrow> \<not> stp a c \<Longrightarrow> flt a c
                \<Longrightarrow> P (cb c a)"
    and on_folder: "\<And>j a c. K j \<Longrightarrow> c \<in> set (folders (h j)) \<Longrightarrow> ty \<noteq> TypeFile \<Longrightarrow> P a \<Longrightarrow> flt a c \<Longrightarrow> P (cb c a)"
  shows "K i \<Longrightarrow> P a \<Longrightarrow> P (walk_acc h n cb flt ty stp i a)"
proof (induction n arbitrary: i a)
  case (Suc n)
  define body where "body = (\<lambda>s c.
      let s2 = (if (ty = TypeFolder \<or> ty = TypeBoth) \<and> flt s c then cb c s else s)
      in if \<not> stp s2 c then walk_acc h n cb flt ty stp c s2 else s2)"
  obtain b a1 where a1: "(if ty = TypeBoth \<or> ty = TypeFile
      then walk_files cb flt stp (files (h i)) a else (False, a)) = (b, a1)" by fastforce
  have "P (snd (walk_files cb flt stp (files (h i)) a))" if ty: "ty \<noteq> TypeFolder"
  proof (rule walk_files_induct [where base = "files (h i)"])
    show "P (cb c a)" if "c \<in> set (files (h i))" "P a" "\<not> stp a c" "flt a c" for a c
      by (rule on_file [OF Suc.prems(1) that(1) ty that(2-4)])
  qed (simp_all add: Suc.prems(2))
  then have p1: "P a1" using a1 Suc.prems(2) by (auto split: if_splits)
  have "P (body s c)" if "c \<in> set (folders (h i))" "P s" for s c
  proof -
    have s2: "P (if (ty = TypeFolder \<or> ty = TypeBoth) \<and> flt s c then cb c s else s)"
      using that on_folder [OF Suc.prems(1) that(1)] by auto
    show ?thesis unfolding body_def Let_def
      by (simp only: s2 Suc.IH [OF closed [OF Suc.prems(1) that(1)] s2] split: if_split) simp
  qed
  then have "P (foldl body a1 (folders (h i)))"
    by (rule foldl_induct [where base = "folders (h i)" and P = P and f = body]) (simp_all add: p1)
  moreover have "walk_acc h (Suc n) cb flt ty stp i a = (if b then a1 else foldl body a1 (folders (h i)))"
    unfolding body_def walk_acc_def walk.simps using a1 by simp
  ultimately show ?case using p1 by simp
qed (simp add: walk_acc_def walk.simps)

lemma collect_files_step:
  "length accu \<le> L \<Longrightarrow>
   walk_files (\<lambda>c accu. accu @ [c]) (\<lambda>_ c. filt c) (\<lambda>accu _. L \<le> length accu) fs accu = (b, accu') \<Longrightarrow>
   accu' = take L (accu @ filter filt fs) \<and> length accu' \<le> L \<and> (b \<longrightarrow> L \<le> length accu')"
proof (induction fs arbitrary: accu)
  case (Cons f fs)
  define accu2 where "accu2 = (if filt f then accu @ [f] else accu)"
  show ?case
  proof (cases "L \<le> length accu")
    case True
    then show ?thesis using Cons.prems by auto
  next
    case False
    then have "length accu2 \<le> L" by (simp add: accu2_def)
    moreover have "walk_files (\<lambda>c accu. accu @ [c]) (\<lambda>_ c. filt c) (\<lambda>accu _. L \<le> length accu) fs accu2
        = (b, accu')" using Cons.prems(2) False by (simp add: accu2_def)
    ultimately have IH: "accu' = take L (accu2 @ filter filt fs) \<and> length accu' \<le> L
        \<and> (b \<longrightarrow> L \<le> length accu')" by (rule Cons.IH)
    have cat: "accu2 @ filter filt fs = accu @ filter filt (f # fs)" by (simp add: accu2_def)
    from IH show ?thesis unfolding cat .
  qed
qed simp

lemma take_take_append: "take n (take n u @ v) = take n (u @ v)"
  by (cases "length u \<le> n") auto

text \<open>The loop over the folders, when the walk of one folder takes a prefix.\<close>

lemma collect_folders:
  assumes walk: "\<And>c a. length a \<le> L \<Longrightarrow> w c a = take L (a @ found c)"
  shows "length a \<le> L \<Longrightarrow> foldl (\<lambda>s c. if \<not> L \<le> length s then w c s else s) a cs = take L (a @ concat (map found cs))"
proof (induction cs arbitrary: a)
  case (Cons c cs)
  show ?case
  proof (cases "L \<le> length a")
    case True
    then show ?thesis using Cons.IH [OF Cons.prems] by simp
  next
    case False
    note wc = walk [OF Cons.prems, of c]
    then have "length (w c a) \<le> L" by simp
    note IH = Cons.IH [OF this]
    have "foldl (\<lambda>s c. if \<not> L \<le> length s then w c s else s) a (c # cs) = take L (w c a @ concat (map found cs))"
      using False IH by simp
    also have "\<dots> = take L ((a @ found c) @ concat (map found cs))" by (simp only: wc take_take_append)
    finally show ?thesis by simp
  qed
qed simp

lemma collect_take:
  assumes "length accu \<le> L"
  shows "walk_acc h n (\<lambda>c accu. accu @ [c]) (\<lambda>_ c. filt c) TypeFile (\<lambda>accu _. L \<le> length accu) i accu =
           take L (accu @ filter filt (preorder h TypeFile n i))"
  using assms
proof (induction n arbitrary: i accu)
  case (Suc n)
  define w where "w = walk_acc h n (\<lambda>c accu. accu @ [c]) (\<lambda>_ c. filt c) TypeFile (\<lambda>accu _. L \<le> length accu)"
  let ?found = "\<lambda>c. filter filt (preorder h TypeFile n c)"
  note folds = collect_folders [where w = w and found = ?found and L = L, unfolded w_def, OF Suc.IH, folded w_def]
  obtain b a1 where a1: "walk_files (\<lambda>c accu. accu @ [c]) (\<lambda>_ c. filt c)
      (\<lambda>accu _. L \<le> length accu) (files (h i)) accu = (b, a1)" by fastforce
  note step = collect_files_step [OF Suc.prems a1]
  show ?case
  proof (cases b)
    case True
    then have "L \<le> length (accu @ filter filt (files (h i)))"
      using step by (metis length_take min.bounded_iff)
    then show ?thesis using True step
      by (simp add: walk_acc_def walk.simps a1 filter_concat comp_def)
  next
    case False
    then have "walk_acc h (Suc n) (\<lambda>c accu. accu @ [c]) (\<lambda>_ c. filt c) TypeFile
        (\<lambda>accu _. L \<le> length accu) i accu = foldl (\<lambda>s c. if \<not> L \<le> length s then w c s else s) a1 (folders (h i))"
      unfolding w_def walk_acc_def by (simp add: walk.simps a1 Let_def)
    moreover have "take L (a1 @ concat (map ?found (folders (h i)))) = take L (accu @ filter filt (preorder h TypeFile (Suc n) i))"
      using step by (simp only: take_take_append) (simp add: filter_concat comp_def)
    ultimately show ?thesis using step folds [of a1] by simp
  qed
qed (simp add: walk_acc_def walk.simps)

text \<open>Counting the matches with a stop at the first one decides whether there is any.\<close>

lemma count_files_step:
  "walk_files (\<lambda>_ k. Suc k) (\<lambda>_ c. filt c) (\<lambda>k _. Suc 0 \<le> k) fs k = (b, k') \<Longrightarrow>
   (0 < k' \<longleftrightarrow> 0 < k \<or> (\<exists>c \<in> set fs. filt c)) \<and> (b \<longrightarrow> 0 < k')"
  by (induction fs arbitrary: k) (auto split: if_splits)

lemma count_pos_iff:
  "0 < walk_acc h n (\<lambda>_ k. Suc k) (\<lambda>_ c. filt c) TypeBoth (\<lambda>k _. Suc 0 \<le> k) i k \<longleftrightarrow>
     0 < k \<or> (\<exists>c \<in> set (preorder h TypeBoth n i). filt c)"
proof (induction n arbitrary: i k)
  case (Suc n)
  define w where "w = walk_acc h n (\<lambda>_ k. Suc k) (\<lambda>_ c. filt c) TypeBoth (\<lambda>k _. Suc 0 \<le> k)"
  have folds: "0 < foldl (\<lambda>s c. let s2 = if filt c then Suc s else s in if \<not> Suc 0 \<le> s2 then w c s2 else s2) a cs
      \<longleftrightarrow> 0 < a \<or> (\<exists>c \<in> set cs. filt c \<or> (\<exists>d \<in> set (preorder h TypeBoth n c). filt d))" for a cs
    by (induction cs arbitrary: a) (auto simp: w_def Suc.IH Let_def)
  obtain b k1 where k1: "walk_files (\<lambda>_ k. Suc k) (\<lambda>_ c. filt c) (\<lambda>k _. Suc 0 \<le> k) (files (h i)) k = (b, k1)"
    by fastforce
  note step = count_files_step [OF k1]
  have "walk_acc h (Suc n) (\<lambda>_ k. Suc k) (\<lambda>_ c. filt c) TypeBoth (\<lambda>k _. Suc 0 \<le> k) i k =
      (if b then k1 else
        foldl (\<lambda>s c. let s2 = if filt c then Suc s else s in if \<not> Suc 0 \<le> s2 then w c s2 else s2) k1 (folders (h i)))"
    unfolding w_def walk_acc_def by (simp add: walk.simps k1 Let_def)
  then show ?case using step folds [of k1 "folders (h i)"] by auto
qed (simp add: walk_acc_def walk.simps)

section \<open>The shape of the tree is kept\<close>

definition same_tree :: "ustate \<Rightarrow> ustate \<Rightarrow> bool" where
  "same_tree s s' \<longleftrightarrow> nextId s' = nextId s \<and>
     (\<forall>j. klass (heap s' j) = klass (heap s j) \<and> parent (heap s' j) = parent (heap s j)
        \<and> folders (heap s' j) = folders (heap s j) \<and> files (heap s' j) = files (heap s j)
        \<and> isNew (heap s' j) = isNew (heap s j) \<and> parts (heap s' j) = parts (heap s j)
        \<and> label (heap s' j) = label (heap s j) \<and> fsize (heap s' j) = fsize (heap s j)
        \<and> target (heap s' j) = target (heap s j) \<and> hasTask (heap s' j) = hasTask (heap s j)
        \<and> repositoryId (heap s' j) = repositoryId (heap s j)
        \<and> monitored (heap s' j) = monitored (heap s j))"

lemma same_tree_refl [simp]: "same_tree s s"
  by (simp add: same_tree_def)

lemma same_tree_trans: "same_tree s t \<Longrightarrow> same_tree t u \<Longrightarrow> same_tree s u"
  by (simp add: same_tree_def)

lemma same_tree_ok: "same_tree s s' \<Longrightarrow> tree_ok s' = tree_ok s"
  by (simp add: same_tree_def tree_ok_def)

lemma same_tree_setStatus [frame]: "same_tree s (setStatus e i st s)"
  by (simp add: same_tree_def)

lemma same_tree_setProgress [frame]: "same_tree s (setProgress e i v b s)"
  by (simp add: same_tree_def)

lemma same_tree_recompute [frame]: "same_tree s (recomputeProgress e i s)"
  by (simp add: same_tree_def)

lemma same_tree_abort [frame]: "same_tree s (abort e i s)"
  by (auto simp: abort_def doAbort_def Let_def same_tree_def)

lemma same_tree_walk_abort [frame]: "same_tree s (walk_heap (abort e) flt ty stp i s)"
  unfolding walk_heap_def
  by (rule walk_preserves) (auto intro: same_tree_trans [OF _ same_tree_abort])

lemma same_tree_onError [frame]: "same_tree s (onError e i m s)"
  by (simp add: onError_def same_tree_def)

lemma same_tree_resume [frame]: "same_tree s (resume e i s)"
  by (simp add: resume_def same_tree_setStatus)

lemma same_tree_fold: "(\<And>p t. same_tree t (f p t)) \<Longrightarrow> same_tree s (fold f ps s)"
  by (induction ps arbitrary: s) (auto intro: same_tree_trans)

lemma same_tree_pause [frame]: "same_tree s (pause e i s)"
  by (auto simp: pause_def doPause_def Let_def split: option.splits xhr.splits
      intro: same_tree_trans [OF same_tree_fold same_tree_setStatus] same_tree_setStatus)

text \<open>What \<open>abort\<close> does not touch outside the heap.\<close>

lemma abort_state [simp]:
  "sessions (abort e i s) = sessions s" "processing (abort e i s) = processing s"
  "pauseRequired (abort e i s) = pauseRequired s" "requests (abort e i s) = requests s"
  by (simp_all add: abort_def doAbort_def Let_def)

lemma walk_abort_state [simp]:
  "sessions (walk_heap (abort e) flt ty stp i s) = sessions s"
  "processing (walk_heap (abort e) flt ty stp i s) = processing s"
  "pauseRequired (walk_heap (abort e) flt ty stp i s) = pauseRequired s"
  "requests (walk_heap (abort e) flt ty stp i s) = requests s"
  unfolding walk_heap_def
  by (rule walk_preserves [where P = "\<lambda>t. sessions t = sessions s"], simp_all)
    (rule walk_preserves [where P = "\<lambda>t. processing t = processing s"], simp_all,
     rule walk_preserves [where P = "\<lambda>t. pauseRequired t = pauseRequired s"], simp_all,
     rule walk_preserves [where P = "\<lambda>t. requests t = requests s"], simp_all)

end
