(* ===== verification/UploadStore.thy ===== *)
theory UploadStore
  imports UploadTree
begin

text \<open>
  The upload queue: the processing of one item (\<open>_doProcess\<close> of \<open>FolderItem.js\<close> and
  \<open>UploadItem.js\<close>, with its retry, progress and completion callbacks) and the \<open>Store\<close>
  (\<open>Store.js\<close>): sessions, what to start next, pausing, clearing.

  \<open>completeCallback\<close> is \<open>Store.processNext\<close>'s closure. When a method calls it synchronously the
  function returns \<open>True\<close> with the state, and the caller runs the closure: it is always the
  method's last action. \<open>process_next\<close> is recursive through that call; it takes fuel, returns
  \<open>OutOfFuel\<close> when it is spent, and \<open>UploadFacts\<close> proves how much is enough. An exception that
  leaves a handler is \<open>Threw\<close> with the state reached.
\<close>

datatype outcome = Returned ustate | Threw ustate | OutOfFuel

fun state_of :: "outcome \<Rightarrow> ustate \<Rightarrow> ustate" where
  "state_of (Returned s) d = s"
| "state_of (Threw s) d = s"
| "state_of OutOfFuel d = d"

fun and_then :: "outcome \<Rightarrow> (ustate \<Rightarrow> outcome) \<Rightarrow> outcome" where
  "and_then (Returned s) f = f s"
| "and_then (Threw s) f = Threw s"
| "and_then OutOfFuel f = OutOfFuel"

fun for_each :: "('a \<Rightarrow> ustate \<Rightarrow> outcome) \<Rightarrow> 'a list \<Rightarrow> ustate \<Rightarrow> outcome" where
  "for_each f [] s = Returned s"
| "for_each f (x # xs) s = and_then (f x s) (for_each f xs)"

section \<open>Processing one item\<close>

text \<open>A failed upload hands over a string (plain request) or an error object (multipart).\<close>

datatype upload_error = ErrStr string | ErrObj string

definition message :: "uenv \<Rightarrow> string \<Rightarrow> string" where
  "message e k = (case messageHash e k of Some m \<Rightarrow> m | None \<Rightarrow> ''undefined'')"

text \<open>\<open>error(e)\<close>: the message of a string is \<open>undefined\<close>.\<close>

definition upload_failed :: "uenv \<Rightarrow> nat \<Rightarrow> upload_error \<Rightarrow> ustate \<Rightarrow> ustate" where
  "upload_failed e i err s =
     onError e i (message e ''210'' @ '': '' @
       (case err of ErrObj m \<Rightarrow> m | ErrStr _ \<Rightarrow> ''undefined'')) s"

definition MAX_RETRIES :: nat where
  "MAX_RETRIES = 2"

text \<open>
  \<open>retry(count)\<close> applied to an error, or to nothing at the start: the flag tells whether
  \<open>completeCallback\<close> was called. \<open>RTimer i count\<close> is the timer, due after \<open>150 * count\<close>
  milliseconds. \<open>error(undefined)\<close> throws before it does anything.
\<close>

definition retry :: "uenv \<Rightarrow> nat \<Rightarrow> nat \<Rightarrow> upload_error option \<Rightarrow> ustate \<Rightarrow> bool \<times> ustate" where
  "retry e i count err s =
     (case err of
        Some (ErrStr m) \<Rightarrow>
          if m \<noteq> [] \<and> contains_sub ''422'' m then
            (True, upload_failed e i (ErrObj (message e ''html_uploader.status.error.422'' @ '' (422)'')) s)
          else if m \<noteq> [] \<and> contains_sub ''403'' m then
            (True, upload_failed e i (ErrObj (message e ''html_uploader.status.error.403'' @ '' (403)'')) s)
          else if userAborted (heap s i) then
            (True, upload_failed e i
               (if m \<noteq> [] then ErrStr m else ErrObj (message e ''html_uploader.status.error.aborted'')) s)
          else if count \<ge> MAX_RETRIES then (True, upload_failed e i (ErrStr m) s)
          else (False, s\<lparr>requests := requests s @ [RTimer i count]\<rparr>)
      | Some (ErrObj m) \<Rightarrow>
          if userAborted (heap s i) then (True, upload_failed e i (ErrObj m) s)
          else if count \<ge> MAX_RETRIES then (True, upload_failed e i (ErrObj m) s)
          else (False, s\<lparr>requests := requests s @ [RTimer i count]\<rparr>)
      | None \<Rightarrow>
          if userAborted (heap s i) then
            (True, upload_failed e i (ErrObj (message e ''html_uploader.status.error.aborted'')) s)
          else if count \<ge> MAX_RETRIES then (False, s)
          else (False, s\<lparr>requests := requests s @ [RTimer i count]\<rparr>))"

text \<open>
  \<open>uploadPresigned\<close>, called by the timer with the incremented count. The transport (plain below
  the multipart threshold, managed above) becomes the item's \<open>xhr\<close> once a token was fetched:
  event \<open>transport_ready\<close>.
\<close>

definition uploadPresigned :: "uenv \<Rightarrow> nat \<Rightarrow> nat \<Rightarrow> ustate \<Rightarrow> ustate" where
  "uploadPresigned e i count s =
     (case getFullPath e i s of
        None \<Rightarrow> setProgress e i 0 None (setStatus e i StError s)
      | Some fullPath \<Rightarrow> s\<lparr>requests := requests s @ [RUpload i count]\<rparr>)"

definition transport_of :: "uenv \<Rightarrow> nat \<Rightarrow> ustate \<Rightarrow> xhr" where
  "transport_of e i s = (if fsize (heap s i) < multipartThreshold e then PlainXhr else ManagedXhr)"

definition transport_ready :: "uenv \<Rightarrow> nat \<Rightarrow> ustate \<Rightarrow> ustate" where
  "transport_ready e i s = upd i (\<lambda>it. it\<lparr>xhr := Some (transport_of e i s)\<rparr>) s"

text \<open>\<open>_doProcess\<close> of a file.\<close>

definition doProcess_file :: "uenv \<Rightarrow> nat \<Rightarrow> ustate \<Rightarrow> bool \<times> ustate" where
  "doProcess_file e i s =
     (let s1 = upd i (\<lambda>it. it\<lparr>userAborted := False\<rparr>) s;
          s2 = setStatus e i StLoading s1
      in case extensionAllowed (config e) (message e ''367'') (label (heap s2 i)) of
           Some m \<Rightarrow> (True, onError e i m s2)
         | None \<Rightarrow> retry e i 0 None s2)"

text \<open>
  \<open>complete\<close>, given the response text: a plain request whose text is not \<open>OK\<close> is an error.
  The managed transport has no response text.
\<close>

definition upload_complete :: "uenv \<Rightarrow> nat \<Rightarrow> string \<Rightarrow> ustate \<Rightarrow> ustate" where
  "upload_complete e i responseText s =
     (let s1 = setStatus e i StLoaded s
      in if xhr (heap s1 i) = Some PlainXhr \<and> responseText \<noteq> [] \<and> responseText \<noteq> ''OK'' then
           onError e i (''Unexpected response: '' @ responseText) s1
         else s1)"

record upload_progress =
  loaded :: nat
  total :: nat
  part :: nat          \<comment> \<open>0 when the event names no part\<close>
  partLoaded :: nat
  partTotal :: nat

text \<open>\<open>Math.round\<close> of a percentage of natural numbers: half rounds up.\<close>

definition percentage :: "nat \<Rightarrow> nat \<Rightarrow> nat" where
  "percentage x y = (2 * x * 100 + y) div (2 * y)"

definition part_progress :: "uenv \<Rightarrow> nat \<Rightarrow> nat \<Rightarrow> upload_progress \<Rightarrow> ustate \<Rightarrow> ustate" where
  "part_progress e i p ev s =
     (let prog = percentage (partLoaded ev) (partTotal ev);
          s1 = (if prog < 100 then
                  (if status (heap s p) \<noteq> StCannotPause then setStatus e p StLoading s else s)
                else
                  let checkPause = (status (heap s p) = StCannotPause);
                      s2 = setStatus e p StLoaded s;
                      parts' = (case parts (heap s2 i) of None \<Rightarrow> [] | Some ps \<Rightarrow> ps)
                  in if checkPause \<and> filter (\<lambda>q. status (heap s2 p) = StCannotPause) parts' = []
                     then setStatus e i StPause s2 else s2)
      in setProgress e p (of_nat prog) (Some (partLoaded ev)) s1)"

definition upload_progress :: "uenv \<Rightarrow> nat \<Rightarrow> upload_progress \<Rightarrow> ustate \<Rightarrow> ustate" where
  "upload_progress e i ev s =
     (if status (heap s i) = StError then s
      else if total ev = 0 then s
      else let s1 = setProgress e i (of_nat (percentage (loaded ev) (total ev))) (Some (loaded ev)) s
           in case parts (heap s1 i) of
                None \<Rightarrow> s1
              | Some ps \<Rightarrow>
                  if part ev \<noteq> 0 \<and> part ev - 1 < length ps \<and> partLoaded ev \<noteq> 0 \<and> partTotal ev \<noteq> 0
                  then part_progress e i (ps ! (part ev - 1)) ev s1 else s1)"

text \<open>\<open>_doProcess\<close> of a folder.\<close>

definition doProcess_folder :: "uenv \<Rightarrow> nat \<Rightarrow> ustate \<Rightarrow> bool \<times> ustate" where
  "doProcess_folder e i s =
     (if \<not> isNew (heap s i) then (True, s)
      else case getFullPath e i s of
             None \<Rightarrow> (False, setStatus e i StError s)
           | Some fullPath \<Rightarrow> (False, s\<lparr>requests := requests s @ [RCreateFolder i]\<rparr>))"

definition doProcess :: "uenv \<Rightarrow> nat \<Rightarrow> ustate \<Rightarrow> bool \<times> ustate" where
  "doProcess e i s =
     (if klass (heap s i) = KFile then doProcess_file e i s else doProcess_folder e i s)"

definition folder_created :: "uenv \<Rightarrow> nat \<Rightarrow> ustate \<Rightarrow> ustate" where
  "folder_created e i s =
     recomputeProgress e i (upd i (\<lambda>it. it\<lparr>pg := obj_set i 100 (pg it)\<rparr>) (setStatus e i StLoaded s))"

section \<open>The queue\<close>

definition count_matching :: "(item \<Rightarrow> bool) \<Rightarrow> ustate \<Rightarrow> nat" where
  "count_matching f s =
     foldl (\<lambda>items i. walk_acc (heap s) (nextId s - i) (\<lambda>_ k. Suc k) (\<lambda>_ c. f (heap s c)) TypeBoth
                        (\<lambda>k _. Suc 0 \<le> k) i items) 0 (sessions s)"

definition hasQueue :: "ustate \<Rightarrow> bool" where
  "hasQueue s = (count_matching (\<lambda>it. status it = StNew \<or> status it = StPause \<or> status it = StMultiPause) s > 0)"

definition hasErrors :: "ustate \<Rightarrow> bool" where
  "hasErrors s = (count_matching (\<lambda>it. status it = StError) s > 0)"

definition isRunning :: "ustate \<Rightarrow> bool" where
  "isRunning s = (filter (\<lambda>u. status (heap s u) = StLoading) (processing s) \<noteq> [])"

definition monitorProcessing :: "nat \<Rightarrow> ustate \<Rightarrow> ustate" where
  "monitorProcessing i s =
     (let s1 = upd i (\<lambda>it. it\<lparr>monitored := True\<rparr>) s in s1\<lparr>processing := processing s1 @ [i]\<rparr>)"

definition unmonitorProcessing :: "nat \<Rightarrow> ustate \<Rightarrow> ustate" where
  "unmonitorProcessing i s =
     (let index = js_indexOf (processing s) i in
      if index > - 1 then
        let s1 = upd i (\<lambda>it. it\<lparr>monitored := False\<rparr>) s
        in s1\<lparr>processing := arrayWithout (processing s1) index\<rparr>
      else s)"

text \<open>\<open>getFolders\<close>: the folders to create, session by session, and each session's status.\<close>

definition new_folder :: "item \<Rightarrow> bool" where
  "new_folder it \<longleftrightarrow> status it = StNew \<and> isNew it"

definition getFolders :: "uenv \<Rightarrow> nat \<Rightarrow> ustate \<Rightarrow> nat list \<times> ustate" where
  "getFolders e maxi s =
     foldl (\<lambda>(fs, s) i.
         let (fs1, has) = walk_acc (heap s) (nextId s - i) (\<lambda>c (a, k). (a @ [c], Suc k))
               (\<lambda>_ c. new_folder (heap s c)) TypeFolder (\<lambda>(a, k) _. maxi \<le> length a) i (fs, 0);
             s1 = upd i (\<lambda>it. it\<lparr>createFolders := has\<rparr>) s
         in (fs1, setStatus e i (if has \<noteq> 0 then StFolders else StLoading) s1))
       ([], s) (sessions s)"

definition startable :: "item \<Rightarrow> bool" where
  "startable it \<longleftrightarrow> status it = StNew \<or> status it = StPause"

text \<open>\<open>getNexts\<close>: one folder if there is any, else files up to \<open>max\<close> with those under way.\<close>

definition next_folder :: "ustate \<Rightarrow> nat list" where
  "next_folder s =
     foldl (\<lambda>fs i. walk_acc (heap s) (nextId s - i) (\<lambda>c a. a @ [c]) (\<lambda>_ c. new_folder (heap s c))
                     TypeFolder (\<lambda>a _. 1 \<le> length a) i fs) [] (sessions s)"

definition getNexts :: "uenv \<Rightarrow> nat \<Rightarrow> ustate \<Rightarrow> nat list \<times> ustate" where
  "getNexts e maxi s =
     (case next_folder s of
        f # _ \<Rightarrow> ([f], s)
      | [] \<Rightarrow>
          let busy = length (processing s)
          in foldl (\<lambda>(items, s) i.
                 let items1 = walk_acc (heap s) (nextId s - i) (\<lambda>c a. a @ [c])
                       (\<lambda>_ c. startable (heap s c)) TypeFile (\<lambda>a _. maxi \<le> length a + busy) i items;
                     s1 = (if length items1 = length items \<and> busy = 0
                           then run_task i (setIdle (clock e) i) s else s)
                 in (items1, s1))
               ([], s) (sessions s))"

text \<open>
  The folders' loop of \<open>processNext\<close>: a path that cannot be computed throws, with the folders
  before it already marked.
\<close>

fun start_folders :: "uenv \<Rightarrow> nat list \<Rightarrow> ustate \<Rightarrow> outcome" where
  "start_folders e [] s = Returned s"
| "start_folders e (f # fs) s =
     (case getFullPath e f s of
        None \<Rightarrow> Threw s
      | Some path \<Rightarrow> start_folders e fs (monitorProcessing f (setStatus e f StLoading s)))"

fun process_next :: "nat \<Rightarrow> uenv \<Rightarrow> ustate \<Rightarrow> outcome" where
  "process_next 0 e s = OutOfFuel"
| "process_next (Suc n) e s =
     (let (fs, s1) = getFolders e 60 s in
      if fs \<noteq> [] \<and> \<not> pauseRequired s1 then
        and_then (start_folders e fs s1)
          (\<lambda>s2. Returned ((post NUpdate s2)\<lparr>requests := requests s2 @ [RCreateNodes fs]\<rparr>))
      else
        let (processables, s2) = getNexts e 3 s1 in
        if processables \<noteq> [] \<and> \<not> pauseRequired s2 then
          and_then
            (for_each (\<lambda>p s.
                let (called, s3) = doProcess e p (monitorProcessing p s)
                in if called then
                     and_then (process_next n e (unmonitorProcessing p s3)) (\<lambda>s4. Returned (post NUpdate s4))
                   else Returned s3) processables s2)
            (\<lambda>s5. Returned (post NUpdate s5))
        else
          let s3 = (if hasErrors s2 then post (NDialog False) s2
                    else if getAutoClose (config e) \<and> \<not> pauseRequired s2 then post NAutoClose s2
                    else s2)
          in Returned (post NUpdate s3))"

declare process_next.simps [simp del]

text \<open>The fuel given to a top-level call: one unit per file that may be rejected, and one more.\<close>

definition waiting :: "ustate \<Rightarrow> nat list" where
  "waiting s = filter (\<lambda>i. startable (heap s i)) [0..<nextId s]"

definition processNext :: "uenv \<Rightarrow> ustate \<Rightarrow> outcome" where
  "processNext e s = process_next (Suc (length (waiting s))) e s"

text \<open>The closure \<open>processNext\<close> gives to \<open>process\<close>, when an item calls it later.\<close>

definition complete_callback :: "uenv \<Rightarrow> nat \<Rightarrow> ustate \<Rightarrow> outcome" where
  "complete_callback e i s =
     and_then (processNext e (unmonitorProcessing i s)) (\<lambda>s1. Returned (post NUpdate s1))"

section \<open>Sessions and user commands\<close>

text \<open>\<open>setStatus\<close> on a session, with the store's observer.\<close>

definition set_session_status :: "uenv \<Rightarrow> nat \<Rightarrow> status \<Rightarrow> ustate \<Rightarrow> outcome" where
  "set_session_status e i st s =
     (let s1 = setStatus e i st s in
      if \<not> hasTask (heap s1 i) then Returned s1
      else if st = StReady then
        (if getAutoStart (config e) \<and> processing s1 = [] \<and> \<not> pauseRequired s1 then processNext e s1
         else if \<not> getAutoStart (config e) then Returned (post (NDialog False) s1)
         else Returned s1)
      else if st = StConfirm then Returned (post (NDialog True) s1)
      else Returned s1)"

definition pushSession :: "uenv \<Rightarrow> nat \<Rightarrow> ustate \<Rightarrow> ustate" where
  "pushSession e i s =
     (let s1 = s\<lparr>sessions := sessions s @ [i]\<rparr>;
          it = heap s1 i;
          (t, js) = newTask (messageHash e) (userId e) (clock e) i (status_string (status it))
                      (createFolders it) (length (getChildren i s1)) (progress it) (jobs s1);
          s2 = upd i (\<lambda>it. it\<lparr>hasTask := True\<rparr>) (s1\<lparr>tasks := (tasks s1)(i := t), jobs := js\<rparr>)
      in post (NSessionAdded i) (post NUpdate s2))"

definition remove_item :: "uenv \<Rightarrow> nat \<Rightarrow> ustate \<Rightarrow> ustate" where
  "remove_item e c s = (case parent (heap s c) of None \<Rightarrow> s | Some p \<Rightarrow> removeChild e p c s)"

definition clearStatus :: "uenv \<Rightarrow> status \<Rightarrow> ustate \<Rightarrow> ustate" where
  "clearStatus e st s =
     foldl (\<lambda>s i. walk_heap (remove_item e) (\<lambda>s c. status (heap s c) = st) TypeFile (\<lambda>_ _. False) i s)
       s (sessions s)"

definition clearAll :: "uenv \<Rightarrow> ustate \<Rightarrow> ustate" where
  "clearAll e s =
     (let s1 = clearStatus e StNew s;
          s2 = foldl (\<lambda>s i.
                 let s' = walk_heap (remove_item e) (\<lambda>_ _. True) TypeBoth (\<lambda>_ _. False) i s
                 in removeSession e i (run_task i (setIdle (clock e) i) s'))
               s1 (sessions s1)
      in post NUpdate (s2\<lparr>pauseRequired := False\<rparr>))"

definition stopOrRemoveItem :: "uenv \<Rightarrow> nat \<Rightarrow> ustate \<Rightarrow> ustate" where
  "stopOrRemoveItem e i s = post NUpdate (unmonitorProcessing i (abort e i s))"

definition pauseStore :: "uenv \<Rightarrow> ustate \<Rightarrow> ustate" where
  "pauseStore e s =
     (let s1 = s\<lparr>pauseRequired := True\<rparr> in post NUpdate (fold (pause e) (processing s1) s1))"

definition resumeStore :: "uenv \<Rightarrow> ustate \<Rightarrow> outcome" where
  "resumeStore e s =
     (let s1 = s\<lparr>pauseRequired := False\<rparr>
      in and_then (for_each (\<lambda>i. set_session_status e i StReady) (sessions s1) s1)
           (\<lambda>s2. processNext e (post NUpdate (fold (resume e) (processing s2) s2))))"

end
