(* ===== verification/UploadFacts.thy ===== *)
theory UploadFacts
  imports UploadStore
begin

text \<open>
  Facts about one call of the queue. The locale \<open>queue_relation\<close> lists the elementary changes
  \<open>process_next\<close> is made of; any reflexive and transitive relation they respect is respected by
  the whole recursive call, whatever it starts and however deep it nests. Its interpretations
  give: the tree is kept, nothing becomes startable again, the pause flag is kept, every timer
  it starts is a first attempt. The second one gives the fuel that is enough.
\<close>

section \<open>Reachable by elementary changes\<close>

text \<open>The statuses a call of the queue gives, and the requests it makes.\<close>

definition queue_status :: "status \<Rightarrow> bool" where
  "queue_status st \<longleftrightarrow> st = StFolders \<or> st = StLoading \<or> st = StError"

definition first_request :: "request \<Rightarrow> bool" where
  "first_request r = (case r of RTimer i c \<Rightarrow> c = 0 | RUpload i c \<Rightarrow> False | _ \<Rightarrow> True)"

text \<open>One turn of the loop of \<open>process_next\<close>, and its parts by name.\<close>

definition start_item :: "nat \<Rightarrow> uenv \<Rightarrow> nat \<Rightarrow> ustate \<Rightarrow> outcome" where
  "start_item n e p t =
     (let (called, s3) = doProcess e p (monitorProcessing p t)
      in if called then and_then (process_next n e (unmonitorProcessing p s3)) (\<lambda>s4. Returned (post NUpdate s4))
         else Returned s3)"

definition create_folders :: "uenv \<Rightarrow> nat list \<Rightarrow> ustate \<Rightarrow> outcome" where
  "create_folders e fs s = and_then (start_folders e fs s)
     (\<lambda>s2. Returned ((post NUpdate s2)\<lparr>requests := requests s2 @ [RCreateNodes fs]\<rparr>))"

definition nothing_left :: "uenv \<Rightarrow> ustate \<Rightarrow> ustate" where
  "nothing_left e s = post NUpdate (if hasErrors s then post (NDialog False) s
     else if getAutoClose (config e) \<and> \<not> pauseRequired s then post NAutoClose s else s)"

lemma process_next_Suc:
  assumes "getFolders e 60 s = (fs, s1)" "getNexts e 3 s1 = (ps, s2)"
  shows "process_next (Suc n) e s =
    (if fs \<noteq> [] \<and> \<not> pauseRequired s1 then create_folders e fs s1
     else if ps \<noteq> [] \<and> \<not> pauseRequired s2 then and_then (for_each (start_item n e) ps s2) (\<lambda>s5. Returned (post NUpdate s5))
     else Returned (nothing_left e s2))"
  by (simp add: process_next.simps assms create_folders_def nothing_left_def start_item_def [abs_def])

lemma start_item_not_called: "doProcess e p (monitorProcessing p t) = (False, u) \<Longrightarrow> start_item n e p t = Returned u"
  by (simp add: start_item_def)

lemma start_item_called:
  "doProcess e p (monitorProcessing p t) = (True, u) \<Longrightarrow>
   start_item n e p t = and_then (process_next n e (unmonitorProcessing p u)) (\<lambda>s4. Returned (post NUpdate s4))"
  by (simp add: start_item_def)

lemma nothing_left_sel [simp]:
  "heap (nothing_left e s) = heap s" "nextId (nothing_left e s) = nextId s" "processing (nothing_left e s) = processing s"
  "requests (nothing_left e s) = requests s" "pauseRequired (nothing_left e s) = pauseRequired s"
  "sessions (nothing_left e s) = sessions s"
  by (simp_all add: nothing_left_def)

locale queue_relation =
  fixes R :: "ustate \<Rightarrow> ustate \<Rightarrow> bool"
  assumes R_refl: "R s s"
    and R_trans: "R s t \<Longrightarrow> R t u \<Longrightarrow> R s u"
    and R_status: "queue_status st \<Longrightarrow> R s (setStatus e i st s)"
    and R_task: "R s (run_task i f s)"
    and R_post: "R s (post n s)"
    and R_created: "R s (upd i (\<lambda>it. it\<lparr>createFolders := k\<rparr>) s)"
    and R_monitored: "R s (upd i (\<lambda>it. it\<lparr>monitored := b\<rparr>) s)"
    and R_aborted: "R s (upd i (\<lambda>it. it\<lparr>userAborted := b\<rparr>) s)"
    and R_message: "R s (upd i (\<lambda>it. it\<lparr>errorMessage := m\<rparr>) s)"
    and R_processing: "R s (s\<lparr>processing := ps\<rparr>)"
    and R_request: "first_request r \<Longrightarrow> R s (s\<lparr>requests := requests s @ [r]\<rparr>)"
begin

definition to_R :: "ustate \<Rightarrow> outcome \<Rightarrow> bool" where
  "to_R s out = (case out of Returned t \<Rightarrow> R s t | Threw t \<Rightarrow> R s t | OutOfFuel \<Rightarrow> True)"

lemma to_R_simps [simp]:
  "to_R s (Returned t) = R s t" "to_R s (Threw t) = R s t" "to_R s OutOfFuel"
  by (simp_all add: to_R_def)

lemma to_R_trans: "R s t \<Longrightarrow> to_R t out \<Longrightarrow> to_R s out"
  by (auto simp: to_R_def intro: R_trans split: outcome.splits)

lemma to_R_and_then: "to_R s out \<Longrightarrow> (\<And>t. R s t \<Longrightarrow> to_R s (f t)) \<Longrightarrow> to_R s (and_then out f)"
  by (cases out) (auto intro: R_trans)

lemma R_monitor: "R s (monitorProcessing i s)"
  unfolding monitorProcessing_def Let_def by (rule R_trans [OF R_monitored R_processing])

lemma R_unmonitor: "R s (unmonitorProcessing i s)"
  unfolding unmonitorProcessing_def Let_def
  by (auto intro: R_trans [OF R_monitored R_processing] R_refl)

lemma R_onError: "R s (onError e i m s)"
  unfolding onError_def by (rule R_trans [OF R_message R_status]) (simp add: queue_status_def)

lemma R_foldl: "(\<And>t x. R t (f t x)) \<Longrightarrow> R s (foldl f s xs)"
  by (induction xs arbitrary: s) (auto intro: R_refl R_trans)

lemma R_foldl_snd: "(\<And>a t x. R t (snd (f (a, t) x))) \<Longrightarrow> R s (snd (foldl f (a, s) xs))"
proof (induction xs arbitrary: a s)
  case (Cons x xs)
  obtain a' s' where f: "f (a, s) x = (a', s')" by fastforce
  have "R s s'" using Cons.prems [of s a x] by (simp add: f)
  moreover have "R s' (snd (foldl f (a', s') xs))" using Cons.IH Cons.prems by blast
  ultimately show ?case by (simp add: f) (rule R_trans)
qed (simp add: R_refl)

lemma R_getFolders: "R s (snd (getFolders e k s))"
  unfolding getFolders_def
  by (rule R_foldl_snd)
    (auto simp: Let_def queue_status_def split: prod.splits intro: R_trans [OF R_created R_status])

lemma R_getNexts: "R s (snd (getNexts e k s))"
  unfolding getNexts_def Let_def
  by (auto split: list.splits intro!: R_foldl_snd R_refl R_task)

lemma R_doProcess: "R s (snd (doProcess e i s))"
proof -
  have a: "R s (setStatus e i StLoading (upd i (\<lambda>it. it\<lparr>userAborted := False\<rparr>) s))"
    by (rule R_trans [OF R_aborted R_status]) (simp add: queue_status_def)
  have b: "R s (setStatus e i StLoading (upd i (\<lambda>it. it\<lparr>userAborted := False\<rparr>) s)
      \<lparr>requests := requests s @ [RTimer i 0]\<rparr>)"
    using R_trans [OF a R_request, of "RTimer i 0"] by (simp add: first_request_def)
  have c: "R s (s\<lparr>requests := requests s @ [RCreateFolder i]\<rparr>)"
    by (rule R_request) (simp add: first_request_def)
  have d: "R s (setStatus e i StError s)" by (rule R_status) (simp add: queue_status_def)
  have f: "R s (snd (doProcess_file e i s))"
    using b R_trans [OF a R_onError]
    by (simp add: doProcess_file_def retry_def Let_def MAX_RETRIES_def split: option.split)
  have g: "R s (snd (doProcess_folder e i s))"
    using c d R_refl by (simp add: doProcess_folder_def split: option.split)
  show ?thesis using f g by (simp add: doProcess_def)
qed

lemma R_start_folders: "to_R s (start_folders e fs s)"
proof (induction fs arbitrary: s)
  case (Cons f fs)
  have "R s (monitorProcessing f (setStatus e f StLoading s))"
    by (rule R_trans [OF R_status R_monitor]) (simp add: queue_status_def)
  then show ?case using to_R_trans Cons by (auto split: option.splits intro: R_refl)
qed (simp add: R_refl)

lemma R_for_each: "(\<And>x t. to_R t (f x t)) \<Longrightarrow> to_R s (for_each f xs s)"
proof (induction xs arbitrary: s)
  case (Cons x xs)
  show ?case
    using Cons.prems [of s x] to_R_trans [OF _ Cons.IH [OF Cons.prems]]
    by (auto intro: to_R_and_then)
qed (simp add: R_refl)

lemma R_doProcess_monitored:
  assumes "doProcess e p (monitorProcessing p t) = (c, u)"
  shows "R t u" "R t (unmonitorProcessing p u)"
proof -
  show "R t u" using R_trans [OF R_monitor R_doProcess, of t e p p] assms by simp
  then show "R t (unmonitorProcessing p u)" by (rule R_trans [OF _ R_unmonitor])
qed

lemma R_start_item:
  assumes "\<And>s. to_R s (process_next n e s)"
  shows "to_R t (start_item n e p t)"
proof -
  obtain c u where d: "doProcess e p (monitorProcessing p t) = (c, u)" by fastforce
  note r = R_doProcess_monitored [OF d]
  have "to_R t (and_then (process_next n e (unmonitorProcessing p u)) (\<lambda>s4. Returned (post NUpdate s4)))"
    by (rule to_R_and_then [OF to_R_trans [OF r(2) assms]]) (auto intro: R_trans [OF _ R_post])
  then show ?thesis using r(1) by (simp add: start_item_def d)
qed

lemma R_create_folders: "to_R s (create_folders e fs s)"
  unfolding create_folders_def
proof (rule to_R_and_then [OF R_start_folders])
  fix t assume t: "R s t"
  have "R (post NUpdate t) ((post NUpdate t)\<lparr>requests := requests (post NUpdate t) @ [RCreateNodes fs]\<rparr>)"
    by (rule R_request) (simp add: first_request_def)
  then show "to_R s (Returned ((post NUpdate t)\<lparr>requests := requests t @ [RCreateNodes fs]\<rparr>))"
    using R_trans [OF R_trans [OF t R_post]] by simp
qed

lemma R_nothing_left: "R s (nothing_left e s)"
  using R_trans [OF R_post R_post] R_post by (simp add: nothing_left_def)

theorem R_process_next: "to_R s (process_next n e s)"
proof (induction n arbitrary: s)
  case (Suc n)
  obtain fs s1 where gf: "getFolders e 60 s = (fs, s1)" by fastforce
  obtain ps s2 where gn: "getNexts e 3 s1 = (ps, s2)" by fastforce
  have s1: "R s s1" using R_getFolders [of s e 60] gf by simp
  have s2: "R s s2" using R_getNexts [of s1 e 3] gn s1 by (auto intro: R_trans)
  have "to_R s (and_then (for_each (start_item n e) ps s2) (\<lambda>s5. Returned (post NUpdate s5)))"
    by (rule to_R_and_then [OF to_R_trans [OF s2 R_for_each [OF R_start_item [OF Suc.IH]]]]) (auto intro: R_trans [OF _ R_post])
  moreover have "to_R s (create_folders e fs s1)" by (rule to_R_trans [OF s1 R_create_folders])
  moreover have "R s (nothing_left e s2)" by (rule R_trans [OF s2 R_nothing_left])
  ultimately show ?case by (simp add: process_next_Suc [OF gf gn])
qed (simp add: process_next.simps)

end

section \<open>Interpretations\<close>

interpretation tree_kept: queue_relation
  "\<lambda>s t. nextId t = nextId s \<and> (\<forall>j. klass (heap t j) = klass (heap s j)
     \<and> folders (heap t j) = folders (heap s j) \<and> files (heap t j) = files (heap s j)
     \<and> parent (heap t j) = parent (heap s j) \<and> label (heap t j) = label (heap s j)
     \<and> isNew (heap t j) = isNew (heap s j))
     \<and> sessions t = sessions s"
  by unfold_locales (auto)

definition shrinks :: "ustate \<Rightarrow> ustate \<Rightarrow> bool" where
  "shrinks s t \<longleftrightarrow> nextId t = nextId s \<and> (\<forall>j. startable (heap t j) \<longrightarrow> startable (heap s j))"

interpretation startable_shrinks: queue_relation shrinks
  by unfold_locales (auto simp: shrinks_def startable_def queue_status_def)

interpretation pause_kept: queue_relation "\<lambda>s t. pauseRequired t = pauseRequired s"
  by unfold_locales auto

text \<open>The retry counts: a timer waits with 0 or 1, an upload under way carries 1 or 2.\<close>

definition attempts_ok :: "ustate \<Rightarrow> bool" where
  "attempts_ok s \<longleftrightarrow> (\<forall>r \<in> set (requests s). case r of
      RTimer i c \<Rightarrow> c < MAX_RETRIES | RUpload i c \<Rightarrow> 1 \<le> c \<and> c \<le> MAX_RETRIES | _ \<Rightarrow> True)"

lemma attempts_ok_same: "requests t = requests s \<Longrightarrow> attempts_ok s \<longrightarrow> attempts_ok t"
  by (simp add: attempts_ok_def)

lemma attempts_ok_first:
  "first_request r \<Longrightarrow> attempts_ok s \<longrightarrow> attempts_ok (s\<lparr>requests := requests s @ [r]\<rparr>)"
  by (cases r) (auto simp: attempts_ok_def first_request_def MAX_RETRIES_def)

interpretation attempts_kept: queue_relation "\<lambda>s t. attempts_ok s \<longrightarrow> attempts_ok t"
  by unfold_locales (blast, blast, (rule attempts_ok_same, (simp; fail))+, rule attempts_ok_first)

section \<open>What is started next\<close>

text \<open>Sessions and folders hold folders and files, a file holds parts; sessions are sessions.\<close>

definition kinds_ok :: "ustate \<Rightarrow> bool" where
  "kinds_ok s \<longleftrightarrow>
     (\<forall>i. klass (heap s i) \<noteq> KFile \<longrightarrow>
        (\<forall>c \<in> set (files (heap s i)). klass (heap s c) = KFile) \<and>
        (\<forall>c \<in> set (folders (heap s i)). klass (heap s c) = KFolder))
     \<and> (\<forall>i \<in> set (sessions s). klass (heap s i) = KSession)"

definition forest_ok :: "ustate \<Rightarrow> bool" where
  "forest_ok s \<longleftrightarrow> tree_ok s \<and> kinds_ok s"

lemma kinds_ok_file:
  "kinds_ok s \<Longrightarrow> klass (heap s j) \<noteq> KFile \<Longrightarrow> c \<in> set (files (heap s j)) \<Longrightarrow> klass (heap s c) = KFile"
  unfolding kinds_ok_def by (drule conjunct1, drule spec [of _ j], drule (1) mp, drule conjunct1, erule (1) bspec)

lemma kinds_ok_folder:
  "kinds_ok s \<Longrightarrow> klass (heap s j) \<noteq> KFile \<Longrightarrow> c \<in> set (folders (heap s j)) \<Longrightarrow> klass (heap s c) = KFolder"
  unfolding kinds_ok_def by (drule conjunct1, drule spec [of _ j], drule (1) mp, drule conjunct2, erule (1) bspec)

lemma kinds_ok_is_session: "kinds_ok s \<Longrightarrow> i \<in> set (sessions s) \<Longrightarrow> klass (heap s i) = KSession"
  unfolding kinds_ok_def by (drule conjunct2, erule (1) bspec)

lemma kinds_ok_session: "kinds_ok s \<Longrightarrow> i \<in> set (sessions s) \<Longrightarrow> klass (heap s i) \<noteq> KFile"
  by (drule (1) kinds_ok_is_session) simp

lemma tree_ok_child:
  "tree_ok s \<Longrightarrow> c \<in> set (folders (heap s j)) \<union> set (files (heap s j)) \<Longrightarrow> c < nextId s"
  by (simp add: tree_ok_def)

lemma foldl_walk_induct:
  assumes ok: "forest_ok s"
    and on_file: "\<And>a c. klass (heap s c) = KFile \<Longrightarrow> c < nextId s \<Longrightarrow> ty \<noteq> TypeFolder \<Longrightarrow> P a \<Longrightarrow> \<not> stp a c \<Longrightarrow> flt a c
                \<Longrightarrow> P (cb c a)"
    and on_folder: "\<And>a c. klass (heap s c) = KFolder \<Longrightarrow> c < nextId s \<Longrightarrow> ty \<noteq> TypeFile \<Longrightarrow> P a \<Longrightarrow> flt a c \<Longrightarrow> P (cb c a)"
    and i: "i \<in> set (sessions s)" and a: "P a"
  shows "P (walk_acc (heap s) n cb flt ty stp i a)"
proof (rule walk_acc_induct [where K = "\<lambda>j. klass (heap s j) \<noteq> KFile"])
  have k: "kinds_ok s" "tree_ok s" using ok by (simp_all add: forest_ok_def)
  show "klass (heap s c) \<noteq> KFile" if "klass (heap s j) \<noteq> KFile" "c \<in> set (folders (heap s j))" for j c
    using kinds_ok_folder [OF k(1) that] by simp
  show "P (cb c a)" if "klass (heap s j) \<noteq> KFile" "c \<in> set (files (heap s j))" "ty \<noteq> TypeFolder"
    "P a" "\<not> stp a c" "flt a c" for j a c
    by (rule on_file [OF kinds_ok_file [OF k(1) that(1,2)] tree_ok_child [OF k(2)]]) (use that in auto)
  show "P (cb c a)" if "klass (heap s j) \<noteq> KFile" "c \<in> set (folders (heap s j))" "ty \<noteq> TypeFile"
    "P a" "flt a c" for j a c
    by (rule on_folder [OF kinds_ok_folder [OF k(1) that(1,2)] tree_ok_child [OF k(2)]]) (use that in auto)
  show "klass (heap s i) \<noteq> KFile" using k(1) i by (rule kinds_ok_session)
qed (rule a)

lemma next_folder_new:
  assumes "forest_ok s" "p \<in> set (next_folder s)"
  shows "new_folder (heap s p) \<and> klass (heap s p) = KFolder \<and> p < nextId s"
proof -
  define Q where "Q = (\<lambda>a. \<forall>c \<in> set a. new_folder (heap s c) \<and> klass (heap s c) = KFolder \<and> c < nextId s)"
  have "Q (next_folder s)"
    unfolding next_folder_def
    by (rule foldl_induct [where base = "sessions s"], rule foldl_walk_induct [OF assms(1), where P = Q])
      (auto simp: Q_def)
  with assms(2) show ?thesis by (simp add: Q_def)
qed

lemma if_run_task_sel [simp]:
  "heap (if b then run_task i f s else s) = heap s" "nextId (if b then run_task i f s else s) = nextId s"
  "processing (if b then run_task i f s else s) = processing s"
  "requests (if b then run_task i f s else s) = requests s"
  "pauseRequired (if b then run_task i f s else s) = pauseRequired s"
  "sessions (if b then run_task i f s else s) = sessions s"
  by simp_all

text \<open>The state the fold over the sessions threads: the items, and a state with the same heap.\<close>

lemma getNexts_sel:
  "heap (snd (getNexts e k s)) = heap s" "nextId (snd (getNexts e k s)) = nextId s"
  "processing (snd (getNexts e k s)) = processing s" "requests (snd (getNexts e k s)) = requests s"
  "pauseRequired (snd (getNexts e k s)) = pauseRequired s" "sessions (snd (getNexts e k s)) = sessions s"
proof -
  define Q where "Q = (\<lambda>x :: nat list \<times> ustate. heap (snd x) = heap s \<and> nextId (snd x) = nextId s
    \<and> processing (snd x) = processing s \<and> requests (snd x) = requests s
    \<and> pauseRequired (snd x) = pauseRequired s \<and> sessions (snd x) = sessions s)"
  have "Q (getNexts e k s)"
    unfolding getNexts_def Let_def
    by (auto split: list.split simp: Q_def intro!: foldl_preserves [where P = Q, unfolded Q_def])
  then show "heap (snd (getNexts e k s)) = heap s" "nextId (snd (getNexts e k s)) = nextId s"
  "processing (snd (getNexts e k s)) = processing s" "requests (snd (getNexts e k s)) = requests s"
  "pauseRequired (snd (getNexts e k s)) = pauseRequired s" "sessions (snd (getNexts e k s)) = sessions s"
    by (simp_all add: Q_def)
qed

text \<open>
  What \<open>getNexts\<close> hands out: one new folder, or startable files, never more than the room left
  beside the items under way.
\<close>

lemma getNexts_items:
  assumes ok: "forest_ok s"
  shows "(\<exists>f. fst (getNexts e k s) = [f] \<and> new_folder (heap s f) \<and> klass (heap s f) = KFolder \<and> f < nextId s) \<or>
         ((\<forall>p \<in> set (fst (getNexts e k s)). klass (heap s p) = KFile \<and> startable (heap s p) \<and> p < nextId s) \<and>
          (fst (getNexts e k s) = [] \<or> length (fst (getNexts e k s)) + length (processing s) \<le> k))"
proof (cases "next_folder s")
  case (Cons f fs)
  then show ?thesis using next_folder_new [OF ok, of f] by (simp add: getNexts_def)
next
  case Nil
  define Q where "Q = (\<lambda>a. (\<forall>p \<in> set a. klass (heap s p) = KFile \<and> startable (heap s p) \<and> p < nextId s)
      \<and> (a = [] \<or> length a + length (processing s) \<le> k))"
  define S where "S = (\<lambda>x :: nat list \<times> ustate. Q (fst x) \<and> heap (snd x) = heap s \<and> nextId (snd x) = nextId s)"
  define body where "body = (\<lambda>(items, s') i.
      let items1 = walk_acc (heap s') (nextId s' - i) (\<lambda>c a. a @ [c])
            (\<lambda>_ c. startable (heap s' c)) TypeFile (\<lambda>a _. k \<le> length a + length (processing s)) i items
      in (items1, if length items1 = length items \<and> length (processing s) = 0
                  then run_task i (setIdle (clock e) i) s' else s'))"
  have step: "S (body x i)" if i: "i \<in> set (sessions s)" and x: "S x" for x i
  proof -
    obtain a t where at: "x = (a, t)" by fastforce
    have "Q (walk_acc (heap s) (nextId s - i) (\<lambda>c a. a @ [c]) (\<lambda>_ c. startable (heap s c)) TypeFile
        (\<lambda>a _. k \<le> length a + length (processing s)) i a)"
      by (rule foldl_walk_induct [OF ok, where P = Q]) (use x at i in \<open>auto simp: Q_def S_def\<close>)
    then show ?thesis using x at by (simp add: S_def body_def Let_def)
  qed
  have "S ([], s)" by (simp add: S_def Q_def)
  then have "S (foldl body ([], s) (sessions s))"
    using step by (intro foldl_induct [where base = "sessions s" and P = S]) auto
  moreover have "getNexts e k s = foldl body ([], s) (sessions s)"
    by (simp add: getNexts_def Nil body_def Let_def)
  ultimately have "S (getNexts e k s)" by simp
  then show ?thesis by (simp add: S_def Q_def)
qed

end
