(* ===== verification/UploadQueue.thy ===== *)
theory UploadQueue
  imports UploadFacts
begin

text \<open>
  Properties of \<open>Store.processNext\<close>: the fuel given to a call is enough, so every call returns or
  throws; a paused queue starts nothing; at most three files are under way when no extension is
  refused; the errors reported are those of the tree.
\<close>

section \<open>What every call keeps\<close>

text \<open>A property of the state a callback leaves, whether it returns or throws.\<close>

definition out_all :: "(ustate \<Rightarrow> bool) \<Rightarrow> outcome \<Rightarrow> bool" where
  "out_all P out = (case out of Returned t \<Rightarrow> P t | Threw t \<Rightarrow> P t | OutOfFuel \<Rightarrow> True)"

lemma out_all_simps [simp]:
  "out_all P (Returned t) = P t" "out_all P (Threw t) = P t" "out_all P OutOfFuel"
  by (simp_all add: out_all_def)

lemma out_all_mono: "out_all P out \<Longrightarrow> (\<And>t. P t \<Longrightarrow> Q t) \<Longrightarrow> out_all Q out"
  by (cases out) auto

lemma out_all_and_then: "out_all P out \<Longrightarrow> (\<And>t. P t \<Longrightarrow> out_all Q (f t)) \<Longrightarrow> (\<And>t. P t \<Longrightarrow> Q t) \<Longrightarrow> out_all Q (and_then out f)"
  by (cases out) auto

lemma out_all_for_each:
  "(\<And>p t. p \<in> set base \<Longrightarrow> J t \<Longrightarrow> out_all J (f p t)) \<Longrightarrow> set ps \<subseteq> set base \<Longrightarrow> J s \<Longrightarrow> out_all J (for_each f ps s)"
proof (induction ps arbitrary: s)
  case (Cons p ps)
  show ?case unfolding for_each.simps
    by (rule out_all_and_then [where P = J]) (use Cons in auto)
qed simp

definition forest_same :: "ustate \<Rightarrow> ustate \<Rightarrow> bool" where
  "forest_same s t \<longleftrightarrow> nextId t = nextId s \<and> sessions t = sessions s \<and>
     (\<forall>j. klass (heap t j) = klass (heap s j) \<and> folders (heap t j) = folders (heap s j)
        \<and> files (heap t j) = files (heap s j) \<and> parent (heap t j) = parent (heap s j)
        \<and> label (heap t j) = label (heap s j) \<and> isNew (heap t j) = isNew (heap s j))"

lemma forest_same_ok: "forest_same s t \<Longrightarrow> forest_ok t = forest_ok s"
  by (simp add: forest_same_def forest_ok_def tree_ok_def kinds_ok_def)

definition queue_change :: "ustate \<Rightarrow> ustate \<Rightarrow> bool" where
  "queue_change s t \<longleftrightarrow> forest_same s t \<and> shrinks s t \<and> pauseRequired t = pauseRequired s"

interpretation change: queue_relation queue_change
  by unfold_locales
    (auto simp: queue_change_def forest_same_def shrinks_def startable_def queue_status_def)

lemma change_ok: "queue_change s t \<Longrightarrow> forest_ok t = forest_ok s"
  by (simp add: queue_change_def forest_same_ok)

lemma change_waiting: "queue_change s t \<Longrightarrow> set (waiting t) \<subseteq> set (waiting s)"
  by (auto simp: queue_change_def shrinks_def waiting_def)

lemma waiting_card: "length (waiting s) = card (set (waiting s))"
  unfolding waiting_def by (subst distinct_card) simp_all

lemma waiting_shorter:
  assumes "set (waiting t) \<subseteq> set (waiting s)" "p \<in> set (waiting s)" "p \<notin> set (waiting t)"
  shows "length (waiting t) < length (waiting s)"
proof -
  have "card (set (waiting t)) < card (set (waiting s))"
    using assms by (intro psubset_card_mono) auto
  then show ?thesis unfolding waiting_card .
qed

section \<open>Synchronous completions\<close>

text \<open>A new folder never calls back at once; a file does when its extension is refused.\<close>

lemma doProcess_new_folder:
  "klass (heap s i) = KFolder \<Longrightarrow> isNew (heap s i) \<Longrightarrow> \<not> fst (doProcess e i s)"
  by (simp add: doProcess_def doProcess_folder_def split: option.split)

definition refused :: "uenv \<Rightarrow> string \<Rightarrow> bool" where
  "refused e l \<longleftrightarrow> extensionAllowed (config e) (message e ''367'') l \<noteq> None"

lemma doProcess_file_called:
  "klass (heap s i) = KFile \<Longrightarrow> fst (doProcess e i s) = refused e (label (heap s i))"
  by (cases "extensionAllowed (config e) (message e ''367'') (label (heap s i))")
    (simp_all add: doProcess_def doProcess_file_def retry_def refused_def Let_def MAX_RETRIES_def)

lemma doProcess_file_refused:
  "klass (heap s i) = KFile \<Longrightarrow> fst (doProcess e i s) \<Longrightarrow> status (heap (snd (doProcess e i s)) i) = StError"
  by (cases "extensionAllowed (config e) (message e ''367'') (label (heap s i))")
    (simp_all add: doProcess_def doProcess_file_def retry_def onError_def Let_def MAX_RETRIES_def)

lemma doProcess_processing [simp]: "processing (snd (doProcess e i s)) = processing s"
  by (auto simp: doProcess_def doProcess_file_def doProcess_folder_def retry_def onError_def Let_def
      MAX_RETRIES_def split: option.split)

lemma doProcess_not_paused_by_folder [simp]: "pauseRequired (snd (doProcess e i s)) = pauseRequired s"
  using pause_kept.R_doProcess .

section \<open>The fuel is enough\<close>

lemma for_each_fuel:
  assumes step: "\<And>p t. p \<in> set base \<Longrightarrow> J t \<Longrightarrow> f p t \<noteq> OutOfFuel \<and> (\<forall>t'. f p t = Returned t' \<longrightarrow> J t')"
  shows "set ps \<subseteq> set base \<Longrightarrow> J s \<Longrightarrow> for_each f ps s \<noteq> OutOfFuel"
proof (induction ps arbitrary: s)
  case (Cons p ps)
  then have "f p s \<noteq> OutOfFuel" "\<forall>t'. f p s = Returned t' \<longrightarrow> J t'" using step [of p s] by auto
  then show ?case using Cons by (cases "f p s") auto
qed simp

lemma start_folders_fuel: "start_folders e fs s \<noteq> OutOfFuel"
  by (induction fs arbitrary: s) (auto split: option.split)

lemma monitor_heap [simp]:
  "heap (monitorProcessing i s) = (heap s)(i := (heap s i)\<lparr>monitored := True\<rparr>)"
  by (simp add: monitorProcessing_def Let_def)

lemma foldl_snd_preserves:
  assumes "\<And>a t x. P t \<Longrightarrow> P (snd (f (a, t) x))"
  shows "P s \<Longrightarrow> P (snd (foldl f (a, s) xs))"
proof (induction xs arbitrary: a s)
  case (Cons x xs)
  obtain a' s' where f: "f (a, s) x = (a', s')" by fastforce
  then have "P s'" using assms [OF Cons.prems, of a x] by simp
  then show ?case using Cons.IH by (simp add: f)
qed simp

lemma getFolders_sel [simp]:
  "processing (snd (getFolders e k s)) = processing s" "requests (snd (getFolders e k s)) = requests s"
  unfolding getFolders_def
  by (rule foldl_snd_preserves [where P = "\<lambda>t. processing t = processing s"],
      simp_all split: prod.split,
      rule foldl_snd_preserves [where P = "\<lambda>t. requests t = requests s"], simp_all split: prod.split)

text \<open>What the choice of the next items leaves alone.\<close>

lemma items_taken:
  assumes gf: "getFolders e 60 s = (fs, s1)" and gn: "getNexts e 3 s1 = (ps, s2)"
  shows "queue_change s s1" "queue_change s s2" "processing s1 = processing s" "processing s2 = processing s"
    "requests s1 = requests s" "requests s2 = requests s" "heap s2 = heap s1" "nextId s2 = nextId s1"
    "klass (heap s1 j) = klass (heap s j)" "nextId s1 = nextId s" "forest_ok s1 = forest_ok s"
proof -
  show c1: "queue_change s s1" using change.R_getFolders [of s e 60] gf by simp
  show "queue_change s s2" using change.R_trans [OF c1] change.R_getNexts [of s1 e 3] gn by simp
  show s1: "processing s1 = processing s" "requests s1 = requests s"
    using getFolders_sel [where e = e and k = 60 and s = s] gf by simp_all
  show "processing s2 = processing s" "requests s2 = requests s" "heap s2 = heap s1" "nextId s2 = nextId s1"
    using getNexts_sel [of e 3 s1] gn s1 by simp_all
  show "klass (heap s1 j) = klass (heap s j)" "nextId s1 = nextId s" using c1 by (simp_all add: queue_change_def forest_same_def)
  show "forest_ok s1 = forest_ok s" by (rule change_ok [OF c1])
qed

lemma start_item_keeps: "change.to_R t (start_item n e p t)"
  by (rule change.R_start_item [OF change.R_process_next])

text \<open>An item that calls back at once is not startable any more: fewer are waiting.\<close>

lemma called_back_waits_less:
  assumes ok: "forest_ok s" and gf: "getFolders e 60 s = (fs, s1)" and gn: "getNexts e 3 s1 = (ps, s2)"
    and p: "p \<in> set ps" and t: "queue_change s2 t" and d: "doProcess e p (monitorProcessing p t) = (True, u)"
  shows "length (waiting (unmonitorProcessing p u)) < length (waiting s)" "forest_ok (unmonitorProcessing p u)"
proof -
  note it = items_taken [OF gf gn]
  have su: "queue_change s (unmonitorProcessing p u)"
    by (rule change.R_trans [OF change.R_trans [OF it(2) t] change.R_doProcess_monitored(2) [OF d]])
  then show "forest_ok (unmonitorProcessing p u)" using change_ok ok by blast
  have k: "klass (heap t p) = klass (heap s1 p)" "isNew (heap t p) = isNew (heap s1 p)"
    using t it(7) by (simp_all add: queue_change_def forest_same_def)
  have startfile: "klass (heap s1 p) = KFile \<and> startable (heap s1 p) \<and> p < nextId s1"
    using getNexts_items [of s1 e 3] it(11) ok gn p doProcess_new_folder [of "monitorProcessing p t" p e] d k
    by (auto simp: new_folder_def)
  have "status (heap u p) = StError"
    using doProcess_file_refused [of "monitorProcessing p t" p e] d k startfile by simp
  then have "\<not> startable (heap (unmonitorProcessing p u) p)"
    by (simp add: unmonitorProcessing_def startable_def Let_def)
  moreover have "p \<in> set (waiting s)"
    using startfile it(1) by (auto simp: waiting_def queue_change_def shrinks_def)
  ultimately show "length (waiting (unmonitorProcessing p u)) < length (waiting s)"
    using waiting_shorter [OF change_waiting [OF su]] by (simp add: waiting_def)
qed

lemma process_next_enough:
  "forest_ok s \<Longrightarrow> length (waiting s) < n \<Longrightarrow> process_next n e s \<noteq> OutOfFuel"
proof (induction n arbitrary: s)
  case (Suc n)
  obtain fs s1 where gf: "getFolders e 60 s = (fs, s1)" by fastforce
  obtain ps s2 where gn: "getNexts e 3 s1 = (ps, s2)" by fastforce
  have one: "start_item n e p t \<noteq> OutOfFuel \<and> (\<forall>t'. start_item n e p t = Returned t' \<longrightarrow> queue_change s2 t')"
    if p: "p \<in> set ps" and t: "queue_change s2 t" for p t
  proof -
    obtain b u where d: "doProcess e p (monitorProcessing p t) = (b, u)" by fastforce
    have "start_item n e p t \<noteq> OutOfFuel"
    proof (cases b)
      case True
      then have "doProcess e p (monitorProcessing p t) = (True, u)" using d by simp
      note less = called_back_waits_less [OF Suc.prems(1) gf gn p t this]
      have "process_next n e (unmonitorProcessing p u) \<noteq> OutOfFuel" using Suc.IH [OF less(2)] less(1) Suc.prems(2) by simp
      then show ?thesis using d True by (cases "process_next n e (unmonitorProcessing p u)") (simp_all add: start_item_def)
    qed (use d in \<open>simp add: start_item_def\<close>)
    then show ?thesis using change.to_R_trans [OF t start_item_keeps [of t n e p]] by (auto simp: change.to_R_def)
  qed
  have "for_each (start_item n e) ps s2 \<noteq> OutOfFuel"
    by (rule for_each_fuel [where J = "queue_change s2", OF one subset_refl change.R_refl])
  moreover have "create_folders e fs s1 \<noteq> OutOfFuel"
    using start_folders_fuel [of e fs s1] by (cases "start_folders e fs s1") (simp_all add: create_folders_def)
  ultimately show ?case
    by (cases "for_each (start_item n e) ps s2") (simp_all add: process_next_Suc [OF gf gn])
qed simp

text \<open>Every top-level call returns or throws: the fuel \<open>processNext\<close> takes is enough.\<close>

lemma processNext_ends: "forest_ok s \<Longrightarrow> processNext e s \<noteq> OutOfFuel"
  unfolding processNext_def by (rule process_next_enough) simp_all

section \<open>A paused queue\<close>

lemma process_next_paused:
  assumes "pauseRequired s"
  shows "\<exists>t. process_next (Suc n) e s = Returned t \<and> requests t = requests s \<and> processing t = processing s
           \<and> pauseRequired t"
proof -
  obtain fs s1 where gf: "getFolders e 60 s = (fs, s1)" by fastforce
  obtain ps s2 where gn: "getNexts e 3 s1 = (ps, s2)" by fastforce
  note it = items_taken [OF gf gn]
  have "pauseRequired s1" "pauseRequired s2" using it(1,2) assms by (simp_all add: queue_change_def)
  then show ?thesis using it(4,6) by (simp add: process_next_Suc [OF gf gn])
qed

section \<open>How many uploads run at once\<close>

definition uploads :: "ustate \<Rightarrow> nat list" where
  "uploads s = filter (\<lambda>i. klass (heap s i) = KFile) (processing s)"

lemma getFolders_items:
  assumes "forest_ok s"
  shows "\<forall>f \<in> set (fst (getFolders e k s)). klass (heap s f) = KFolder"
proof -
  define S where "S = (\<lambda>x :: nat list \<times> ustate. queue_change s (snd x) \<and>
      (\<forall>f \<in> set (fst x). klass (heap s f) = KFolder))"
  have step: "S ((\<lambda>(fs, s) i.
         let (fs1, has) = walk_acc (heap s) (nextId s - i) (\<lambda>c (a, k). (a @ [c], Suc k))
               (\<lambda>_ c. new_folder (heap s c)) TypeFolder (\<lambda>(a, j) _. k \<le> length a) i (fs, 0);
             s1 = upd i (\<lambda>it. it\<lparr>createFolders := has\<rparr>) s
         in (fs1, setStatus e i (if has \<noteq> 0 then StFolders else StLoading) s1)) x i)"
    if i: "i \<in> set (sessions s)" and x: "S x" for x i
  proof -
    obtain a t where at: "x = (a, t)" by fastforce
    have t: "queue_change s t" using x at by (simp add: S_def)
    obtain fs1 has where w: "walk_acc (heap t) (nextId t - i) (\<lambda>c (a, k). (a @ [c], Suc k))
        (\<lambda>_ c. new_folder (heap t c)) TypeFolder (\<lambda>(a, j) _. k \<le> length a) i (a, 0) = (fs1, has)" by fastforce
    have k: "klass (heap t j) = klass (heap s j)" "sessions t = sessions s" for j
      using t by (simp_all add: queue_change_def forest_same_def)
    have "\<forall>f \<in> set (fst (walk_acc (heap t) (nextId t - i) (\<lambda>c (a, k). (a @ [c], Suc k))
        (\<lambda>_ c. new_folder (heap t c)) TypeFolder (\<lambda>(a, j) _. k \<le> length a) i (a, 0))).
          klass (heap t f) = KFolder"
      by (rule foldl_walk_induct [where P = "\<lambda>x. \<forall>f \<in> set (fst x). klass (heap t f) = KFolder"])
        (use x at i change_ok [OF t] assms in \<open>auto simp: k S_def\<close>)
    then have "\<forall>f \<in> set fs1. klass (heap s f) = KFolder" by (simp add: w k)
    moreover have "queue_change s (setStatus e i st (upd i (\<lambda>it. it\<lparr>createFolders := has\<rparr>) t))"
      if "queue_status st" for st
      by (rule change.R_trans [OF change.R_trans [OF t change.R_created] change.R_status [OF that]])
    ultimately show ?thesis by (simp add: at w S_def queue_status_def Let_def)
  qed
  have "S ([], s)" by (simp add: S_def change.R_refl)
  then have "S (getFolders e k s)"
    unfolding getFolders_def
    by (intro foldl_induct [where base = "sessions s" and P = S] step) simp_all
  then show ?thesis by (simp add: S_def)
qed

lemma monitor_processing [simp]: "processing (monitorProcessing i s) = processing s @ [i]"
  by (simp add: monitorProcessing_def Let_def)

lemma start_folders_processing:
  "out_all (\<lambda>t. \<exists>gs. set gs \<subseteq> set fs \<and> processing t = processing s @ gs) (start_folders e fs s)"
proof (induction fs arbitrary: s)
  case (Cons f fs)
  have "out_all (\<lambda>t. \<exists>gs. set gs \<subseteq> set fs \<and> processing t = (processing s @ [f]) @ gs)
      (start_folders e fs (monitorProcessing f (setStatus e f StLoading s)))"
    using Cons [of "monitorProcessing f (setStatus e f StLoading s)"] by simp
  then show ?case
    by (auto elim!: out_all_mono intro: exI [of _ "f # gs" for gs] split: option.split)
qed simp

text \<open>With no refused extension every item taken is started and stays under way.\<close>

lemma start_item_starts:
  assumes free: "\<And>l. \<not> refused e l"
    and p: "klass (heap t p) = KFile \<or> klass (heap t p) = KFolder \<and> isNew (heap t p)"
  shows "\<exists>u. start_item n e p t = Returned u \<and> queue_change t u \<and> processing u = processing t @ [p]"
proof -
  obtain b u where d: "doProcess e p (monitorProcessing p t) = (b, u)" by fastforce
  have "\<not> b"
    using p d free doProcess_new_folder [of "monitorProcessing p t" p e]
      doProcess_file_called [of "monitorProcessing p t" p e] by auto
  moreover have "processing u = processing t @ [p]"
    using doProcess_processing [where e = e and i = p and s = "monitorProcessing p t"] d by simp
  ultimately show ?thesis using start_item_not_called d change.R_doProcess_monitored(1) [OF d] by auto
qed

lemma start_items_processing:
  assumes free: "\<And>l. \<not> refused e l"
    and ps: "\<forall>p \<in> set ps. klass (heap s p) = KFile \<or> klass (heap s p) = KFolder \<and> isNew (heap s p)"
  shows "\<exists>u. for_each (start_item n e) ps s = Returned u \<and> queue_change s u \<and> processing u = processing s @ ps"
  using ps
proof (induction ps arbitrary: s)
  case (Cons p ps)
  obtain u where u: "start_item n e p s = Returned u" "queue_change s u" "processing u = processing s @ [p]"
    using start_item_starts [OF free, of s p] Cons.prems by auto
  have "\<forall>q \<in> set ps. klass (heap u q) = KFile \<or> klass (heap u q) = KFolder \<and> isNew (heap u q)"
    using Cons.prems u(2) by (simp add: queue_change_def forest_same_def)
  then show ?case using Cons.IH [of u] u change.R_trans [OF u(2)] by auto
qed (simp add: change.R_refl)

text \<open>A call puts under way nothing, folders to create, or the items taken.\<close>

lemma process_next_processing:
  assumes ok: "forest_ok s" and free: "\<And>l. \<not> refused e l"
    and gf: "getFolders e 60 s = (fs, s1)" and gn: "getNexts e 3 s1 = (ps, s2)"
  shows "out_all (\<lambda>t. (\<exists>gs. set gs \<subseteq> set fs \<and> processing t = processing s @ gs) \<or> processing t = processing s @ ps)
    (process_next (Suc n) e s)"
proof -
  note it = items_taken [OF gf gn]
  have "klass (heap s2 p) = KFile \<or> klass (heap s2 p) = KFolder \<and> isNew (heap s2 p)" if "p \<in> set ps" for p
    using getNexts_items [of s1 e 3] it(7,11) ok gn that by (auto simp: new_folder_def)
  then obtain u where u: "for_each (start_item n e) ps s2 = Returned u" "processing u = processing s @ ps"
    using start_items_processing [OF free, of ps s2] it(4) by auto
  have "out_all (\<lambda>t. \<exists>gs. set gs \<subseteq> set fs \<and> processing t = processing s @ gs) (create_folders e fs s1)"
    unfolding create_folders_def by (rule out_all_and_then [OF start_folders_processing]) (auto simp: it(3))
  then show ?thesis using u by (auto simp: process_next_Suc [OF gf gn] it(4) elim!: out_all_mono)
qed

lemma process_next_bound:
  assumes ok: "forest_ok s" and free: "\<And>l. \<not> refused e l"
    and b: "length (uploads s) \<le> 3"
  shows "out_all (\<lambda>t. length (uploads t) \<le> 3) (process_next n e s)"
proof (cases n)
  case (Suc m)
  obtain fs s1 where gf: "getFolders e 60 s = (fs, s1)" by fastforce
  obtain ps s2 where gn: "getNexts e 3 s1 = (ps, s2)" by fastforce
  note it = items_taken [OF gf gn]
  let ?files = "filter (\<lambda>i. klass (heap s i) = KFile)"
  have "?files gs = []" if "set gs \<subseteq> set fs" for gs
    using getFolders_items [OF ok, of e 60] gf that by (auto simp: filter_empty_conv)
  then have folders: "length (?files (processing s @ gs)) \<le> 3" if "set gs \<subseteq> set fs" for gs
    using b that by (simp add: uploads_def)
  have items: "length (?files (processing s @ ps)) \<le> 3"
  proof (cases "?files ps = []")
    case True
    then show ?thesis using b by (simp add: uploads_def)
  next
    case False
    then have "length ps + length (processing s) \<le> 3"
      using getNexts_items [of s1 e 3] it(3,9,11) ok gn by (auto simp: new_folder_def)
    then show ?thesis using length_filter_le [of "\<lambda>i. klass (heap s i) = KFile" "processing s @ ps"] by simp
  qed
  have "uploads t = ?files (processing t)" if "queue_change s t" for t
    using that by (simp add: uploads_def queue_change_def forest_same_def)
  then show ?thesis
    using process_next_processing [OF ok free gf gn, of m] change.R_process_next [of s "Suc m" e] folders items Suc
    by (cases "process_next n e s") auto
qed (simp add: process_next.simps)

section \<open>Errors\<close>

lemma count_matching_pos:
  "0 < count_matching f s \<longleftrightarrow> (\<exists>i \<in> set (sessions s). \<exists>c \<in> set (under s TypeBoth i). f (heap s c))"
proof -
  have "0 < foldl (\<lambda>items i. walk_acc (heap s) (nextId s - i) (\<lambda>_ k. Suc k) (\<lambda>_ c. f (heap s c)) TypeBoth
            (\<lambda>k _. Suc 0 \<le> k) i items) k is
      \<longleftrightarrow> 0 < k \<or> (\<exists>i \<in> set is. \<exists>c \<in> set (under s TypeBoth i). f (heap s c))" for k "is"
    by (induction "is" arbitrary: k) (auto simp: count_pos_iff under_def)
  from this [of 0 "sessions s"] show ?thesis by (simp add: count_matching_def)
qed

section \<open>A full queue\<close>

text \<open>
  With three items under way and no folder left to create, a call starts nothing. Items that
  never leave \<open>processing\<close> (folders whose creation failed) therefore stop the queue for good.
\<close>

lemma no_folder_left:
  assumes ok: "forest_ok s" and none: "\<And>c. klass (heap s c) = KFolder \<Longrightarrow> \<not> new_folder (heap s c)"
  shows "fst (getFolders e k s) = []" "next_folder s = []"
    "klass (heap (snd (getFolders e k s)) c) = KFolder \<Longrightarrow> \<not> new_folder (heap (snd (getFolders e k s)) c)"
proof -
  have i: "fst (walk_acc (heap t) m (\<lambda>c (a, k). (a @ [c], Suc k))
      (\<lambda>_ c. new_folder (heap t c)) TypeFolder (\<lambda>(a, j) _. k \<le> length a) i ([], 0)) = [] \<and>
      snd (walk_acc (heap t) m (\<lambda>c (a, k). (a @ [c], Suc k))
      (\<lambda>_ c. new_folder (heap t c)) TypeFolder (\<lambda>(a, j) _. k \<le> length a) i ([], 0)) = 0"
    if "i \<in> set (sessions t)" "forest_ok t" "\<And>c. klass (heap t c) = KFolder \<Longrightarrow> \<not> new_folder (heap t c)" for t i m
    by (rule foldl_walk_induct [OF that(2), where P = "\<lambda>x. fst x = [] \<and> snd x = 0"])
      (use that in auto)
  define S where "S = (\<lambda>x :: nat list \<times> ustate. queue_change s (snd x) \<and> fst x = [] \<and>
      (\<forall>c. klass (heap (snd x) c) = KFolder \<longrightarrow> \<not> new_folder (heap (snd x) c)))"
  have step: "S ((\<lambda>(fs, s) i.
         let (fs1, has) = walk_acc (heap s) (nextId s - i) (\<lambda>c (a, k). (a @ [c], Suc k))
               (\<lambda>_ c. new_folder (heap s c)) TypeFolder (\<lambda>(a, j) _. k \<le> length a) i (fs, 0);
             s1 = upd i (\<lambda>it. it\<lparr>createFolders := has\<rparr>) s
         in (fs1, setStatus e i (if has \<noteq> 0 then StFolders else StLoading) s1)) x j)"
    if j: "j \<in> set (sessions s)" and x: "S x" for x j
  proof -
    obtain t where x': "x = ([], t)" using x by (cases x) (auto simp: S_def)
    have t: "queue_change s t" "\<And>c. klass (heap t c) = KFolder \<Longrightarrow> \<not> new_folder (heap t c)"
      using x by (simp_all add: S_def x')
    have "sessions t = sessions s" using t(1) by (simp add: queue_change_def forest_same_def)
    then have w: "walk_acc (heap t) (nextId t - j) (\<lambda>c (a, k). (a @ [c], Suc k))
        (\<lambda>_ c. new_folder (heap t c)) TypeFolder (\<lambda>(a, j) _. k \<le> length a) j ([], 0) = ([], 0)"
      using i [of j t "nextId t - j"] j t change_ok [OF t(1)] ok by (simp add: prod_eq_iff)
    have "queue_change s (setStatus e j StLoading (upd j (\<lambda>it. it\<lparr>createFolders := 0\<rparr>) t))"
      by (rule change.R_trans [OF change.R_trans [OF t(1) change.R_created] change.R_status])
        (simp add: queue_status_def)
    moreover have "\<not> new_folder (heap t c)" if "klass (heap t c) = KFolder" for c
      using t(2) [OF that] .
    moreover have "\<not> new_folder (it\<lparr>createFolders := 0, status := StLoading\<rparr>)" for it :: item
      by (simp add: new_folder_def)
    ultimately show ?thesis by (simp add: x' w S_def)
  qed
  have "S ([], s)" using none by (simp add: S_def change.R_refl)
  then have "S (getFolders e k s)"
    unfolding getFolders_def
    by (intro foldl_induct [where base = "sessions s" and P = S] step) simp_all
  then show "fst (getFolders e k s) = []"
    "klass (heap (snd (getFolders e k s)) c) = KFolder \<Longrightarrow> \<not> new_folder (heap (snd (getFolders e k s)) c)"
    by (simp_all add: S_def)
  show "next_folder s = []" using next_folder_new [OF ok] none by (cases "next_folder s") auto
qed

lemma process_next_full:
  assumes ok: "forest_ok s" and none: "\<And>c. klass (heap s c) = KFolder \<Longrightarrow> \<not> new_folder (heap s c)"
    and full: "3 \<le> length (processing s)"
  shows "\<exists>t. process_next (Suc n) e s = Returned t \<and> requests t = requests s \<and> processing t = processing s"
proof -
  obtain fs s1 where gf: "getFolders e 60 s = (fs, s1)" by fastforce
  obtain ps s2 where gn: "getNexts e 3 s1 = (ps, s2)" by fastforce
  note it = items_taken [OF gf gn]
  have fs: "fs = []" using no_folder_left(1) [OF ok none, of e 60] gf by simp
  have "\<not> new_folder (heap s1 f)" if "klass (heap s1 f) = KFolder" for f
    using no_folder_left(3) [OF ok none, of e 60 f] that gf by simp
  moreover have "forest_ok s1" using it(11) ok by simp
  ultimately have "ps = [] \<or> length ps + length (processing s1) \<le> 3"
    using getNexts_items [of s1 e 3] gn by auto
  then have "ps = []" using full it(3) by (cases ps) auto
  then show ?thesis using fs it by (simp add: process_next_Suc [OF gf gn])
qed

end
