(* ===== verification/Systems.thy ===== *)
theory Systems
  imports Main
begin

text \<open>
  The contract of a component as a reactive system: it starts in some state and moves by the steps
  its callbacks make. What holds at the start and is kept by every step holds in every state it
  reaches. The uploader, the chat client, the metadata client, the migration page, the editors'
  tabs, the address book and the search are interpretations, each with its own invariant.
\<close>

inductive reach :: "('s \<Rightarrow> bool) \<Rightarrow> ('s \<Rightarrow> 's \<Rightarrow> bool) \<Rightarrow> 's \<Rightarrow> bool"
  for start :: "'s \<Rightarrow> bool" and step :: "'s \<Rightarrow> 's \<Rightarrow> bool" where
  started: "start s \<Longrightarrow> reach start step s"
| stepped: "reach start step s \<Longrightarrow> step s t \<Longrightarrow> reach start step t"

locale reactive_system =
  fixes start :: "'s \<Rightarrow> bool" and step :: "'s \<Rightarrow> 's \<Rightarrow> bool" and inv :: "'s \<Rightarrow> bool"
  assumes start_inv: "start s \<Longrightarrow> inv s"
    and step_inv: "inv s \<Longrightarrow> step s t \<Longrightarrow> inv t"
begin

lemma reached: "reach start step s \<Longrightarrow> inv s"
  by (induction rule: reach.induct) (blast intro: start_inv step_inv)+

text \<open>The invariant also holds on any history from a state where it holds.\<close>

lemma kept: "step\<^sup>*\<^sup>* s t \<Longrightarrow> inv s \<Longrightarrow> inv t"
  by (induction rule: rtranclp_induct) (blast intro: step_inv)+

end

end
