(* ===== verification/UploadEvents.thy ===== *)
theory UploadEvents
  imports UploadQueue Systems "HOL-Library.Multiset"
begin

text \<open>
  The upload queue as a reactive system. An \<open>event\<close> is an answer to a request under way, a due
  timer, a user command or an addition to the tree; \<open>handle\<close> is the callback the code runs for
  it, up to its end (JavaScript does not interleave them). \<open>ustep\<close> relates a state to the next
  one, whether the callback returns or throws, and \<open>reachable\<close> is its closure from a store
  without sessions. The invariants proved by rule induction: the tree is a forest of allocated
  items, an upload is tried at most twice, no callback fails to end and, when no extension is
  refused, at most three uploads are under way.
\<close>

section \<open>The callbacks\<close>

datatype event =
    Created "nat list" | CreateFailed "nat list"           \<comment> \<open>\<open>Store.processNext\<close>'s request\<close>
  | FolderMade nat | FolderLost nat                        \<comment> \<open>\<open>FolderItem._doProcess\<close>'s request\<close>
  | TimerDue nat nat | TransportReady nat nat
  | Progressed nat nat upload_progress
  | Uploaded nat nat string | Failed nat nat upload_error
  | UserPause | UserResume | UserClear status | UserClearAll | UserStop nat | UserRemove nat
  | AddSession string string | AddFolder string string nat
  | AddFile string nat string "string option" nat | SessionStatus nat status

definition answered :: "request \<Rightarrow> ustate \<Rightarrow> ustate" where
  "answered r s = s\<lparr>requests := remove1 r (requests s)\<rparr>"

text \<open>The first callback of \<open>createNodes\<close>, its error callback, and the promise with both.\<close>

definition folder_loaded :: "uenv \<Rightarrow> nat \<Rightarrow> ustate \<Rightarrow> ustate" where
  "folder_loaded e f s =
     unmonitorProcessing f
       (recomputeProgress e f (upd f (\<lambda>it. it\<lparr>pg := obj_set f 100 (pg it)\<rparr>) (setStatus e f StLoaded s)))"

definition nodes_failed :: "uenv \<Rightarrow> ustate \<Rightarrow> outcome" where
  "nodes_failed e s = and_then (processNext e s) (\<lambda>s1. Returned (post NUpdate s1))"

definition nodes_created :: "uenv \<Rightarrow> nat list \<Rightarrow> ustate \<Rightarrow> outcome" where
  "nodes_created e fs s =
     (case and_then (processNext e (fold (folder_loaded e) fs s)) (\<lambda>s1. Returned (post NUpdate s1)) of
        Threw t \<Rightarrow> nodes_failed e t
      | out \<Rightarrow> out)"

text \<open>An upload's callbacks: \<open>complete\<close>, \<open>retry(count)\<close> and the timer's function.\<close>

definition upload_done :: "uenv \<Rightarrow> nat \<Rightarrow> string \<Rightarrow> ustate \<Rightarrow> outcome" where
  "upload_done e i responseText s = complete_callback e i (upload_complete e i responseText s)"

definition upload_error :: "uenv \<Rightarrow> nat \<Rightarrow> nat \<Rightarrow> upload_error \<Rightarrow> ustate \<Rightarrow> outcome" where
  "upload_error e i attempt err s =
     (let (called, s1) = retry e i attempt (Some err) s
      in if called then complete_callback e i s1 else Returned s1)"

fun handle :: "uenv \<Rightarrow> event \<Rightarrow> ustate \<Rightarrow> outcome" where
  "handle e (Created fs) s = nodes_created e fs (answered (RCreateNodes fs) s)"
| "handle e (CreateFailed fs) s = nodes_failed e (answered (RCreateNodes fs) s)"
| "handle e (FolderMade i) s = complete_callback e i (folder_created e i (answered (RCreateFolder i) s))"
| "handle e (FolderLost i) s = Returned (answered (RCreateFolder i) s)"
| "handle e (TimerDue i c) s = Returned (uploadPresigned e i (Suc c) (answered (RTimer i c) s))"
| "handle e (TransportReady i c) s = Returned (transport_ready e i s)"
| "handle e (Progressed i c ev) s = Returned (upload_progress e i ev s)"
| "handle e (Uploaded i c txt) s = upload_done e i txt (answered (RUpload i c) s)"
| "handle e (Failed i c err) s = upload_error e i c err (answered (RUpload i c) s)"
| "handle e UserPause s = Returned (pauseStore e s)"
| "handle e UserResume s = resumeStore e s"
| "handle e (UserClear st) s = Returned (clearStatus e st s)"
| "handle e UserClearAll s = Returned (clearAll e s)"
| "handle e (UserStop i) s = Returned (stopOrRemoveItem e i s)"
| "handle e (UserRemove i) s = Returned (remove_item e i s)"
| "handle e (AddSession repo tgt) s = (let (i, s1) = newSession e repo tgt s in Returned (pushSession e i s1))"
| "handle e (AddFolder path tgt p) s = Returned (snd (newFolderItem e path tgt (Some p) s))"
| "handle e (AddFile n sz tgt rel p) s = Returned (snd (newUploadItem e n sz tgt rel (Some p) s))"
| "handle e (SessionStatus i st) s = set_session_status e i st s"

text \<open>Which events may come: answers to what is under way, additions under a folder or session.\<close>

definition container :: "nat \<Rightarrow> ustate \<Rightarrow> bool" where
  "container p s \<longleftrightarrow> p < nextId s \<and> klass (heap s p) \<noteq> KFile \<and> klass (heap s p) \<noteq> KPart"

fun enabled :: "event \<Rightarrow> ustate \<Rightarrow> bool" where
  "enabled (Created fs) s = (RCreateNodes fs \<in> set (requests s))"
| "enabled (CreateFailed fs) s = (RCreateNodes fs \<in> set (requests s))"
| "enabled (FolderMade i) s = (RCreateFolder i \<in> set (requests s))"
| "enabled (FolderLost i) s = (RCreateFolder i \<in> set (requests s))"
| "enabled (TimerDue i c) s = (RTimer i c \<in> set (requests s))"
| "enabled (TransportReady i c) s = (RUpload i c \<in> set (requests s))"
| "enabled (Progressed i c ev) s = (RUpload i c \<in> set (requests s))"
| "enabled (Uploaded i c txt) s = (RUpload i c \<in> set (requests s))"
| "enabled (Failed i c err) s = (RUpload i c \<in> set (requests s))"
| "enabled (AddFolder path tgt p) s = container p s"
| "enabled (AddFile n sz tgt rel p) s = container p s"
| "enabled (SessionStatus i st) s = (i \<in> set (sessions s))"
| "enabled _ s = True"

inductive ustep :: "uenv \<Rightarrow> ustate \<Rightarrow> event \<Rightarrow> ustate \<Rightarrow> bool" for e where
  returns: "enabled ev s \<Longrightarrow> handle e ev s = Returned t \<Longrightarrow> ustep e s ev t"
| throws: "enabled ev s \<Longrightarrow> handle e ev s = Threw t \<Longrightarrow> ustep e s ev t"

definition fresh :: "ustate \<Rightarrow> bool" where
  "fresh s \<longleftrightarrow> nextId s = 0 \<and> sessions s = [] \<and> processing s = [] \<and> requests s = [] \<and>
     (\<forall>i. folders (heap s i) = [] \<and> files (heap s i) = [])"

definition reachable :: "uenv \<Rightarrow> ustate \<Rightarrow> bool" where
  "reachable e = reach fresh (\<lambda>s t. \<exists>ev. ustep e s ev t)"

lemma reachable_start: "fresh s \<Longrightarrow> reachable e s"
  by (simp add: reachable_def reach.started)

lemma reachable_step: "reachable e s \<Longrightarrow> ustep e s ev t \<Longrightarrow> reachable e t"
  unfolding reachable_def by (blast intro: reach.stepped)

inductive_simps ustep_iff: "ustep e s ev t"
inductive_cases ustep_cases: "ustep e s ev t"

section \<open>Operations that only take away\<close>

text \<open>
  All operations but the queue and the constructors keep the items and their kinds, and can
  only shorten the children, the sessions, the requests and \<open>processing\<close>.
\<close>

definition reduces :: "ustate \<Rightarrow> ustate \<Rightarrow> bool" where
  "reduces s t \<longleftrightarrow> nextId t = nextId s \<and>
     (\<forall>j. klass (heap t j) = klass (heap s j) \<and> set (folders (heap t j)) \<subseteq> set (folders (heap s j))
        \<and> set (files (heap t j)) \<subseteq> set (files (heap s j))) \<and>
     set (sessions t) \<subseteq> set (sessions s) \<and> set (requests t) \<subseteq> set (requests s) \<and>
     mset (processing t) \<subseteq># mset (processing s)"

lemma reduces_refl [simp]: "reduces s s"
  by (simp add: reduces_def)

lemma reduces_trans: "reduces s t \<Longrightarrow> reduces t u \<Longrightarrow> reduces s u"
  unfolding reduces_def by (auto intro: subset_mset.order_trans) (blast+)

definition ids_ok :: "ustate \<Rightarrow> bool" where
  "ids_ok s \<longleftrightarrow> (\<forall>i \<in> set (processing s) \<union> set (sessions s). i < nextId s)"

definition wf :: "ustate \<Rightarrow> bool" where
  "wf s \<longleftrightarrow> forest_ok s \<and> ids_ok s \<and> attempts_ok s"

lemma mset_le_set: "mset xs \<subseteq># mset ys \<Longrightarrow> set xs \<subseteq> set ys"
  by (metis set_mset_mono set_mset_mset)

lemma reduces_wf:
  assumes r: "reduces s t" and w: "wf s"
  shows "wf t"
proof -
  have k: "klass (heap t j) = klass (heap s j)" "set (folders (heap t j)) \<subseteq> set (folders (heap s j))"
    "set (files (heap t j)) \<subseteq> set (files (heap s j))" "nextId t = nextId s" for j
    using r by (simp_all add: reduces_def)
  have n: "set (sessions t) \<subseteq> set (sessions s)" "set (requests t) \<subseteq> set (requests s)"
    "set (processing t) \<subseteq> set (processing s)"
    using r mset_le_set [of "processing t" "processing s"] by (simp_all add: reduces_def)
  have "tree_ok t" using w k unfolding wf_def forest_ok_def tree_ok_def by (metis UnE UnI1 UnI2 subsetD)
  moreover have "kinds_ok t"
    unfolding kinds_ok_def
  proof (intro conjI allI impI ballI)
    fix i c assume "klass (heap t i) \<noteq> KFile" "c \<in> set (files (heap t i))"
    then have "klass (heap s c) = KFile"
      using w kinds_ok_file [of s i c] k(1) [of i] k(3) [of i] by (auto simp: wf_def forest_ok_def)
    then show "klass (heap t c) = KFile" by (simp add: k)
  next
    fix i c assume "klass (heap t i) \<noteq> KFile" "c \<in> set (folders (heap t i))"
    then have "klass (heap s c) = KFolder"
      using w kinds_ok_folder [of s i c] k(1) [of i] k(2) [of i] by (auto simp: wf_def forest_ok_def)
    then show "klass (heap t c) = KFolder" by (simp add: k)
  next
    fix i assume "i \<in> set (sessions t)"
    then have "i \<in> set (sessions s)" using n by blast
    then have "klass (heap s i) = KSession"
      using w by (auto simp: wf_def forest_ok_def intro: kinds_ok_is_session)
    then show "klass (heap t i) = KSession" by (simp add: k)
  qed
  moreover have "ids_ok t" using w n k(4) unfolding wf_def ids_ok_def by auto
  moreover have "attempts_ok t" using w n unfolding wf_def attempts_ok_def by blast
  ultimately show ?thesis by (simp add: wf_def forest_ok_def)
qed

lemma reduces_uploads:
  assumes "reduces s t"
  shows "length (uploads t) \<le> length (uploads s)"
proof -
  have "filter_mset (\<lambda>i. klass (heap s i) = KFile) (mset (processing t))
      \<subseteq># filter_mset (\<lambda>i. klass (heap s i) = KFile) (mset (processing s))"
    using assms by (intro multiset_filter_mono) (simp add: reduces_def)
  then have "size (mset (filter (\<lambda>i. klass (heap s i) = KFile) (processing t)))
      \<le> size (mset (filter (\<lambda>i. klass (heap s i) = KFile) (processing s)))"
    unfolding mset_filter by (rule size_mset_mono)
  then have "length (filter (\<lambda>i. klass (heap s i) = KFile) (processing t))
      \<le> length (filter (\<lambda>i. klass (heap s i) = KFile) (processing s))"
    unfolding size_mset .
  then show ?thesis using assms by (simp add: uploads_def reduces_def)
qed

text \<open>A heap update that touches none of these fields.\<close>

lemma reduces_quiet:
  "nextId t = nextId s \<Longrightarrow> sessions t = sessions s \<Longrightarrow> processing t = processing s \<Longrightarrow> requests t = requests s \<Longrightarrow>
   (\<And>j. klass (heap t j) = klass (heap s j) \<and> folders (heap t j) = folders (heap s j)
      \<and> files (heap t j) = files (heap s j)) \<Longrightarrow> reduces s t"
  by (simp add: reduces_def)

lemma reduces_status [frame]: "reduces s (setStatus e i st s)"
  by (rule reduces_quiet) auto

lemma reduces_progress [frame]: "reduces s (setProgress e i v b s)"
  by (rule reduces_quiet) auto

lemma reduces_recompute [frame]: "reduces s (recomputeProgress e i s)"
  by (rule reduces_quiet) auto

lemma reduces_post [frame]: "reduces s (post n s)"
  by (rule reduces_quiet) auto

lemma reduces_task [frame]: "reduces s (run_task i f s)"
  by (rule reduces_quiet) auto

lemma reduces_upd:
  "(\<And>it. klass (f it) = klass it \<and> folders (f it) = folders it \<and> files (f it) = files it) \<Longrightarrow> reduces s (upd i f s)"
  by (rule reduces_quiet) auto

lemma reduces_error [frame]: "reduces s (onError e i m s)"
  unfolding onError_def by (rule reduces_trans [OF reduces_upd reduces_status]) simp

lemma reduces_same_tree:
  "same_tree s t \<Longrightarrow> sessions t = sessions s \<Longrightarrow> processing t = processing s \<Longrightarrow> requests t = requests s \<Longrightarrow> reduces s t"
  by (rule reduces_quiet) (simp_all add: same_tree_def)

lemma reduces_abort [frame]: "reduces s (abort e i s)"
  by (rule reduces_same_tree [OF same_tree_abort]) simp_all

lemma set_arrayWithout: "set (arrayWithout xs k) \<subseteq> set xs"
  by (auto simp: arrayWithout_def js_slice_def js_slice_from_def Let_def
      dest: in_set_takeD in_set_dropD)

lemma reduces_unmonitor [frame]: "reduces s (unmonitorProcessing i s)"
proof (cases "i \<in> set (processing s)")
  case True
  then show ?thesis
    by (auto simp: unmonitorProcessing_def reduces_def Let_def arrayWithout_indexOf)
next
  case False
  then have "js_indexOf (processing s) i = - 1" by (rule js_indexOf_absent)
  then show ?thesis by (simp add: unmonitorProcessing_def)
qed

lemma reduces_answered [frame]: "reduces s (answered r s)"
  by (auto simp: answered_def reduces_def dest: in_set_remove1 set_remove1_subset [THEN subsetD])

lemma reduces_fold: "(\<And>x t. reduces t (f x t)) \<Longrightarrow> reduces s (fold f xs s)"
  by (induction xs arbitrary: s) (auto intro: reduces_trans)

lemma reduces_foldl: "(\<And>x t. reduces t (f t x)) \<Longrightarrow> reduces s (foldl f s xs)"
  by (induction xs arbitrary: s) (auto intro: reduces_trans)

lemma reduces_walk: "(\<And>c t. reduces t (cb c t)) \<Longrightarrow> reduces s (walk_heap cb flt ty stp i s)"
  unfolding walk_heap_def
  by (rule walk_preserves [where P = "reduces s"]) (auto intro: reduces_trans)

lemma reduces_removeSession [frame]: "reduces s (removeSession e i s)"
proof -
  have "reduces (run_task i g s) ((run_task i g s)\<lparr>sessions := arrayWithout ss k\<rparr>)" if "ss = sessions s" for g ss k
    using set_arrayWithout [of ss k] that by (simp add: reduces_def)
  from reduces_trans [OF reduces_trans [OF reduces_task this] reduces_post] show ?thesis
    unfolding removeSession_def Let_def by simp
qed

lemma reduces_children_changed [frame]: "reduces s (children_changed e p s)"
  by (auto simp: children_changed_def intro: reduces_trans [OF reduces_removeSession reduces_post] reduces_post)

lemma reduces_removeChild [frame]: "reduces s (removeChild e p c s)"
proof -
  define s1 where "s1 = walk_heap (abort e) (\<lambda>_ _. True) TypeFile (\<lambda>_ _. False) c (abort e c s)"
  have 1: "reduces s s1" unfolding s1_def
    by (rule reduces_trans [OF reduces_abort reduces_walk]) (rule reduces_abort)
  have fo: "reduces t (upd p (\<lambda>it. it\<lparr>folders := arrayWithout (folders it) k\<rparr>) t)" for t k
    using set_arrayWithout [THEN subsetD] by (auto simp: reduces_def)
  have fi: "reduces t (upd p (\<lambda>it. it\<lparr>files := arrayWithout (files it) k\<rparr>) t)" for t k
    using set_arrayWithout [THEN subsetD] by (auto simp: reduces_def)
  have tail: "reduces t (children_changed e p (recomputeProgress e p
      (upd p (\<lambda>it. it\<lparr>pg := obj_del c (pg it)\<rparr>) (upd c (\<lambda>it. it\<lparr>watched := False\<rparr>) t))))" for t
    by (rule reduces_trans [OF reduces_trans [OF reduces_trans [OF reduces_upd reduces_upd]
          reduces_recompute] reduces_children_changed]) simp_all
  show ?thesis
    unfolding removeChild_def Let_def s1_def [symmetric]
    using 1 reduces_trans [OF reduces_trans [OF 1 fo] tail] reduces_trans [OF reduces_trans [OF 1 fi] tail]
    by auto
qed

lemma reduces_remove_item [frame]: "reduces s (remove_item e c s)"
  by (simp add: remove_item_def reduces_removeChild split: option.split)

lemma reduces_clearStatus [frame]: "reduces s (clearStatus e st s)"
  unfolding clearStatus_def by (rule reduces_foldl, rule reduces_walk, rule reduces_remove_item)

lemma reduces_clearAll [frame]: "reduces s (clearAll e s)"
proof -
  have p: "reduces t (post NUpdate (t\<lparr>pauseRequired := False\<rparr>))" for t
    by (rule reduces_quiet) auto
  show ?thesis
    unfolding clearAll_def Let_def
    by (rule reduces_trans [OF reduces_trans [OF reduces_clearStatus reduces_foldl] p])
      (rule reduces_trans [OF reduces_trans [OF reduces_walk reduces_task] reduces_removeSession],
       rule reduces_remove_item)
qed

lemma reduces_stop [frame]: "reduces s (stopOrRemoveItem e i s)"
  unfolding stopOrRemoveItem_def
  by (rule reduces_trans [OF reduces_trans [OF reduces_abort reduces_unmonitor] reduces_post])

end
