(* ===== verification/UploadInvariant.thy ===== *)
theory UploadInvariant
  imports UploadEvents
begin

text \<open>
  The invariants of the reactive system of \<open>UploadEvents\<close>: each callback keeps them, hence so do
  all reachable states. \<open>bounded e\<close> is the claim about concurrency; it needs that no extension is
  refused, because a refused file calls back in the middle of the loop that starts a batch.
\<close>

section \<open>The remaining operations that only take away\<close>

lemma reduces_pause [frame]: "reduces s (pause e i s)"
proof -
  have "reduces s (fold (\<lambda>p. setStatus e p StCannotPause) ps s)" for ps
    by (rule reduces_fold) (rule reduces_status)
  then show ?thesis
    by (auto simp: pause_def doPause_def Let_def split: option.splits xhr.splits
        intro: reduces_trans [OF _ reduces_status] reduces_status)
qed

lemma reduces_pauseStore [frame]: "reduces s (pauseStore e s)"
proof -
  have "reduces s (s\<lparr>pauseRequired := True\<rparr>)" by (rule reduces_quiet) auto
  then show ?thesis
    unfolding pauseStore_def Let_def
    by (rule reduces_trans [OF reduces_trans [OF _ reduces_fold] reduces_post]) (rule reduces_pause)
qed

lemma reduces_resume [frame]: "reduces s (resume e i s)"
  by (simp add: resume_def reduces_status)

lemma reduces_transport [frame]: "reduces s (transport_ready e i s)"
  unfolding transport_ready_def by (rule reduces_upd) simp

lemma reduces_part_progress [frame]: "reduces s (part_progress e i p ev s)"
proof -
  have a: "reduces s (setProgress e q v b (setStatus e p st s))" for q v b st
    by (rule reduces_trans [OF reduces_status reduces_progress])
  have b: "reduces s (setProgress e q v b (setStatus e i st' (setStatus e p st s)))" for q v b st st'
    by (rule reduces_trans [OF reduces_trans [OF reduces_status reduces_status] reduces_progress])
  show ?thesis by (simp add: part_progress_def Let_def a b reduces_progress)
qed

lemma reduces_upload_progress [frame]: "reduces s (upload_progress e i ev s)"
  by (auto simp: upload_progress_def Let_def split: option.split
      intro: reduces_progress reduces_trans [OF reduces_progress reduces_part_progress])

lemma reduces_upload_complete [frame]: "reduces s (upload_complete e i txt s)"
  by (auto simp: upload_complete_def Let_def intro: reduces_status reduces_trans [OF reduces_status reduces_error])

lemma reduces_folder_created [frame]: "reduces s (folder_created e i s)"
  unfolding folder_created_def
  by (rule reduces_trans [OF reduces_trans [OF reduces_status reduces_upd] reduces_recompute]) simp

lemma reduces_folder_loaded [frame]: "reduces s (folder_loaded e i s)"
  unfolding folder_loaded_def
  by (rule reduces_trans [OF reduces_trans [OF reduces_trans [OF reduces_status reduces_upd] reduces_recompute]
        reduces_unmonitor]) simp

lemma reduces_upload_failed [frame]: "reduces s (upload_failed e i err s)"
  by (simp add: upload_failed_def reduces_error)

section \<open>The invariant\<close>

definition unrestricted :: "uenv \<Rightarrow> bool" where
  "unrestricted e \<longleftrightarrow> pluginConfigs (config e) ''ALLOWED_EXTENSIONS'' = None"

definition bounded :: "uenv \<Rightarrow> ustate \<Rightarrow> bool" where
  "bounded e s \<longleftrightarrow> (unrestricted e \<longrightarrow> length (uploads s) \<le> 3)"

lemma kinds_ok_cong: "heap t = heap s \<Longrightarrow> sessions t = sessions s \<Longrightarrow> kinds_ok t = kinds_ok s"
  by (simp only: kinds_ok_def)

definition good :: "uenv \<Rightarrow> ustate \<Rightarrow> bool" where
  "good e s \<longleftrightarrow> wf s \<and> bounded e s"

lemma goodI: "tree_ok t \<Longrightarrow> kinds_ok t \<Longrightarrow> ids_ok t \<Longrightarrow> attempts_ok t \<Longrightarrow> bounded e t \<Longrightarrow> good e t"
  by (simp add: good_def wf_def forest_ok_def)

lemma goodD: "good e s \<Longrightarrow> tree_ok s \<and> kinds_ok s \<and> ids_ok s \<and> attempts_ok s \<and> bounded e s"
  by (simp add: good_def wf_def forest_ok_def)

lemma tree_ok_cong: "heap t = heap s \<Longrightarrow> nextId t = nextId s \<Longrightarrow> tree_ok t = tree_ok s"
  by (simp only: tree_ok_def)

lemma bounded_cong: "heap t = heap s \<Longrightarrow> processing t = processing s \<Longrightarrow> bounded e t = bounded e s"
  by (simp only: bounded_def uploads_def)

lemma unrestricted_free: "unrestricted e \<Longrightarrow> \<not> refused e l"
  by (simp add: unrestricted_def refused_def extension_unrestricted)

lemma reduces_good: "reduces s t \<Longrightarrow> good e s \<Longrightarrow> good e t"
  using reduces_wf reduces_uploads by (fastforce simp: good_def bounded_def)

text \<open>A callback that ends in a good state.\<close>

definition safe :: "uenv \<Rightarrow> outcome \<Rightarrow> bool" where
  "safe e out \<longleftrightarrow> out \<noteq> OutOfFuel \<and> out_all (good e) out"

lemma safe_returned [simp]: "safe e (Returned t) = good e t"
  by (simp add: safe_def)

lemma safe_and_then: "safe e out \<Longrightarrow> (\<And>t. good e t \<Longrightarrow> safe e (f t)) \<Longrightarrow> safe e (and_then out f)"
  by (cases out) (auto simp: safe_def)

lemma safe_for_each: "(\<And>x t. good e t \<Longrightarrow> safe e (f x t)) \<Longrightarrow> good e s \<Longrightarrow> safe e (for_each f xs s)"
  by (induction xs arbitrary: s) (auto intro: safe_and_then)

lemma good_post: "good e t \<Longrightarrow> good e (post n t)"
  by (rule reduces_good [OF reduces_post])

section \<open>The queue keeps it\<close>

lemma getFolders_ids:
  assumes "forest_ok s"
  shows "\<forall>f \<in> set (fst (getFolders e k s)). f < nextId s"
proof -
  define S where "S = (\<lambda>x :: nat list \<times> ustate. queue_change s (snd x) \<and> (\<forall>f \<in> set (fst x). f < nextId s))"
  have step: "S ((\<lambda>(fs, s) i.
         let (fs1, has) = walk_acc (heap s) (nextId s - i) (\<lambda>c (a, k). (a @ [c], Suc k))
               (\<lambda>_ c. new_folder (heap s c)) TypeFolder (\<lambda>(a, j) _. k \<le> length a) i (fs, 0);
             s1 = upd i (\<lambda>it. it\<lparr>createFolders := has\<rparr>) s
         in (fs1, setStatus e i (if has \<noteq> 0 then StFolders else StLoading) s1)) x i)"
    if i: "i \<in> set (sessions s)" and x: "S x" for x i
  proof -
    obtain a t where at: "x = (a, t)" by fastforce
    have t: "queue_change s t" using x at by (simp add: S_def)
    obtain fs1 has where w: "walk_acc (heap t) (nextId t - i) (\<lambda>c (a, k). (a @ [c], Suc k))
        (\<lambda>_ c. new_folder (heap t c)) TypeFolder (\<lambda>(a, j) _. k \<le> length a) i (a, 0) = (fs1, has)" by fastforce
    have k: "nextId t = nextId s" "sessions t = sessions s"
      using t by (simp_all add: queue_change_def forest_same_def)
    have "\<forall>f \<in> set (fst (walk_acc (heap t) (nextId t - i) (\<lambda>c (a, k). (a @ [c], Suc k))
        (\<lambda>_ c. new_folder (heap t c)) TypeFolder (\<lambda>(a, j) _. k \<le> length a) i (a, 0))). f < nextId t"
      by (rule foldl_walk_induct [where P = "\<lambda>x. \<forall>f \<in> set (fst x). f < nextId t"])
        (use x at i change_ok [OF t] assms in \<open>auto simp: k S_def\<close>)
    then have "\<forall>f \<in> set fs1. f < nextId s" unfolding w by (simp add: k)
    moreover have "queue_change s (setStatus e i st (upd i (\<lambda>it. it\<lparr>createFolders := has\<rparr>) t))"
      if "queue_status st" for st
      by (rule change.R_trans [OF change.R_trans [OF t change.R_created] change.R_status [OF that]])
    ultimately show ?thesis by (simp add: at w S_def queue_status_def Let_def)
  qed
  have "S ([], s)" by (simp add: S_def change.R_refl)
  then have "S (getFolders e k s)"
    unfolding getFolders_def
    by (intro foldl_induct [where base = "sessions s" and P = S] step) simp_all
  then show ?thesis by (simp add: S_def)
qed

lemma ids_change:
  "queue_change s t \<Longrightarrow> ids_ok s \<Longrightarrow> set (processing t) \<subseteq> set (processing s) \<union> {..< nextId s} \<Longrightarrow> ids_ok t"
  unfolding ids_ok_def queue_change_def forest_same_def by auto

lemma ids_ok_post [simp]: "ids_ok (post n s) = ids_ok s"
  by (simp add: ids_ok_def)

lemma unmonitor_set: "set (processing (unmonitorProcessing i s)) \<subseteq> set (processing s)"
  using reduces_unmonitor [of s i] mset_le_set by (auto simp: reduces_def)

lemma start_item_ids:
  assumes inner: "\<And>u. queue_change s u \<Longrightarrow> ids_ok u \<Longrightarrow> out_all ids_ok (process_next n e u)"
    and t: "queue_change s t" "ids_ok t" and p: "p < nextId s"
  shows "out_all (\<lambda>u. queue_change s u \<and> ids_ok u) (start_item n e p t)"
proof -
  obtain b u where d: "doProcess e p (monitorProcessing p t) = (b, u)" by fastforce
  note q = change.R_doProcess_monitored [OF d]
  have "processing u = processing t @ [p]"
    using doProcess_processing [where e = e and i = p and s = "monitorProcessing p t"] d by simp
  moreover have "nextId t = nextId s" using t(1) by (simp add: queue_change_def forest_same_def)
  ultimately have u: "ids_ok u" by (intro ids_change [OF q(1) t(2)]) (use p in auto)
  let ?v = "unmonitorProcessing p u"
  have "ids_ok ?v" by (rule ids_change [OF change.R_unmonitor u]) (use unmonitor_set in blast)
  then have "out_all ids_ok (process_next n e ?v)" by (rule inner [OF change.R_trans [OF t(1) q(2)]])
  moreover have "change.to_R s (start_item n e p t)" by (rule change.to_R_trans [OF t(1) start_item_keeps])
  moreover have "out_all ids_ok (start_item n e p t)"
    using u calculation(1) by (cases "process_next n e ?v") (simp_all add: start_item_def d)
  ultimately show ?thesis by (cases "start_item n e p t") simp_all
qed

lemma process_next_ids:
  "forest_ok s \<Longrightarrow> ids_ok s \<Longrightarrow> out_all ids_ok (process_next n e s)"
proof (induction n arbitrary: s)
  case (Suc n)
  obtain fs s1 where gf: "getFolders e 60 s = (fs, s1)" by fastforce
  obtain ps s2 where gn: "getNexts e 3 s1 = (ps, s2)" by fastforce
  note it = items_taken [OF gf gn]
  have i2: "ids_ok s2" by (rule ids_change [OF it(2) Suc.prems(2)]) (auto simp: it(4))
  have fs: "\<forall>f \<in> set fs. f < nextId s" using getFolders_ids [OF Suc.prems(1), of e 60] gf by simp
  have ps: "p < nextId s" if "p \<in> set ps" for p
    using getNexts_items [of s1 e 3] it(10,11) Suc.prems(1) gn that by auto
  let ?J = "\<lambda>u. queue_change s u \<and> ids_ok u"
  have "out_all ?J (start_item n e p t)" if "p \<in> set ps" "?J t" for p t
    by (rule start_item_ids) (use that ps Suc.IH change_ok Suc.prems(1) in auto)
  then have "out_all ?J (for_each (start_item n e) ps s2)"
    by (rule out_all_for_each [OF _ subset_refl]) (use it(2) i2 in simp_all)
  then have "out_all ids_ok (and_then (for_each (start_item n e) ps s2) (\<lambda>s5. Returned (post NUpdate s5)))"
    by (rule out_all_and_then) simp_all
  moreover have "change.to_R s (start_folders e fs s1)" by (rule change.to_R_trans [OF it(1) change.R_start_folders])
  then have "out_all ids_ok (start_folders e fs s1)"
    using start_folders_processing [of fs s1 e] ids_change [OF _ Suc.prems(2)] fs it(3)
    by (cases "start_folders e fs s1") fastforce+
  then have "out_all ids_ok (create_folders e fs s1)"
    unfolding create_folders_def by (rule out_all_and_then) (simp_all add: ids_ok_def)
  moreover have "ids_ok (nothing_left e s2)" using i2 by (simp add: ids_ok_def)
  ultimately show ?case by (simp add: process_next_Suc [OF gf gn])
qed (simp add: process_next.simps)

lemma processNext_safe:
  assumes "good e s"
  shows "safe e (processNext e s)"
proof -
  have w: "forest_ok s" "ids_ok s" "attempts_ok s" using assms by (simp_all add: good_def wf_def)
  have "change.to_R s (processNext e s)" unfolding processNext_def by (rule change.R_process_next)
  moreover have "attempts_kept.to_R s (processNext e s)"
    unfolding processNext_def by (rule attempts_kept.R_process_next)
  moreover have "out_all ids_ok (processNext e s)"
    unfolding processNext_def by (rule process_next_ids [OF w(1,2)])
  moreover have "out_all (bounded e) (processNext e s)"
  proof (cases "unrestricted e")
    case True
    have "length (uploads s) \<le> 3" using assms True by (simp add: good_def bounded_def)
    from process_next_bound [OF w(1) unrestricted_free [OF True] this]
    show ?thesis unfolding processNext_def by (rule out_all_mono) (simp add: bounded_def)
  next
    case False
    then show ?thesis by (cases "processNext e s") (simp_all add: bounded_def)
  qed
  moreover have "processNext e s \<noteq> OutOfFuel" using w(1) by (rule processNext_ends)
  ultimately show ?thesis
    using w by (cases "processNext e s")
      (simp_all add: safe_def good_def wf_def change_ok attempts_kept.to_R_def)
qed

section \<open>The callbacks keep it\<close>

lemma complete_callback_safe: "good e s \<Longrightarrow> safe e (complete_callback e i s)"
  unfolding complete_callback_def
  by (rule safe_and_then [OF processNext_safe]) (auto intro: good_post reduces_good [OF reduces_unmonitor])

definition attempt_ok :: "request \<Rightarrow> bool" where
  "attempt_ok r = (case r of RTimer i c \<Rightarrow> c < MAX_RETRIES | RUpload i c \<Rightarrow> 1 \<le> c \<and> c \<le> MAX_RETRIES | _ \<Rightarrow> True)"

lemma good_attempt: "good e s \<Longrightarrow> r \<in> set (requests s) \<Longrightarrow> attempt_ok r"
  by (auto simp: good_def wf_def attempts_ok_def attempt_ok_def)

lemma good_request:
  assumes "good e s" "attempt_ok r"
  shows "good e (s\<lparr>requests := requests s @ [r]\<rparr>)"
proof (rule goodI)
  let ?t = "s\<lparr>requests := requests s @ [r]\<rparr>"
  note old = goodD [OF assms(1)]
  show "tree_ok ?t" using old by (subst tree_ok_cong [of _ s]) simp_all
  show "kinds_ok ?t" using old by (subst kinds_ok_cong [of _ s]) simp_all
  show "ids_ok ?t" using old by (simp add: ids_ok_def)
  show "attempts_ok ?t" using old assms(2) by (simp add: attempts_ok_def attempt_ok_def)
  show "bounded e ?t" using old by (subst bounded_cong [of _ s]) simp_all
qed

lemma retry_good:
  assumes "good e s"
  shows "good e (snd (retry e i c err s))"
proof -
  have f: "good e (upload_failed e i er s)" for er using assms by (rule reduces_good [OF reduces_upload_failed])
  have t: "c < MAX_RETRIES \<Longrightarrow> good e (s\<lparr>requests := requests s @ [RTimer i c]\<rparr>)"
    using assms by (intro good_request) (auto simp: attempt_ok_def)
  show ?thesis
    using assms f t by (auto simp: retry_def not_le split: option.split upload_error.split)
qed

lemma upload_error_safe: "good e s \<Longrightarrow> safe e (upload_error e i c err s)"
  using retry_good [of e s i c "Some err"] complete_callback_safe
  by (auto simp: upload_error_def split: prod.split)

lemma uploadPresigned_good:
  assumes "good e s" "1 \<le> c" "c \<le> MAX_RETRIES"
  shows "good e (uploadPresigned e i c s)"
proof -
  have "good e (setProgress e i 0 None (setStatus e i StError s))"
    by (rule reduces_good [OF reduces_trans [OF reduces_status reduces_progress] assms(1)])
  moreover have "good e (s\<lparr>requests := requests s @ [RUpload i c]\<rparr>)"
    using assms by (intro good_request) (auto simp: attempt_ok_def)
  ultimately show ?thesis by (simp add: uploadPresigned_def split: option.split)
qed

lemma nodes_failed_safe: "good e s \<Longrightarrow> safe e (nodes_failed e s)"
  unfolding nodes_failed_def by (rule safe_and_then [OF processNext_safe]) (auto intro: good_post)

lemma nodes_created_safe:
  assumes "good e s"
  shows "safe e (nodes_created e fs s)"
proof -
  have "good e (fold (folder_loaded e) fs s)"
    by (rule reduces_good [OF reduces_fold assms]) (rule reduces_folder_loaded)
  then have "safe e (and_then (processNext e (fold (folder_loaded e) fs s)) (\<lambda>s1. Returned (post NUpdate s1)))"
    by (intro safe_and_then [OF processNext_safe]) (auto intro: good_post)
  then show ?thesis
    using nodes_failed_safe
    by (cases "and_then (processNext e (fold (folder_loaded e) fs s)) (\<lambda>s1. Returned (post NUpdate s1))")
      (simp_all add: nodes_created_def safe_def)
qed

lemma set_session_status_safe:
  assumes "good e s"
  shows "safe e (set_session_status e i st s)"
proof -
  have g: "good e (setStatus e i st s)" by (rule reduces_good [OF reduces_status assms])
  then show ?thesis
    unfolding set_session_status_def Let_def by (auto intro: processNext_safe good_post)
qed

lemma resumeStore_safe:
  assumes "good e s"
  shows "safe e (resumeStore e s)"
proof -
  have g: "good e (s\<lparr>pauseRequired := False\<rparr>)"
    by (rule reduces_good [OF _ assms], rule reduces_quiet) auto
  have r: "reduces t (fold (resume e) ps t)" for t ps
    by (rule reduces_fold) (rule reduces_resume)
  show ?thesis
    unfolding resumeStore_def Let_def
    by (rule safe_and_then [OF safe_for_each [OF set_session_status_safe g]])
      (auto intro!: processNext_safe good_post reduces_good [OF r])
qed

section \<open>The constructors keep it\<close>

definition alloc :: "item \<Rightarrow> ustate \<Rightarrow> ustate" where
  "alloc it s = s\<lparr>heap := (heap s)(nextId s := it), nextId := Suc (nextId s)\<rparr>"

lemma good_alloc:
  assumes g: "good e s" and it: "folders it = []" "files it = []"
  shows "good e (alloc it s)"
proof -
  have old: "tree_ok s" "kinds_ok s" "ids_ok s" "attempts_ok s" "bounded e s"
    using g by (simp_all add: good_def wf_def forest_ok_def)
  have t: "tree_ok (alloc it s)"
    unfolding tree_ok_def
  proof (intro allI ballI)
    fix i c assume c: "c \<in> set (folders (heap (alloc it s) i)) \<union> set (files (heap (alloc it s) i))"
    then have "i \<noteq> nextId s" using it by (auto simp: alloc_def)
    then have "i < c \<and> c < nextId s" using c old(1) by (simp add: tree_ok_def alloc_def)
    then show "i < c \<and> c < nextId (alloc it s)" by (simp add: alloc_def)
  qed
  have "kinds_ok (alloc it s)"
    unfolding kinds_ok_def
  proof (intro conjI allI impI ballI)
    fix i c assume "klass (heap (alloc it s) i) \<noteq> KFile" "c \<in> set (files (heap (alloc it s) i))"
    moreover from this have "i \<noteq> nextId s" using it by (auto simp: alloc_def)
    ultimately have "klass (heap s i) \<noteq> KFile" "c \<in> set (files (heap s i))" by (simp_all add: alloc_def)
    then have "klass (heap s c) = KFile" "c < nextId s"
      using kinds_ok_file [OF old(2)] tree_ok_child [OF old(1), of c i] by auto
    then show "klass (heap (alloc it s) c) = KFile" by (simp add: alloc_def)
  next
    fix i c assume "klass (heap (alloc it s) i) \<noteq> KFile" "c \<in> set (folders (heap (alloc it s) i))"
    moreover from this have "i \<noteq> nextId s" using it by (auto simp: alloc_def)
    ultimately have "klass (heap s i) \<noteq> KFile" "c \<in> set (folders (heap s i))" by (simp_all add: alloc_def)
    then have "klass (heap s c) = KFolder" "c < nextId s"
      using kinds_ok_folder [OF old(2)] tree_ok_child [OF old(1), of c i] by auto
    then show "klass (heap (alloc it s) c) = KFolder" by (simp add: alloc_def)
  next
    fix i assume "i \<in> set (sessions (alloc it s))"
    then have "klass (heap s i) = KSession" "i < nextId s"
      using kinds_ok_is_session [OF old(2)] old(3) by (simp_all add: alloc_def ids_ok_def)
    then show "klass (heap (alloc it s) i) = KSession" by (simp add: alloc_def)
  qed
  moreover have "uploads (alloc it s) = uploads s"
    using old(3) by (auto simp: uploads_def alloc_def ids_ok_def intro!: filter_cong)
  moreover have "ids_ok (alloc it s)" using old(3) by (auto simp: ids_ok_def alloc_def less_Suc_eq)
  moreover have "attempts_ok (alloc it s)" using old(4) by (simp add: attempts_ok_def alloc_def)
  ultimately show ?thesis using t old(5) by (simp add: good_def wf_def forest_ok_def bounded_def)
qed

text \<open>Attaching an allocated item under an older one: a folder or file under a container, a part under a file.\<close>

definition attach :: "klass \<Rightarrow> nat \<Rightarrow> nat \<Rightarrow> ustate \<Rightarrow> ustate" where
  "attach k p c = upd p (\<lambda>it. if k = KFolder then it\<lparr>folders := folders it @ [c]\<rparr> else it\<lparr>files := files it @ [c]\<rparr>)"

lemma good_attach:
  assumes g: "good e s" and pc: "p < c" "c < nextId s"
    and k: "k = KFolder \<Longrightarrow> klass (heap s c) = KFolder"
      "k \<noteq> KFolder \<Longrightarrow> klass (heap s c) = KFile \<or> klass (heap s p) = KFile"
  shows "good e (attach k p c s)"
proof -
  have old: "tree_ok s" "kinds_ok s" "ids_ok s" "attempts_ok s" "bounded e s"
    using g by (simp_all add: good_def wf_def forest_ok_def)
  have kl: "klass (heap (attach k p c s) j) = klass (heap s j)" for j by (simp add: attach_def)
  have "tree_ok (attach k p c s)"
    unfolding tree_ok_def
  proof (intro allI ballI)
    fix i d assume d: "d \<in> set (folders (heap (attach k p c s) i)) \<union> set (files (heap (attach k p c s) i))"
    then have "d \<in> set (folders (heap s i)) \<union> set (files (heap s i)) \<or> (i = p \<and> d = c)"
      by (auto simp: attach_def split: if_splits)
    then show "i < d \<and> d < nextId (attach k p c s)"
      using old(1) pc by (auto simp: tree_ok_def attach_def)
  qed
  moreover have "kinds_ok (attach k p c s)"
    unfolding kinds_ok_def kl
  proof (intro conjI allI impI ballI)
    fix i d assume "klass (heap s i) \<noteq> KFile" "d \<in> set (files (heap (attach k p c s) i))"
    then show "klass (heap s d) = KFile"
      using kinds_ok_file [OF old(2), of i d] k(2) by (auto simp: attach_def split: if_splits)
  next
    fix i d assume "klass (heap s i) \<noteq> KFile" "d \<in> set (folders (heap (attach k p c s) i))"
    then show "klass (heap s d) = KFolder"
      using kinds_ok_folder [OF old(2), of i d] k(1) by (auto simp: attach_def split: if_splits)
  next
    fix i assume "i \<in> set (sessions (attach k p c s))"
    then show "klass (heap s i) = KSession" using kinds_ok_is_session [OF old(2)] by (simp add: attach_def)
  qed
  moreover have "uploads (attach k p c s) = uploads s" by (simp add: uploads_def kl) (simp add: attach_def)
  ultimately show ?thesis
    using old(3-5) by (simp add: good_def wf_def forest_ok_def bounded_def ids_ok_def attempts_ok_def attach_def)
qed

lemma newStatusItem_some:
  "newStatusItem e k tgt (Some p) s =
     (nextId s, attach k p (nextId s) (alloc (blank_item k tgt (repositoryId (heap s p)) (Some p)) s))"
  by (simp add: newStatusItem_def attach_def alloc_def Let_def)

lemma good_newStatusItem:
  assumes g: "good e s" and p: "p < nextId s"
    and k: "k = KFolder \<or> k = KFile \<or> (k = KPart \<and> klass (heap s p) = KFile)"
  shows "good e (snd (newStatusItem e k tgt (Some p) s))"
  unfolding newStatusItem_some snd_conv
  by (rule good_attach [OF good_alloc [OF g]]) (use p k in \<open>auto simp: alloc_def blank_item_def\<close>)

lemma newStatusItem_frame:
  assumes "newStatusItem e k tgt (Some p) s = (i, t)" "p < nextId s"
  shows "i = nextId s" "nextId t = Suc (nextId s)" "klass (heap t i) = k"
    "j < nextId s \<Longrightarrow> klass (heap t j) = klass (heap s j)"
  using assms by (auto simp: newStatusItem_some attach_def alloc_def blank_item_def)

lemma reduces_addChild: "reduces s (addChild p c s)"
  unfolding addChild_def by (rule reduces_trans [OF reduces_upd reduces_upd]) simp_all

lemma good_newFolderItem:
  assumes "good e s" "p < nextId s"
  shows "good e (snd (newFolderItem e path tgt (Some p) s))"
proof -
  obtain i s1 where n: "newStatusItem e KFolder tgt (Some p) s = (i, s1)" by fastforce
  have "good e s1" using good_newStatusItem [OF assms, of KFolder tgt] n by simp
  moreover have "reduces s1 (addChild p i
      (upd i (\<lambda>it. it\<lparr>isNew := True, label := getBasename path, pg := obj_set i 0 (pg it)\<rparr>) s1))"
    by (rule reduces_trans [OF reduces_upd reduces_addChild]) simp
  ultimately have "good e (addChild p i
      (upd i (\<lambda>it. it\<lparr>isNew := True, label := getBasename path, pg := obj_set i 0 (pg it)\<rparr>) s1))"
    by (rule reduces_good [rotated])
  then show ?thesis by (simp add: newFolderItem_def n)
qed

lemma good_push_parts:
  "good e s \<Longrightarrow> p < nextId s \<Longrightarrow> klass (heap s p) = KFile \<Longrightarrow> good e (push_parts e p ks s)"
proof (induction ks arbitrary: s)
  case (Cons k ks)
  obtain i s1 where n: "newStatusItem e KPart [] (Some p) s = (i, s1)" by fastforce
  define s2 where "s2 = upd p (\<lambda>it. it\<lparr>parts := Some (case parts it of None \<Rightarrow> [i] | Some cs \<Rightarrow> cs @ [i])\<rparr>)
      (upd i (\<lambda>it. it\<lparr>label := ''Part '' @ nat_str (k + 1)\<rparr>) s1)"
  have "good e s1" using good_newStatusItem [OF Cons.prems(1,2), of KPart "[]"] Cons.prems(3) n by simp
  moreover have "reduces s1 s2" unfolding s2_def
    by (rule reduces_trans [OF reduces_upd reduces_upd]) simp_all
  ultimately have "good e s2" by (rule reduces_good [rotated])
  moreover have "p < nextId s2" "klass (heap s2 p) = KFile"
    using newStatusItem_frame [OF n Cons.prems(2)] Cons.prems by (auto simp: s2_def)
  ultimately have "good e (push_parts e p ks s2)" by (rule Cons.IH)
  then show ?case by (simp add: newPartItem_def n s2_def)
qed simp

lemma good_newUploadItem:
  assumes "good e s" "p < nextId s"
  shows "good e (snd (newUploadItem e nm sz tgt rel (Some p) s))"
proof -
  obtain i s1 where n: "newStatusItem e KFile tgt (Some p) s = (i, s1)" by fastforce
  define s2 where "s2 = upd i (\<lambda>it. it\<lparr>fsize := sz, status := StNew,
      label := (case rel of Some r \<Rightarrow> if r \<noteq> [] then getBasename r else nm | None \<Rightarrow> nm)\<rparr>) s1"
  have "good e s1" using good_newStatusItem [OF assms, of KFile tgt] n by simp
  moreover have "reduces s1 s2" unfolding s2_def by (rule reduces_upd) simp
  ultimately have g2: "good e s2" by (rule reduces_good [rotated])
  define s3 where "s3 = upd i (\<lambda>it. it\<lparr>parts := Some []\<rparr>) s2"
  have "reduces s2 s3" unfolding s3_def by (rule reduces_upd) simp
  then have g3: "good e s3" using g2 by (rule reduces_good)
  have "i < nextId s3" "klass (heap s3 i) = KFile"
    using newStatusItem_frame [OF n assms(2)] by (auto simp: s3_def s2_def)
  then have "good e (push_parts e i ks s3)" for ks by (rule good_push_parts [OF g3])
  then have "good e (addChild p i (if sz > multipartThreshold e then createParts e i s2 else s2))"
    using g2 by (intro reduces_good [OF reduces_addChild]) (simp add: createParts_def s3_def)
  then show ?thesis unfolding newUploadItem_def n s2_def Let_def by simp
qed

lemma newSession_alloc:
  "\<exists>it. newSession e repo tgt s = (nextId s, alloc it s) \<and> folders it = [] \<and> files it = [] \<and> klass it = KSession"
  by (rule exI [of _ "(blank_item KSession tgt repo None)\<lparr>isNew := True, label := getBasename ''/'', status := StAnalyse\<rparr>"])
    (simp add: newSession_def newFolderItem_def newStatusItem_def alloc_def upd_def Let_def blank_item_def
     )

lemma good_pushSession:
  assumes g: "good e s" and i: "i < nextId s" "klass (heap s i) = KSession"
  shows "good e (pushSession e i s)"
proof -
  note old = goodD [OF g]
  have "good e (s\<lparr>sessions := sessions s @ [i]\<rparr>)" (is "good e ?t")
  proof (rule goodI)
    show "tree_ok ?t" using old by (subst tree_ok_cong [of _ s]) simp_all
    show "kinds_ok ?t" 
      unfolding kinds_ok_def
    proof (intro conjI allI impI ballI)
      fix j c assume "klass (heap ?t j) \<noteq> KFile" "c \<in> set (files (heap ?t j))"
      then show "klass (heap ?t c) = KFile" using kinds_ok_file [of s j c] old by simp
    next
      fix j c assume "klass (heap ?t j) \<noteq> KFile" "c \<in> set (folders (heap ?t j))"
      then show "klass (heap ?t c) = KFolder" using kinds_ok_folder [of s j c] old by simp
    next
      fix j assume "j \<in> set (sessions ?t)"
      then show "klass (heap ?t j) = KSession" using kinds_ok_is_session [of s j] old i(2) by auto
    qed
    show "ids_ok ?t" using old i(1) by (simp add: ids_ok_def ball_Un)
    show "attempts_ok ?t" using old by (simp add: attempts_ok_def)
    show "bounded e ?t" using old by (subst bounded_cong [of _ s]) simp_all
  qed
  moreover have "reduces (s\<lparr>sessions := sessions s @ [i]\<rparr>) (pushSession e i s)"
    by (rule reduces_quiet) (auto simp: pushSession_def Let_def split: prod.split)
  ultimately show ?thesis using reduces_good by blast
qed

section \<open>Every reachable state\<close>

lemma handle_safe:
  assumes g: "good e s" and en: "enabled ev s"
  shows "safe e (handle e ev s)"
proof -
  have a: "good e (answered r s)" for r by (rule reduces_good [OF reduces_answered g])
  note keep = reduces_good [OF _ g]
  show ?thesis
  proof (cases ev)
    case (TimerDue i c)
    then have "c < MAX_RETRIES" using good_attempt [OF g, of "RTimer i c"] en by (simp add: attempt_ok_def)
    then show ?thesis using TimerDue a by (simp add: uploadPresigned_good)
  next
    case (AddSession repo tgt)
    obtain it where n: "newSession e repo tgt s = (nextId s, alloc it s)" "folders it = []" "files it = []"
      "klass it = KSession" using newSession_alloc by blast
    have "good e (pushSession e (nextId s) (alloc it s))"
      by (rule good_pushSession [OF good_alloc [OF g n(2,3)]]) (simp_all add: alloc_def n(4))
    then show ?thesis using AddSession n(1) by simp
  next
    case (FolderMade i)
    then show ?thesis using complete_callback_safe [OF reduces_good [OF reduces_folder_created a]] by simp
  next
    case (Uploaded i c resp)
    then show ?thesis
      using complete_callback_safe [OF reduces_good [OF reduces_upload_complete a]] by (simp add: upload_done_def)
  qed (insert en, simp_all add: a g keep nodes_created_safe nodes_failed_safe upload_error_safe resumeStore_safe
      set_session_status_safe reduces_transport reduces_upload_progress reduces_pauseStore reduces_clearStatus
      reduces_clearAll reduces_stop reduces_remove_item good_newFolderItem good_newUploadItem container_def)
qed

lemma fresh_good: "fresh s \<Longrightarrow> good e s"
  by (simp add: fresh_def good_def wf_def forest_ok_def tree_ok_def kinds_ok_def ids_ok_def attempts_ok_def
      bounded_def uploads_def)

lemma step_good:
  assumes "good e s" "ustep e s ev t"
  shows "good e t"
  using assms(2)
proof (cases rule: ustep.cases)
  case returns
  then show ?thesis using handle_safe [OF assms(1) returns(1)] by (simp add: safe_def)
next
  case throws
  then show ?thesis using handle_safe [OF assms(1) throws(1)] by (simp add: safe_def)
qed

interpretation uploader: reactive_system fresh "\<lambda>s t. \<exists>ev. ustep e s ev t" "good e" for e
  by unfold_locales (auto intro: fresh_good step_good)

lemma reachable_good: "reachable e s \<Longrightarrow> good e s"
  unfolding reachable_def by (rule uploader.reached)

end
