(* ===== verification/UploadProgress.thy ===== *)
theory UploadProgress
  imports UploadQueue
begin

text \<open>
  What one call of \<open>Store.processNext\<close> starts once the folders exist: \<open>getNexts\<close> hands out the
  first startable files in the order of the tree, as many as there is room for, and each of
  them gets its upload timer.
\<close>

section \<open>The files handed out\<close>

definition startable_files :: "ustate \<Rightarrow> nat list" where
  "startable_files s =
     filter (\<lambda>c. startable (heap s c)) (concat (map (under s TypeFile) (sessions s)))"

lemma room: "(k \<le> length a + busy) = (k - busy \<le> length a)" for a :: "nat list" and k busy :: nat
  by auto

lemma getNexts_files:
  assumes "next_folder s = []"
  shows "fst (getNexts e k s) = take (k - length (processing s)) (startable_files s)"
proof -
  define L where "L = k - length (processing s)"
  define body where "body = (\<lambda>(items, s') i.
      let items1 = walk_acc (heap s') (nextId s' - i) (\<lambda>c a. a @ [c])
            (\<lambda>_ c. startable (heap s' c)) TypeFile (\<lambda>a _. k \<le> length a + length (processing s)) i items
      in (items1, if length items1 = length items \<and> length (processing s) = 0
                  then run_task i (setIdle (clock e) i) s' else s'))"
  have "fst (foldl body (a, t) is) = take L (a @ filter (\<lambda>c. startable (heap s c)) (concat (map (under s TypeFile) is)))"
    if "heap t = heap s" "nextId t = nextId s" "length a \<le> L" for t a "is"
    using that
  proof (induction "is" arbitrary: a t)
    case (Cons i "is")
    let ?more = "filter (\<lambda>c. startable (heap s c)) (under s TypeFile i)"
    have w: "walk_acc (heap s) (nextId s - i) (\<lambda>c a. a @ [c]) (\<lambda>_ c. startable (heap s c)) TypeFile
        (\<lambda>a _. k \<le> length a + length (processing s)) i a = take L (a @ ?more)"
      using collect_take [OF Cons.prems(3), of "heap s" "nextId s - i" "\<lambda>c. startable (heap s c)" i]
      by (simp only: room L_def under_def)
    obtain t' where b: "body (a, t) i = (take L (a @ ?more), t')" "heap t' = heap s" "nextId t' = nextId s"
      by (rule that [of "if length (take L (a @ ?more)) = length a \<and> length (processing s) = 0
            then run_task i (setIdle (clock e) i) t else t"])
        (simp_all only: body_def prod.case Cons.prems(1,2) w Let_def if_run_task_sel)
    have len: "length (take L (a @ ?more)) \<le> L" by simp
    show ?case
      by (simp only: foldl_Cons b(1) Cons.IH [OF b(2,3) len] take_take_append list.map concat.simps
          filter_append append.assoc)
  qed simp
  from this [of s "[]" "sessions s"] show ?thesis
    using assms by (simp add: getNexts_def body_def L_def startable_files_def Let_def)
qed

section \<open>The tree after getFolders\<close>

lemma preorder_cong:
  assumes "\<And>j. folders (g j) = folders (h j) \<and> files (g j) = files (h j)"
  shows "preorder g ty n i = preorder h ty n i"
  by (induction n arbitrary: i) (use assms in auto)

lemma getFolders_others:
  assumes "j \<notin> set (sessions s)"
  shows "heap (snd (getFolders e k s)) j = heap s j"
proof -
  define P where "P = (\<lambda>x :: nat list \<times> ustate. heap (snd x) j = heap s j)"
  have "P (getFolders e k s)"
    unfolding getFolders_def
  proof (rule foldl_induct [where base = "sessions s" and P = P], goal_cases)
    case (1 x i)
    then show ?case using assms by (cases x) (auto simp: P_def Let_def split: prod.split)
  qed (simp_all add: P_def)
  then show ?thesis by (simp add: P_def)
qed

lemma under_files:
  assumes "forest_ok s" "i \<in> set (sessions s)" "c \<in> set (under s TypeFile i)"
  shows "klass (heap s c) = KFile"
proof -
  have k: "kinds_ok s" using assms(1) by (simp add: forest_ok_def)
  have "c \<in> set (preorder (heap s) TypeFile n i) \<Longrightarrow> klass (heap s i) \<noteq> KFile \<Longrightarrow> klass (heap s c) = KFile" for n i
  proof (induction n arbitrary: i)
    case (Suc n)
    consider "c \<in> set (files (heap s i))"
      | f where "f \<in> set (folders (heap s i))" "c \<in> set (preorder (heap s) TypeFile n f)"
      using Suc.prems(1) by auto
    then show ?case
      using kinds_ok_file [OF k Suc.prems(2)] kinds_ok_folder [OF k Suc.prems(2)] Suc.IH by cases auto
  qed simp
  then show ?thesis using assms kinds_ok_session [OF k] by (auto simp: under_def)
qed

lemma startable_files_file:
  "forest_ok s \<Longrightarrow> c \<in> set (startable_files s) \<Longrightarrow> klass (heap s c) = KFile \<and> startable (heap s c)"
  by (auto simp: startable_files_def dest: under_files)

lemma startable_files_getFolders:
  assumes ok: "forest_ok s"
  shows "startable_files (snd (getFolders e k s)) = startable_files s"
proof -
  let ?t = "snd (getFolders e k s)"
  have q: "queue_change s ?t" by (rule change.R_getFolders)
  then have same: "sessions ?t = sessions s" "under ?t ty i = under s ty i" for ty i
    unfolding under_def by (auto simp: queue_change_def forest_same_def intro!: preorder_cong)
  have "startable (heap ?t c) = startable (heap s c)" if "i \<in> set (sessions s)" "c \<in> set (under s TypeFile i)" for i c
  proof -
    have "c \<notin> set (sessions s)"
      using under_files [OF ok that] kinds_ok_is_session [of s c] ok by (auto simp: forest_ok_def)
    then show ?thesis by (simp add: getFolders_others)
  qed
  then show ?thesis
    unfolding startable_files_def same by (intro filter_cong) auto
qed

section \<open>Starting them\<close>

lemma doProcess_file_starts:
  assumes "klass (heap s p) = KFile" "\<not> refused e (label (heap s p))"
  shows "\<exists>t. doProcess e p s = (False, t) \<and> requests t = requests s @ [RTimer p 0] \<and> processing t = processing s"
  using assms
  by (simp add: doProcess_def doProcess_file_def retry_def refused_def Let_def MAX_RETRIES_def)

lemma start_files:
  assumes free: "\<And>l. \<not> refused e l"
  shows "\<forall>p \<in> set ps. klass (heap s p) = KFile \<Longrightarrow>
    \<exists>t. for_each (start_item n e) ps s = Returned t \<and> requests t = requests s @ map (\<lambda>p. RTimer p 0) ps
      \<and> processing t = processing s @ ps"
proof (induction ps arbitrary: s)
  case (Cons p ps)
  obtain t where d: "doProcess e p (monitorProcessing p s) = (False, t)"
      "requests t = requests s @ [RTimer p 0]" "processing t = processing s @ [p]"
    using doProcess_file_starts [of "monitorProcessing p s" p e] free Cons.prems
    by (auto simp: monitorProcessing_def Let_def)
  have "\<forall>q \<in> set ps. klass (heap t q) = KFile"
    using change.R_doProcess_monitored(1) [OF d(1)] Cons.prems by (simp add: queue_change_def forest_same_def)
  then show ?case using Cons.IH [of t] d(2,3) start_item_not_called [OF d(1)] by auto
qed simp

lemma process_next_files:
  assumes ok: "forest_ok s" and none: "\<And>c. klass (heap s c) = KFolder \<Longrightarrow> \<not> new_folder (heap s c)"
    and free: "\<And>l. \<not> refused e l" and go: "\<not> pauseRequired s"
  shows "\<exists>t. process_next (Suc n) e s = Returned t \<and>
     processing t = processing s @ take (3 - length (processing s)) (startable_files s) \<and>
     requests t = requests s @ map (\<lambda>p. RTimer p 0) (take (3 - length (processing s)) (startable_files s))"
proof -
  obtain fs s1 where gf: "getFolders e 60 s = (fs, s1)" by fastforce
  obtain ps s2 where gn: "getNexts e 3 s1 = (ps, s2)" by fastforce
  note it = items_taken [OF gf gn]
  have go2: "\<not> pauseRequired s2" using it(2) go by (simp add: queue_change_def)
  have ok1: "forest_ok s1" using it(11) ok by simp
  have fs: "fs = []" using no_folder_left(1) [OF ok none, of e 60] gf by simp
  have nf: "\<not> new_folder (heap s1 f)" if "klass (heap s1 f) = KFolder" for f
    using no_folder_left(3) [OF ok none, of e 60 f] that gf by simp
  have ps: "ps = take (3 - length (processing s)) (startable_files s)"
    using getNexts_files [OF no_folder_left(2) [OF ok1 nf], of e 3] gn it(3)
      startable_files_getFolders [OF ok, of e 60] gf by simp
  then have "\<forall>p \<in> set ps. klass (heap s2 p) = KFile"
    using startable_files_file [OF ok] it(7,9) by (auto dest: in_set_takeD)
  then obtain t where t: "for_each (start_item n e) ps s2 = Returned t"
      "requests t = requests s @ map (\<lambda>p. RTimer p 0) ps" "processing t = processing s @ ps"
    using start_files [OF free, of ps s2 n] it(4,6) by auto
  show ?thesis
    using t it(4,6) ps fs go2 by (cases "ps = []") (auto simp: process_next_Suc [OF gf gn])
qed

end
