(* ===== verification/UploadSession.thy ===== *)
theory UploadSession
  imports UploadStore
begin

text \<open>
  \<open>Session.js\<close>: the tree view of a list of paths, the sliced stat of the session's paths on the
  server, the choice of a new name, and \<open>prepare\<close>, which turns the overwrite policy into renames
  and a status.

  The server is a parameter: \<open>stat\<close> answers a list of paths with those that exist, or fails
  (\<open>None\<close>). \<open>prepare\<close> runs its promises in the order they are made; the pool renames five files
  at a time, but a file's new name only depends on the server, so the order does not matter.
\<close>

section \<open>treeViewFromMaterialPath\<close>

datatype 'm tree_part = TreePart (pname: string) (pitem: 'm) (ppath: string) (pchildren: "'m tree_part list")

text \<open>The branch for the parts that remain once a part is not found.\<close>

fun new_branch :: "string list \<Rightarrow> 'm \<Rightarrow> string \<Rightarrow> 'm tree_part list" where
  "new_branch [] it path = []"
| "new_branch (p # ps) it path = [TreePart p it path (new_branch ps it path)]"

fun add_path :: "string list \<Rightarrow> 'm \<Rightarrow> string \<Rightarrow> 'm tree_part list \<Rightarrow> 'm tree_part list" where
  "add_path [] it path level = level"
| "add_path (p # ps) it path [] = [TreePart p it path (new_branch ps it path)]"
| "add_path (p # ps) it path (d # ds) =
     (if pname d = p then TreePart (pname d) (pitem d) (ppath d) (add_path ps it path (pchildren d)) # ds
      else d # add_path (p # ps) it path ds)"

definition treeViewFromMaterialPath :: "(string, 'm) obj \<Rightarrow> 'm tree_part list" where
  "treeViewFromMaterialPath merged =
     foldl (\<lambda>tree (path, it). add_path (tl (js_split CHR ''/'' path)) it path tree) [] merged"

text \<open>Sibling names are distinct everywhere.\<close>

inductive clean :: "'m tree_part list \<Rightarrow> bool" where
  "distinct (map pname ds) \<Longrightarrow> (\<And>d. d \<in> set ds \<Longrightarrow> clean (pchildren d)) \<Longrightarrow> clean ds"

lemma add_path_names:
  "set (map pname (add_path (p # ps) it path ds)) = insert p (set (map pname ds))"
  by (induction ds) auto

lemma clean_Nil [simp]: "clean []"
  by (rule clean.intros) simp_all

lemma cleanD: "clean ds \<Longrightarrow> distinct (map pname ds) \<and> (\<forall>x \<in> set ds. clean (pchildren x))"
  by (erule clean.cases) simp

lemma clean_Cons: "clean (d # ds) \<longleftrightarrow> pname d \<notin> set (map pname ds) \<and> clean (pchildren d) \<and> clean ds"
proof
  assume "clean (d # ds)"
  from cleanD [OF this] have "pname d \<notin> set (map pname ds)" "clean (pchildren d)" by simp_all
  moreover have "clean ds"
    by (rule clean.intros) (use cleanD [OF \<open>clean (d # ds)\<close>] in simp_all)
  ultimately show "pname d \<notin> set (map pname ds) \<and> clean (pchildren d) \<and> clean ds" by simp
next
  assume c: "pname d \<notin> set (map pname ds) \<and> clean (pchildren d) \<and> clean ds"
  show "clean (d # ds)"
    by (rule clean.intros) (use c cleanD [of ds] in auto)
qed

lemma clean_new_branch: "clean (new_branch ps it path)"
  by (induction ps) (simp_all add: clean_Cons)

lemma clean_add_path: "clean ds \<Longrightarrow> clean (add_path ps it path ds)"
proof (induction ps it path ds rule: add_path.induct)
  case (3 p ps it path d ds)
  then show ?case
    using add_path_names [of p ps it path ds] by (auto simp: clean_Cons)
qed (simp_all add: clean_Cons clean_new_branch)

text \<open>A path is found by following its parts.\<close>

fun has_path :: "string list \<Rightarrow> 'm tree_part list \<Rightarrow> bool" where
  "has_path [] ds = True"
| "has_path (p # ps) [] = False"
| "has_path (p # ps) (d # ds) = (if pname d = p then has_path ps (pchildren d) else has_path (p # ps) ds)"

lemma has_path_Nil [simp]: "has_path qs [] \<longleftrightarrow> qs = []"
  by (cases qs) auto

lemma has_new_branch: "has_path qs (new_branch ps it path) \<longleftrightarrow> (\<exists>rs. ps = qs @ rs)"
  by (induction ps arbitrary: qs) (case_tac qs; auto)+

lemma has_add_path:
  "has_path qs (add_path ps it path ds) \<longleftrightarrow> has_path qs ds \<or> (\<exists>rs. ps = qs @ rs)"
proof (induction ps it path ds arbitrary: qs rule: add_path.induct)
  case (2 p ps it path)
  then show ?case by (cases qs) (auto simp: has_new_branch)
next
  case (3 p ps it path d ds)
  show ?case
  proof (cases qs)
    case (Cons q qs')
    then show ?thesis using 3 by auto
  qed simp
qed (auto simp: append_eq_Cons_conv)

text \<open>The paths found in the tree are the merged ones and their ancestors, nothing else.\<close>

lemma has_treeView:
  "has_path qs (treeViewFromMaterialPath merged) \<longleftrightarrow>
     qs = [] \<or> (\<exists>path it rs. (path, it) \<in> set merged \<and> tl (js_split CHR ''/'' path) = qs @ rs)"
proof -
  have "has_path qs (foldl (\<lambda>tree (path, it). add_path (tl (js_split CHR ''/'' path)) it path tree) t merged) \<longleftrightarrow>
     has_path qs t \<or> (\<exists>path it rs. (path, it) \<in> set merged \<and> tl (js_split CHR ''/'' path) = qs @ rs)" for t
    by (induction merged arbitrary: t) (auto simp: has_add_path)
  then show ?thesis by (simp add: treeViewFromMaterialPath_def)
qed

lemma clean_treeView: "clean (treeViewFromMaterialPath merged)"
proof -
  have "clean t \<Longrightarrow> clean (foldl (\<lambda>tree (path, it). add_path (tl (js_split CHR ''/'' path)) it path tree) t merged)" for t
    by (induction merged arbitrary: t) (auto simp: clean_add_path)
  then show ?thesis by (simp add: treeViewFromMaterialPath_def)
qed

section \<open>bulkStatSliced\<close>

function slices :: "int \<Rightarrow> 'a list \<Rightarrow> 'a list list" where
  "slices k xs =
     (let slice = js_slice xs 0 k in if slice = [] then [] else slice # slices k (js_slice_from xs k))"
  by auto

lemma slice_shrinks: "js_slice xs 0 k \<noteq> [] \<Longrightarrow> length (js_slice_from xs k) < length xs"
  by (auto simp: js_slice_def js_slice_from_def js_norm_def Let_def split: if_splits)

termination slices
  by (relation "measure (\<lambda>(k, xs). length xs)") (auto simp: slice_shrinks)

declare slices.simps [simp del]

text \<open>With a positive size the slices are consecutive, none is empty, none exceeds the size.\<close>

lemma slices_concat: "0 < k \<Longrightarrow> concat (slices k xs) = xs"
proof (induction k xs rule: slices.induct)
  case (1 k xs)
  have pre: "js_slice xs 0 k = take (nat k) xs" "js_slice_from xs k = drop (nat k) xs"
    using 1(2) js_slice_prefix [of xs "nat k"] js_slice_from_nat [of xs "nat k"] by simp_all
  show ?case
  proof (cases "js_slice xs 0 k = []")
    case True
    then have "xs = []" using pre 1(2) by simp
    then show ?thesis using True by (simp add: slices.simps)
  next
    case False
    then have "concat (slices k (js_slice_from xs k)) = js_slice_from xs k" using 1 by simp
    then show ?thesis using False pre by (subst slices.simps) (simp add: Let_def)
  qed
qed

lemma slices_bounds: "0 < k \<Longrightarrow> w \<in> set (slices k xs) \<Longrightarrow> w \<noteq> [] \<and> int (length w) \<le> k"
proof (induction k xs rule: slices.induct)
  case (1 k xs)
  have pre: "js_slice xs 0 k = take (nat k) xs" using 1(2) js_slice_prefix [of xs "nat k"] by simp
  have "w = js_slice xs 0 k \<and> js_slice xs 0 k \<noteq> [] \<or> js_slice xs 0 k \<noteq> [] \<and> w \<in> set (slices k (js_slice_from xs k))"
    using 1(3) by (subst (asm) slices.simps) (auto simp: Let_def split: if_splits)
  then show ?case using 1(1) 1(2) pre by auto
qed

text \<open>A size of zero sends no request at all.\<close>

lemma slices_zero: "slices 0 xs = []"
  by (subst slices.simps) (simp add: js_slice_def js_norm_def Let_def)

type_synonym server = "string list \<Rightarrow> string list option"

text \<open>The chain of requests: the first failure ends it.\<close>

fun stat_slices :: "server \<Rightarrow> string list list \<Rightarrow> string list option" where
  "stat_slices stat [] = Some []"
| "stat_slices stat (w # ws) =
     (case stat w of None \<Rightarrow> None | Some r \<Rightarrow> map_option (\<lambda>r'. r @ r') (stat_slices stat ws))"

definition bulkStatSliced :: "server \<Rightarrow> string list \<Rightarrow> int \<Rightarrow> string list option" where
  "bulkStatSliced stat nodePaths sliceSize = stat_slices stat (slices sliceSize nodePaths)"

text \<open>When the server answers each request with the requested paths that exist, so does the chain.\<close>

lemma bulkStat_pointwise:
  assumes "\<And>ws. stat ws = Some (filter ex ws)" "0 < k"
  shows "bulkStatSliced stat xs k = Some (filter ex xs)"
proof -
  have "stat_slices stat ws = Some (filter ex (concat ws))" for ws
    by (induction ws) (simp_all add: assms(1))
  then show ?thesis by (simp add: bulkStatSliced_def slices_concat assms(2))
qed

section \<open>newPath\<close>

definition nodeExists :: "server \<Rightarrow> string \<Rightarrow> bool" where
  "nodeExists stat fullpath = (case stat [fullpath] of Some (n # _) \<Rightarrow> True | _ \<Rightarrow> False)"

text \<open>The name and the extension; a leading dot is part of the name.\<close>

definition split_ext :: "string \<Rightarrow> bool \<Rightarrow> string \<times> string" where
  "split_ext fullpath isFolder =
     (if isFolder then (fullpath, [])
      else let lastSlash = last_index_of CHR ''/'' fullpath; pos = last_index_of CHR ''.'' fullpath
           in if pos > - 1 \<and> lastSlash < pos \<and> pos > lastSlash + 1
              then (take (nat pos) fullpath, drop (nat pos) fullpath)
              else (fullpath, []))"

fun new_path_loop :: "nat \<Rightarrow> (string \<Rightarrow> bool) \<Rightarrow> string \<Rightarrow> string \<Rightarrow> nat \<Rightarrow> string option" where
  "new_path_loop 0 exists path ext counter = None"
| "new_path_loop (Suc n) exists path ext counter =
     (let newPath = path @ ''-'' @ nat_str counter @ ext
      in if exists newPath then new_path_loop n exists path ext (counter + 1) else Some newPath)"

definition newPath :: "nat \<Rightarrow> server \<Rightarrow> string \<Rightarrow> bool \<Rightarrow> string option" where
  "newPath n stat fullpath isFolder =
     (let (path, ext) = split_ext fullpath isFolder in new_path_loop n (nodeExists stat) path ext 1)"

lemma split_ext_append: "fst (split_ext p b) @ snd (split_ext p b) = p"
  by (simp add: split_ext_def Let_def)

lemma new_path_loop_some:
  "new_path_loop n ex path ext c = Some q \<Longrightarrow>
     \<exists>k \<ge> c. q = path @ ''-'' @ nat_str k @ ext \<and> \<not> ex q \<and>
       (\<forall>j. c \<le> j \<and> j < k \<longrightarrow> ex (path @ ''-'' @ nat_str j @ ext))"
proof (induction n arbitrary: c)
  case (Suc n)
  show ?case
  proof (cases "ex (path @ ''-'' @ nat_str c @ ext)")
    case True
    then obtain k where k: "Suc c \<le> k" "q = path @ ''-'' @ nat_str k @ ext" "\<not> ex q"
      "\<forall>j. Suc c \<le> j \<and> j < k \<longrightarrow> ex (path @ ''-'' @ nat_str j @ ext)"
      using Suc.IH [of "Suc c"] Suc.prems by auto
    have "ex (path @ ''-'' @ nat_str j @ ext)" if "c \<le> j \<and> j < k" for j
      using k(4) True that by (cases "j = c") auto
    then show ?thesis using k by (intro exI [of _ k]) auto
  next
    case False
    then show ?thesis using Suc.prems by (intro exI [of _ c]) auto
  qed
qed simp

lemma new_path_loop_none:
  "new_path_loop n ex path ext c = None \<Longrightarrow> j < n \<Longrightarrow> ex (path @ ''-'' @ nat_str (c + j) @ ext)"
proof (induction n arbitrary: c j)
  case (Suc n)
  then have e: "ex (path @ ''-'' @ nat_str c @ ext)" "new_path_loop n ex path ext (c + 1) = None"
    by (auto simp: Let_def split: if_splits)
  then show ?case using Suc.IH [OF e(2), of "j - 1"] Suc.prems(2) by (cases j) auto
qed simp

text \<open>With finitely many existing paths the loop ends: one more round than there are is enough.\<close>

lemma new_path_loop_ends:
  assumes "finite {p. ex p}" "card {p. ex p} < n"
  shows "\<exists>q. new_path_loop n ex path ext c = Some q"
proof (rule ccontr)
  assume "\<not> ?thesis"
  then have none: "new_path_loop n ex path ext c = None" by auto
  define g where "g j = path @ ''-'' @ nat_str (c + j) @ ext" for j
  have "g ` {..<n} \<subseteq> {p. ex p}" using new_path_loop_none [OF none] by (auto simp: g_def)
  moreover have "inj_on g {..<n}" by (auto simp: inj_on_def g_def nat_str_inj)
  ultimately have "n \<le> card {p. ex p}"
    using card_inj_on_le [of g "{..<n}" "{p. ex p}"] assms(1) by simp
  then show False using assms(2) by simp
qed

section \<open>prepare\<close>

definition slice_size :: "string option \<Rightarrow> int" where
  "slice_size conf =
     (case conf of None \<Rightarrow> 400
      | Some c \<Rightarrow> (if c = [] then 400 else case parse_int c of None \<Rightarrow> 400 | Some k \<Rightarrow> k))"

text \<open>\<open>setAnalyzeStatus\<close> notifies the unchanged status.\<close>

definition setAnalyzeStatus :: "uenv \<Rightarrow> nat \<Rightarrow> string \<Rightarrow> ustate \<Rightarrow> ustate" where
  "setAnalyzeStatus e i m s =
     (let s1 = upd i (\<lambda>it. it\<lparr>analyzeStatus := m\<rparr>) s in setStatus e i (status (heap s1 i)) s1)"

definition itemStated :: "uenv \<Rightarrow> string list \<Rightarrow> ustate \<Rightarrow> nat \<Rightarrow> bool" where
  "itemStated e nodes s c = (case getFullPath e c s of None \<Rightarrow> False | Some p \<Rightarrow> p \<in> set nodes)"

text \<open>
  The new label of one item. A path that cannot be computed leaves the promise pending; the
  server's answers being fixed, it was computed just before.
\<close>

definition rename_item :: "nat \<Rightarrow> uenv \<Rightarrow> server \<Rightarrow> nat \<Rightarrow> bool \<Rightarrow> nat \<Rightarrow> ustate \<Rightarrow> outcome" where
  "rename_item n e stat i isFolder c s =
     (case getFullPath e c s of
        None \<Rightarrow> Returned s
      | Some fullpath \<Rightarrow>
          (case newPath n stat fullpath isFolder of
             None \<Rightarrow> OutOfFuel
           | Some np \<Rightarrow>
               let newLabel = getBasename np
               in Returned (setAnalyzeStatus e i (''checking '' @ newLabel) (updateLabel c newLabel s))))"

text \<open>The pool takes the files from the end of the list.\<close>

definition renameFiles :: "nat \<Rightarrow> uenv \<Rightarrow> server \<Rightarrow> string list \<Rightarrow> nat \<Rightarrow> ustate \<Rightarrow> outcome" where
  "renameFiles n e stat nodes i s =
     for_each (rename_item n e stat i False) (rev (filter (itemStated e nodes s) (under s TypeFile i))) s"

definition renameFolders :: "nat \<Rightarrow> uenv \<Rightarrow> server \<Rightarrow> string list \<Rightarrow> nat \<Rightarrow> ustate \<Rightarrow> outcome" where
  "renameFolders n e stat nodes i s =
     for_each (\<lambda>c s. if itemStated e nodes s c then rename_item n e stat i True c s else Returned s)
       (under s TypeFolder i) s"

definition ignoreFolders :: "uenv \<Rightarrow> string list \<Rightarrow> nat \<Rightarrow> ustate \<Rightarrow> ustate" where
  "ignoreFolders e nodes i s =
     fold (\<lambda>c s. if itemStated e nodes s c then setIgnore e c s else s) (under s TypeFolder i) s"

definition prepare :: "nat \<Rightarrow> uenv \<Rightarrow> server \<Rightarrow> string option \<Rightarrow> string \<Rightarrow> nat \<Rightarrow> ustate \<Rightarrow> outcome" where
  "prepare n e stat conf overwriteStatus i s =
     (if overwriteStatus = ''overwrite'' then set_session_status e i StReady s
      else and_then (set_session_status e i StAnalyse s) (\<lambda>s1.
        let paths = map (\<lambda>c. getFullPath e c s1) (under s1 TypeBoth i) in
        if None \<in> set paths then Threw s1
        else
          let nodePaths = map the paths;
              s2 = setAnalyzeStatus e i (''checking '' @ nat_str (length nodePaths) @ '' items'') s1
          in case bulkStatSliced stat nodePaths (slice_size conf) of
               None \<Rightarrow> Returned s2
             | Some nodes \<Rightarrow>
                 if nodes = [] then set_session_status e i StReady s2
                 else if overwriteStatus = ''alert'' then set_session_status e i StConfirm s2
                 else if overwriteStatus = ''rename-folders'' then
                   and_then (renameFolders n e stat nodes i s2)
                     (\<lambda>s3. and_then (renameFiles n e stat nodes i s3) (set_session_status e i StReady))
                 else
                   and_then (renameFiles n e stat nodes i (ignoreFolders e nodes i s2))
                     (set_session_status e i StReady)))"

section \<open>A rename gives the item a path that does not exist\<close>

lemma full_path_below:
  assumes same: "\<And>j. klass (heap t j) = klass (heap s j) \<and> target (heap t j) = target (heap s j)
      \<and> repositoryId (heap t j) = repositoryId (heap s j) \<and> parent (heap t j) = parent (heap s j)"
    and lab: "\<And>j. j \<noteq> c \<Longrightarrow> label (heap t j) = label (heap s j)" and ok: "parents_ok s"
  shows "i < c \<Longrightarrow> full_path n e i t = full_path n e i s"
proof (induction n arbitrary: i)
  case (Suc n)
  have "full_path n e q t = full_path n e q s" if "parent (heap s i) = Some q" for q
    using Suc.IH [of q] Suc.prems ok that by (fastforce simp: parents_ok_def)
  then show ?case using same [of i] lab [of i] Suc.prems by (simp split: option.split)
qed simp

lemma last_index_label:
  "CHR ''/'' \<notin> set l \<Longrightarrow> last_index_of CHR ''/'' (q @ ''/'' @ l) = int (length q)"
  by (simp add: last_index_of_append Let_def)

lemma split_ext_label:
  assumes "CHR ''/'' \<notin> set l"
  shows "\<exists>l1 l2. split_ext (q @ ''/'' @ l) b = (q @ ''/'' @ l1, l2) \<and> l = l1 @ l2"
proof (cases "split_ext (q @ ''/'' @ l) b = (q @ ''/'' @ l, [])")
  case False
  define pos where "pos = last_index_of CHR ''.'' (q @ ''/'' @ l)"
  have s: "split_ext (q @ ''/'' @ l) b = (take (nat pos) (q @ ''/'' @ l), drop (nat pos) (q @ ''/'' @ l))"
    and p: "pos > int (length q)"
    using False last_index_label [OF assms, of q] by (auto simp: split_ext_def Let_def pos_def split: if_splits)
  obtain k where k: "nat pos = length q + 1 + k"
    using p by (metis nat_less_iff less_natE add.commute add_Suc_right add_0_right One_nat_def of_nat_0_le_iff zless_nat_eq_int_zless)
  show ?thesis by (rule exI [of _ "take k l"], rule exI [of _ "drop k l"], unfold s) (simp add: k)
qed auto

lemma digits_plain: "CHR ''/'' \<notin> set (nat_str k)" "CHR 92 \<notin> set (nat_str k)"
  using nat_str_digits [of k] by (auto simp: list_all_iff is_digit_def)

lemma newPath_label:
  assumes "newPath n stat (q @ ''/'' @ l) b = Some np" "CHR ''/'' \<notin> set l" "CHR 92 \<notin> set (q @ l)"
  shows "np = q @ ''/'' @ getBasename np \<and> \<not> nodeExists stat np \<and> getBasename np \<noteq> l"
proof -
  obtain l1 l2 where sp: "split_ext (q @ ''/'' @ l) b = (q @ ''/'' @ l1, l2)" "l = l1 @ l2"
    using split_ext_label [OF assms(2)] by blast
  have "new_path_loop n (nodeExists stat) (q @ ''/'' @ l1) l2 1 = Some np"
    using assms(1) unfolding newPath_def sp(1) by simp
  then obtain k where k: "np = (q @ ''/'' @ l1) @ ''-'' @ nat_str k @ l2" "\<not> nodeExists stat np"
    using new_path_loop_some by blast
  define l' where "l' = l1 @ ''-'' @ nat_str k @ l2"
  have np: "np = q @ ''/'' @ l'" by (simp add: k l'_def)
  have "getBasename (q @ ''/'' @ l') = l'"
    by (rule getBasename_append) (use assms(2,3) sp(2) digits_plain in \<open>auto simp: l'_def\<close>)
  moreover have "l' \<noteq> l" using sp(2) by (simp add: l'_def)
  ultimately show ?thesis using k(2) np by simp
qed

lemma rename_item_path:
  assumes ok: "parents_ok s" and c: "klass (heap s c) \<noteq> KSession" "parent (heap s c) = Some p" "i \<noteq> c"
    and path: "getFullPath e p s = Some q" "CHR ''/'' \<notin> set (label (heap s c))"
      "CHR 92 \<notin> set (q @ label (heap s c))"
    and new: "newPath n stat (q @ ''/'' @ label (heap s c)) b = Some np"
  shows "\<exists>t. rename_item n e stat i b c s = Returned t \<and> getFullPath e c t = Some np \<and> \<not> nodeExists stat np
           \<and> (\<forall>j. j \<noteq> c \<longrightarrow> label (heap t j) = label (heap s j))"
proof -
  have p: "p < c" using ok c(2) by (simp add: parents_ok_def)
  have fp: "full_path c e p s = Some q"
    using path(1) full_path_fuel [OF ok, of p "Suc p" c e] p by (simp add: getFullPath_def)
  then have fc: "getFullPath e c s = Some (q @ ''/'' @ label (heap s c))"
    using c by (simp add: getFullPath_def)
  define t where "t = setAnalyzeStatus e i (''checking '' @ getBasename np) (updateLabel c (getBasename np) s)"
  have t: "rename_item n e stat i b c s = Returned t"
    by (simp only: rename_item_def fc new option.case Let_def t_def)
  have keep: "klass (heap t j) = klass (heap s j) \<and> target (heap t j) = target (heap s j)
      \<and> repositoryId (heap t j) = repositoryId (heap s j) \<and> parent (heap t j) = parent (heap s j)" for j
    by (simp add: t_def setAnalyzeStatus_def updateLabel_def Let_def)
  have lab: "label (heap t j) = (if j = c then getBasename np else label (heap s j))" for j
    using c(3) by (simp add: t_def setAnalyzeStatus_def updateLabel_def Let_def)
  have "full_path c e p t = Some q"
    using full_path_below [OF keep _ ok p, where n = c and e = e] fp lab by simp
  then have "getFullPath e c t = Some (q @ ''/'' @ getBasename np)"
    using c keep [of c] lab [of c] by (simp add: getFullPath_def)
  moreover have "np = q @ ''/'' @ getBasename np \<and> \<not> nodeExists stat np"
    using newPath_label [OF new path(2,3)] by simp
  ultimately show ?thesis using t lab by auto
qed

section \<open>The status prepare leaves\<close>

lemma set_analyse: "set_session_status e i StAnalyse s = Returned (setStatus e i StAnalyse s)"
  by (simp add: set_session_status_def Let_def)

text \<open>With the policy \<open>alert\<close>, confirmation is asked exactly when one of the paths exists.\<close>

lemma prepare_alert:
  assumes paths: "map (\<lambda>c. getFullPath e c (setStatus e i StAnalyse s)) (under (setStatus e i StAnalyse s) TypeBoth i)
      = map Some ps"
    and stat: "\<And>ws. stat ws = Some (filter ex ws)" and k: "0 < slice_size conf"
  shows "\<exists>s2. prepare n e stat conf ''alert'' i s =
     set_session_status e i (if \<exists>p \<in> set ps. ex p then StConfirm else StReady) s2"
proof -
  have m: "map the (map Some ps) = ps" "None \<notin> set (map Some ps)" by (auto simp: comp_def)
  show ?thesis
    unfolding prepare_def set_analyse and_then.simps Let_def paths m bulkStat_pointwise [OF stat k]
    using m(2) by (auto simp: filter_empty_conv)
qed

end
