(* ===== verification/UploadRun.thy ===== *)
theory UploadRun
  imports UploadInvariant UploadProgress UploadSession
begin

text \<open>
  Histories of the uploader as lists of events: \<open>run\<close> replays them with \<open>handle\<close>, refusing an
  event that is not enabled. Every state it reaches is reachable. The environment \<open>site\<close> and the
  histories at the end are the concrete inputs the properties are checked on.
\<close>

fun run :: "uenv \<Rightarrow> event list \<Rightarrow> ustate \<Rightarrow> ustate option" where
  "run e [] s = Some s"
| "run e (ev # evs) s =
     (if enabled ev s then
        (case handle e ev s of Returned t \<Rightarrow> run e evs t | Threw t \<Rightarrow> run e evs t | OutOfFuel \<Rightarrow> None)
      else None)"

lemma run_reachable: "run e evs s = Some t \<Longrightarrow> reachable e s \<Longrightarrow> reachable e t"
proof (induction evs arbitrary: s)
  case (Cons ev evs)
  from Cons.prems(1) have en: "enabled ev s" by (simp split: if_splits)
  show ?case
  proof (cases "handle e ev s")
    case (Returned u)
    then have "reachable e u" using en Cons.prems(2) by (blast intro: reachable_step ustep.returns)
    then show ?thesis using Cons en Returned by simp
  next
    case (Threw u)
    then have "reachable e u" using en Cons.prems(2) by (blast intro: reachable_step ustep.throws)
    then show ?thesis using Cons en Threw by simp
  qed (use Cons.prems en in simp)
qed simp

section \<open>A site\<close>

definition boot :: ustate where
  "boot = \<lparr>heap = (\<lambda>_. blank_item KFile [] [] None), nextId = 0,
     tasks = (\<lambda>_. blank_task (\<lambda>_. None) [] []), jobs = new_jobs_store, sessions = [], processing = [],
     pauseRequired = False, requests = [], posted = []\<rparr>"

lemma boot_fresh: "fresh boot"
  by (simp add: fresh_def boot_def blank_item_def)

definition site_config :: "optval option \<Rightarrow> upload_config" where
  "site_config exts =
     \<lparr>pluginConfigs = (\<lambda>k. if k = ''ALLOWED_EXTENSIONS'' then exts else None),
      user = None, currentRepository = [], changes = 0, saved = []\<rparr>"

definition site :: "optval option \<Rightarrow> uenv" where
  "site exts =
     \<lparr>activeRepository = ''r'', userId = ''u'', repoSlug = (\<lambda>r. if r = ''r'' then Some ''files'' else None),
      messageHash = (\<lambda>_. None), clock = 0, multipartThreshold = 100, multipartPartSize = 50,
      config = site_config exts\<rparr>"

definition open_site :: uenv where "open_site = site None"

section \<open>Evaluating a history\<close>

text \<open>
  A history is evaluated by rewriting, from the first event on: the congruence rules keep the
  simplifier out of the bodies of loops and continuations until their state is known.
\<close>

lemma weak_congs:
  "a = b \<Longrightarrow> xs = ys \<Longrightarrow> foldl f a xs = foldl f b ys"
  "a = b \<Longrightarrow> xs = ys \<Longrightarrow> fold g xs a = fold g ys b"
  "s = t \<Longrightarrow> vs = ws \<Longrightarrow> for_each h vs s = for_each h ws t"
  "out = out' \<Longrightarrow> and_then out k = and_then out' k"
  "n = m \<Longrightarrow> s = t \<Longrightarrow> process_next n e s = process_next m e t"
  "s = t \<Longrightarrow> evs = evs' \<Longrightarrow> run e evs s = run e evs' t"
  "out = out' \<Longrightarrow> case_outcome f1 f2 f3 out = case_outcome f1 f2 f3 out'"
  "acc = acc' \<Longrightarrow> n = m \<Longrightarrow> walk n fls fds cb flt ty stp i acc = walk m fls fds cb flt ty stp i acc'"
  "acc = acc' \<Longrightarrow> fs = gs \<Longrightarrow> walk_files cb flt stp fs acc = walk_files cb flt stp gs acc'"
  by simp_all

lemmas run_congs = weak_congs let_weak_cong if_weak_cong prod.case_cong_weak option.case_cong_weak
  list.case_cong_weak

lemmas run_simps = Let_def post_def upd_def
  open_site_def site_def site_config_def boot_def blank_item_def blank_task_def new_jobs_store_def
  newSession_def newFolderItem_def newStatusItem_def newUploadItem_def addChild_def container_def
  getBasename_def js_slice_from_def js_norm_def getChildren_def
  pushSession_def newTask_def statusObserver_def progressObserver_def set_label_def set_task_def
  notifyMainStore_def enqueueLocalJob_def tasks_updated_def task_msg_def local_job_def
  resumeStore_def pauseStore_def set_session_status_def setStatus_def run_task_def onError_def
  getAutoStart_def getAutoClose_def getOptionAsBool_def getOption_def getUserPreference_def
  processNext_def process_next.simps waiting_def startable_def getFolders_def new_folder_def
  getNexts_def next_folder_def hasErrors_def count_matching_def walk_acc_def walk.simps
  monitorProcessing_def unmonitorProcessing_def arrayWithout_def js_slice_def
  doProcess_def doProcess_file_def doProcess_folder_def extensionAllowed_def opt_text_def message_def
  retry_def MAX_RETRIES_def

section \<open>Histories\<close>

definition four_files :: "event list" where
  "four_files =
     [AddSession ''r'' ''/in'', AddFile ''a'' 1 ''/in'' None 0, AddFile ''b'' 1 ''/in'' None 0,
      AddFile ''c'' 1 ''/in'' None 0, AddFile ''d'' 1 ''/in'' None 0]"

definition summary :: "ustate option \<Rightarrow> (nat list \<times> request list) option" where
  "summary r = map_option (\<lambda>s. (processing s, requests s)) r"

text \<open>The queue takes three of the four files and sets their timers.\<close>

lemma run_four:
  "summary (run open_site (four_files @ [UserResume]) boot) =
     Some ([1, 2, 3], [RTimer 1 0, RTimer 2 0, RTimer 3 0])"
  by (simp add: run_simps four_files_def summary_def cong: run_congs)

text \<open>Paused after the files were added; one file on a site that accepts \<open>.b\<close> only.\<close>

lemma run_paused:
  "map_option pauseRequired (run open_site (four_files @ [UserPause]) boot) = Some True"
  by (simp add: run_simps four_files_def cong: run_congs)

lemma extensions: "getFileExtension ''a'' = []" "getFileExtension ''x.b'' = ''b''"
  by code_simp+

definition refused_first :: "event list" where
  "refused_first =
     [AddSession ''r'' ''/in'', AddFile ''a'' 1 ''/in'' None 0, AddFile ''x.b'' 1 ''/in'' None 0, UserResume]"

lemma run_refused:
  "summary (run (site (Some (OStr ''b''))) refused_first boot) = Some ([2, 2], [RTimer 2 0, RTimer 2 0])"
  by (simp add: run_simps extensions refused_first_def summary_def cong: run_congs)

lemma summary_some: "summary r = Some (p, q) \<Longrightarrow> \<exists>s. r = Some s \<and> processing s = p \<and> requests s = q"
  by (auto simp: summary_def)

end
