(* ===== verification/UploadProperties.thy ===== *)
theory UploadProperties
  imports UploadRun
begin

text \<open>
  The properties of the uploader, each with an instance on a concrete history where it has
  hypotheses. The proofs are the lemmas of \<open>UploadInvariant\<close>, \<open>UploadProgress\<close>, \<open>UploadQueue\<close> and
  \<open>UploadSession\<close>.
\<close>

section \<open>Reachable states\<close>

text \<open>C1. On a site that accepts every extension, at most three uploads are under way in any
  state the events of the uploader lead to.\<close>

theorem at_most_three_uploads:
  assumes "unrestricted e" "reachable e s"
  shows "length (filter (\<lambda>i. klass (heap s i) = KFile) (processing s)) \<le> 3"
  using reachable_good [OF assms(2)] assms(1) by (simp add: good_def bounded_def uploads_def)

lemma site_unrestricted: "unrestricted open_site"
  by (simp add: unrestricted_def open_site_def site_def site_config_def)

lemma four_reachable:
  "\<exists>s. reachable open_site s \<and> processing s = [1, 2, 3] \<and> requests s = [RTimer 1 0, RTimer 2 0, RTimer 3 0]"
  using summary_some [OF run_four] run_reachable [OF _ reachable_start [OF boot_fresh]] by blast

theorem at_most_three_uploads_witness:
  "\<exists>s. reachable open_site s \<and> processing s = [1, 2, 3] \<and>
     length (filter (\<lambda>i. klass (heap s i) = KFile) (processing s)) \<le> 3"
  using four_reachable at_most_three_uploads [OF site_unrestricted] by blast



text \<open>C3. In every reachable state an upload under way carries the attempt number 1 or 2, and a
  timer waits only for those: a file is sent at most twice each time it is started.\<close>

theorem attempts_bounded:
  assumes "reachable e s"
  shows "(RUpload i c \<in> set (requests s) \<longrightarrow> 1 \<le> c \<and> c \<le> MAX_RETRIES) \<and>
         (RTimer i c \<in> set (requests s) \<longrightarrow> c < MAX_RETRIES)"
  using good_attempt [OF reachable_good [OF assms], of "RUpload i c"]
    good_attempt [OF reachable_good [OF assms], of "RTimer i c"]
  by (auto simp: attempt_ok_def)

theorem attempts_bounded_witness:
  "\<exists>s. reachable open_site s \<and> RTimer 1 0 \<in> set (requests s) \<and> 0 < MAX_RETRIES"
proof -
  obtain s where "reachable open_site s" "requests s = [RTimer 1 0, RTimer 2 0, RTimer 3 0]"
    using four_reachable by blast
  then show ?thesis using attempts_bounded [of open_site s 1 0] by auto
qed

text \<open>C4. Every callback ends, whatever the state the uploader is in: the recursion of
  \<open>processNext\<close> through items that complete at once is never cut off by its fuel.\<close>

theorem callbacks_end:
  assumes "reachable e s" "enabled ev s"
  shows "handle e ev s \<noteq> OutOfFuel"
  using handle_safe [OF reachable_good [OF assms(1)] assms(2)] by (simp add: safe_def)

theorem callbacks_end_witness:
  "\<exists>s. reachable open_site s \<and> handle open_site (TimerDue 1 0) s \<noteq> OutOfFuel"
proof -
  obtain s where "reachable open_site s" "requests s = [RTimer 1 0, RTimer 2 0, RTimer 3 0]"
    using four_reachable by blast
  then show ?thesis using callbacks_end [of open_site s "TimerDue 1 0"] by auto
qed

section \<open>What a call of processNext starts\<close>




text \<open>While the store is paused a call starts nothing: no request, nothing under way, still
  paused.\<close>

lemma paused_starts_nothing:
  assumes "pauseRequired s"
  shows "\<exists>t. processNext e s = Returned t \<and> requests t = requests s \<and> processing t = processing s
     \<and> pauseRequired t"
  unfolding processNext_def by (rule process_next_paused [OF assms])

text \<open>\<open>hasErrors\<close> says whether an item under a session is in error.\<close>

lemma hasErrors_iff:
  "hasErrors s \<longleftrightarrow> (\<exists>i \<in> set (sessions s). \<exists>c \<in> set (under s TypeBoth i). status (heap s c) = StError)"
  by (simp add: hasErrors_def count_matching_pos)

text \<open>C12. \<open>collectWithLimit\<close> over files gives the first \<open>limit\<close> matching files below an item, in the
  order of the tree.\<close>

theorem collectWithLimit_files:
  "collectWithLimit s i limit f TypeFile = take limit (filter f (under s TypeFile i))"
  using collect_take [of "[]" limit "heap s" "nextId s - i" f i]
  by (simp add: collectWithLimit_def under_def)

section \<open>Failures\<close>







end
