(* ===== verification/UploadImport.thy ===== *)
theory UploadImport
  imports UploadRun
begin

text \<open>
  How files enter the uploader (\<open>Store.js\<close>): the folder picker, which turns the relative paths
  of its files into a tree, and the drop of files and directories.

  A directory entry of the browser is a tree of entries. Its reader gives batches until an empty
  one, or fails. The subdirectories' lists are joined in the order of the entries; the code joins
  them in the order their readers finish, which only permutes whole lists. The files of an entry
  are read in the order they are asked for. The session's existence checks (\<open>prepare\<close>) follow.
\<close>

section \<open>The folder picker\<close>

record picked_file =
  fileName :: string
  fileSize :: nat
  relativePath :: string             \<comment> \<open>\<open>webkitRelativePath\<close>, empty when there is none\<close>

datatype material = MFolder | MFile picked_file

definition blacklist :: "string list" where
  "blacklist = [''.ds_store'', ''.pydio'']"

definition blacklisted :: "string \<Rightarrow> bool" where
  "blacklisted refPath \<longleftrightarrow> js_lower (getBasename refPath) \<in> set blacklist"

definition material_path :: "(string, material) obj \<Rightarrow> picked_file \<Rightarrow> (string, material) obj" where
  "material_path mPaths f =
     (if relativePath f = [] then obj_set (''/'' @ getBasename (fileName f)) (MFile f) mPaths
      else let mPath = ''/'' @ relativePath f;
               folderPath = getDirname mPath;
               m1 = (if folderPath \<noteq> ''/'' then obj_set (getDirname folderPath) MFolder mPaths else mPaths)
           in obj_set mPath (MFile f) (obj_set folderPath MFolder m1))"

definition material_paths :: "picked_file list \<Rightarrow> (string, material) obj" where
  "material_paths fs = foldl material_path [] fs"

text \<open>\<open>recurse\<close>: a folder of the tree becomes a folder item, a file an upload item, whose children
  are not visited.\<close>

fun import_tree :: "uenv \<Rightarrow> string \<Rightarrow> nat \<Rightarrow> material tree_part list \<Rightarrow> ustate \<Rightarrow> ustate" where
  "import_tree e tgt par [] s = s"
| "import_tree e tgt par (TreePart n it path cs # ds) s =
     (case it of
        MFolder \<Rightarrow> let (f, s1) = newFolderItem e path tgt (Some par) s
                   in import_tree e tgt par ds (import_tree e tgt f cs s1)
      | MFile f \<Rightarrow>
          import_tree e tgt par ds
            (if blacklisted path then s
             else snd (newUploadItem e (fileName f) (fileSize f) tgt (Some path) (Some par) s)))"

definition overwrite_status :: "uenv \<Rightarrow> string" where
  "overwrite_status e = opt_text (getOption (config e) ''DEFAULT_EXISTING'' ''upload_existing'' None)"

definition open_session :: "uenv \<Rightarrow> string \<Rightarrow> string \<Rightarrow> ustate \<Rightarrow> nat \<times> ustate" where
  "open_session e repo tgt s = (let (i, s1) = newSession e repo tgt s in (i, pushSession e i s1))"

definition pick_folder :: "uenv \<Rightarrow> picked_file list \<Rightarrow> string \<Rightarrow> ustate \<Rightarrow> nat \<times> ustate" where
  "pick_folder e fs tgt s =
     (let (i, s1) = open_session e (activeRepository e) tgt s
      in (i, import_tree e tgt i (treeViewFromMaterialPath (material_paths fs)) s1))"

text \<open>A failure of \<open>prepare\<close> is swallowed.\<close>

definition handleFolderPickerResult ::
    "nat \<Rightarrow> uenv \<Rightarrow> server \<Rightarrow> string option \<Rightarrow> picked_file list \<Rightarrow> string \<Rightarrow> ustate \<Rightarrow> outcome" where
  "handleFolderPickerResult n e stat conf fs tgt s =
     (let (i, s1) = pick_folder e fs tgt s in
      case prepare n e stat conf (overwrite_status e) i s1 of Threw s2 \<Rightarrow> Returned s2 | out \<Rightarrow> out)"

section \<open>Directories dropped\<close>

text \<open>A file's size is \<open>None\<close> when it cannot be read.\<close>

datatype entry =
    FileEntry (ename: string) (epath: string) (esize: "nat option")
  | DirEntry (ename: string) (epath: string) (batches: "entry list list") (readable: bool)

fun read_batches :: "'a list list \<Rightarrow> 'a list" where
  "read_batches [] = []"
| "read_batches (b # bs) = (if b = [] then [] else b @ read_batches bs)"

lemma read_batches_in: "x \<in> set (read_batches bs) \<Longrightarrow> \<exists>b \<in> set bs. x \<in> set b"
  by (induction bs) (auto split: if_splits)

lemma read_batches_size:
  assumes "x \<in> set (read_batches bs)"
  shows "size x < Suc (size_list (size_list size) bs)"
proof -
  obtain b where b: "b \<in> set bs" "x \<in> set b" using read_batches_in [OF assms] by blast
  have "size x \<le> size_list size b" using b(2) by (rule size_list_estimation') simp
  also have "\<dots> \<le> size_list (size_list size) bs" using b(1) by (rule size_list_estimation') simp
  finally show ?thesis by simp
qed

text \<open>An entry is known by its place: the indices that lead to it from the dropped directory. The
  entries of a directory come first, then those of its subdirectories.\<close>

definition collect_all :: "'a list option list \<Rightarrow> 'a list option" where
  "collect_all rs = (if None \<in> set rs then None else Some (concat (map the rs)))"

function dirEntries :: "nat list \<Rightarrow> entry \<Rightarrow> (nat list \<times> entry) list option" where
  "dirEntries pos (FileEntry nm p sz) = Some []"
| "dirEntries pos (DirEntry nm p bs ok) =
     (if \<not> ok then None
      else let own = map (\<lambda>(k, en). (pos @ [k], en)) (enumerate 0 (read_batches bs));
               below = map (\<lambda>(k, en). dirEntries (pos @ [k]) en) (enumerate 0 (read_batches bs))
           in map_option (\<lambda>es. own @ es) (collect_all below))"
  by pat_completeness auto

termination
  by (relation "measure (\<lambda>(pos, en). size en)")
    (auto simp: in_set_enumerate_eq less_Suc_eq_le dest!: read_batches_size [OF nth_mem])

fun is_dir :: "entry \<Rightarrow> bool" where
  "is_dir (FileEntry nm p sz) = False"
| "is_dir (DirEntry nm p bs ok) = True"

section \<open>Building the items of a drop\<close>

definition accepted :: "(string \<Rightarrow> bool) option \<Rightarrow> string \<Rightarrow> bool" where
  "accepted filt refPath \<longleftrightarrow>
     (case filt of None \<Rightarrow> True | Some f \<Rightarrow> f refPath) \<and> \<not> blacklisted refPath"

text \<open>One entry below the dropped directory. \<open>items\<close> are the folder items made so far; an entry
  whose directory was refused has no parent. The flag says that a file could not be read.\<close>

definition drop_entry ::
    "uenv \<Rightarrow> (string \<Rightarrow> bool) option \<Rightarrow> string \<Rightarrow> nat list \<times> entry \<Rightarrow>
     (nat list, nat) obj \<times> bool \<times> ustate \<Rightarrow> (nat list, nat) obj \<times> bool \<times> ustate" where
  "drop_entry e filt tgt = (\<lambda>(pos, en) (items, failed, s).
     let parentItem = map_of items (butlast pos) in
     case en of
       DirEntry nm path bs ok \<Rightarrow>
         (if accepted filt path then
            let (f, s1) = newFolderItem e path tgt parentItem s in (obj_set pos f items, failed, s1)
          else (items, failed, s))
     | FileEntry nm path sz \<Rightarrow>
         (case sz of
            None \<Rightarrow> (items, True, s)
          | Some k \<Rightarrow>
              (items, failed,
               if k > 0 \<and> accepted filt nm then snd (newUploadItem e nm k tgt (Some path) parentItem s)
               else s)))"

text \<open>\<open>recurseDirectory\<close> has no error branch: when a directory or a file cannot be read its promise
  stays pending (\<open>False\<close>).\<close>

definition recurseDirectory ::
    "uenv \<Rightarrow> (string \<Rightarrow> bool) option \<Rightarrow> string \<Rightarrow> nat \<Rightarrow> entry \<Rightarrow> ustate \<Rightarrow> bool \<times> ustate" where
  "recurseDirectory e filt tgt top_id en s =
     (case dirEntries [] en of
        None \<Rightarrow> (False, s)
      | Some entries \<Rightarrow>
          let (items, failed, s1) = fold (drop_entry e filt tgt) entries ([([], top_id)], False, s)
          in (\<not> failed, s1))"

datatype promise = Resolved | Rejected | Pending

definition drop_item ::
    "uenv \<Rightarrow> (string \<Rightarrow> bool) option \<Rightarrow> string \<Rightarrow> nat \<Rightarrow> string \<times> entry \<Rightarrow>
     promise list \<times> ustate \<Rightarrow> promise list \<times> ustate" where
  "drop_item e filt tgt session = (\<lambda>(kind, en) (ps, s).
     if kind \<noteq> [] \<and> kind \<noteq> ''file'' then (ps, s)
     else case en of
       FileEntry nm path sz \<Rightarrow>
         (case sz of
            None \<Rightarrow> (ps @ [Rejected], s)
          | Some k \<Rightarrow>
              (ps @ [Resolved],
               if k > 0 \<and> accepted filt nm then snd (newUploadItem e nm k tgt None (Some session) s) else s))
     | DirEntry nm path bs ok \<Rightarrow>
         let (f, s1) = newFolderItem e path tgt (Some session) s;
             (done, s2) = recurseDirectory e filt tgt f en s1
         in (ps @ [if done then Resolved else Pending], s2))"

text \<open>Without support for entries: an empty file stops everything with an alert, a refused one
  without; the files before them stay in the session.\<close>

fun drop_files ::
    "uenv \<Rightarrow> (string \<Rightarrow> bool) option \<Rightarrow> string \<Rightarrow> nat \<Rightarrow> picked_file list \<Rightarrow> ustate \<Rightarrow> bool \<times> ustate" where
  "drop_files e filt tgt session [] s = (True, s)"
| "drop_files e filt tgt session (f # fs) s =
     (if fileSize f = 0 then (False, s)
      else if \<not> accepted filt (fileName f) then (False, s)
      else drop_files e filt tgt session fs
             (snd (newUploadItem e (fileName f) (fileSize f) tgt None (Some session) s)))"

datatype dropped = Entries "(string \<times> entry) list" | Plain "picked_file list"

text \<open>The session, whether it is prepared, and the state: a rejected promise and the end of
  \<open>prepare\<close> notify, a pending one does nothing more.\<close>

definition drop_tree ::
    "uenv \<Rightarrow> (string \<Rightarrow> bool) option \<Rightarrow> string option \<Rightarrow> string \<Rightarrow> dropped \<Rightarrow> ustate \<Rightarrow> nat \<times> bool \<times> ustate" where
  "drop_tree e filt repo tgt d s =
     (let (i, s1) = open_session e (case repo of Some r \<Rightarrow> r | None \<Rightarrow> activeRepository e) tgt s in
      case d of
        Entries items \<Rightarrow>
          let (ps, s2) = fold (drop_item e filt tgt i) items ([], s1)
          in if Rejected \<in> set ps then (i, False, post NUpdate s2)
             else if Pending \<in> set ps then (i, False, s2)
             else (i, True, s2)
      | Plain fs \<Rightarrow> let (ok, s2) = drop_files e filt tgt i fs s1 in (i, ok, s2))"

definition handleDropEventResults ::
    "nat \<Rightarrow> uenv \<Rightarrow> server \<Rightarrow> string option \<Rightarrow> (string \<Rightarrow> bool) option \<Rightarrow> string option \<Rightarrow> string \<Rightarrow> dropped \<Rightarrow>
     ustate \<Rightarrow> outcome" where
  "handleDropEventResults n e stat conf filt repo tgt d s =
     (let (i, ready, s1) = drop_tree e filt repo tgt d s in
      if \<not> ready then Returned s1
      else case prepare n e stat conf (overwrite_status e) i s1 of
             Returned s2 \<Rightarrow> Returned (post NUpdate s2)
           | Threw s2 \<Rightarrow> Returned (post NUpdate s2)
           | OutOfFuel \<Rightarrow> OutOfFuel)"

section \<open>What the constructors add\<close>

text \<open>\<open>grown s t\<close>: older items keep their class, label and status. \<open>added s t\<close> are the items other than
  parts that \<open>t\<close> has beyond \<open>s\<close>, in the order they were made.\<close>

definition grown :: "ustate \<Rightarrow> ustate \<Rightarrow> bool" where
  "grown s t \<longleftrightarrow> nextId s \<le> nextId t \<and>
     (\<forall>j < nextId s. klass (heap t j) = klass (heap s j) \<and> label (heap t j) = label (heap s j)
        \<and> status (heap t j) = status (heap s j))"

definition added :: "ustate \<Rightarrow> ustate \<Rightarrow> (klass \<times> string) list" where
  "added s t = map (\<lambda>j. (klass (heap t j), label (heap t j)))
     (filter (\<lambda>j. klass (heap t j) \<noteq> KPart) [nextId s..<nextId t])"

lemma grown_refl [simp]: "grown s s"
  by (simp add: grown_def)

lemma grown_trans: "grown s t \<Longrightarrow> grown t u \<Longrightarrow> grown s u"
  by (auto simp: grown_def)

lemma added_same [simp]: "added s s = []"
  by (simp add: added_def)

lemma added_trans:
  assumes "grown s t" "grown t u"
  shows "added s u = added s t @ added t u"
proof -
  have "[nextId s..<nextId u] = [nextId s..<nextId t] @ [nextId t..<nextId u]"
    using assms upt_add_eq_append [of "nextId s" "nextId t" "nextId u - nextId t"] by (simp add: grown_def)
  moreover have "filter (\<lambda>j. klass (heap u j) \<noteq> KPart) [nextId s..<nextId t] =
      filter (\<lambda>j. klass (heap t j) \<noteq> KPart) [nextId s..<nextId t]"
    using assms(2) by (intro filter_cong) (auto simp: grown_def)
  ultimately show ?thesis using assms(2) by (auto simp: added_def grown_def)
qed

lemma container_grown: "grown s t \<Longrightarrow> container p s \<Longrightarrow> container p t"
  by (auto simp: grown_def container_def)

definition parent_ok :: "nat option \<Rightarrow> ustate \<Rightarrow> bool" where
  "parent_ok par s \<longleftrightarrow> (case par of None \<Rightarrow> True | Some p \<Rightarrow> p < nextId s)"

lemma parent_ok_simps [simp]: "parent_ok None s" "parent_ok (Some p) s \<longleftrightarrow> p < nextId s"
  by (simp_all add: parent_ok_def)

lemma newFolderItem_adds:
  assumes "newFolderItem e path tgt par s = (f, t)" "parent_ok par s"
  shows "grown s t" "added s t = [(KFolder, getBasename path)]" "container f t"
  using assms
  by (auto simp: newFolderItem_def newStatusItem_def addChild_def upd_def blank_item_def Let_def
      grown_def added_def container_def split: option.splits)

lemma push_parts_adds:
  "p < nextId s \<Longrightarrow>
     nextId s \<le> nextId (push_parts e p ks s) \<and>
     (\<forall>j < nextId s. klass (heap (push_parts e p ks s) j) = klass (heap s j)
        \<and> label (heap (push_parts e p ks s) j) = label (heap s j)
        \<and> status (heap (push_parts e p ks s) j) = status (heap s j)) \<and>
     (\<forall>j \<ge> nextId s. j < nextId (push_parts e p ks s) \<longrightarrow> klass (heap (push_parts e p ks s) j) = KPart)"
proof (induction ks arbitrary: s)
  case (Cons k ks)
  obtain c s1 where n: "newPartItem e p (k + 1) s = (c, s1)" by fastforce
  have s1: "nextId s1 = Suc (nextId s)" "klass (heap s1 (nextId s)) = KPart"
    "\<forall>j < nextId s. klass (heap s1 j) = klass (heap s j) \<and> label (heap s1 j) = label (heap s j)
      \<and> status (heap s1 j) = status (heap s j)"
    using n Cons.prems
    by (auto simp: newPartItem_def newStatusItem_def upd_def blank_item_def Let_def)
  define s2 where "s2 = upd p (\<lambda>it. it\<lparr>parts := Some (case parts it of None \<Rightarrow> [c] | Some cs \<Rightarrow> cs @ [c])\<rparr>) s1"
  have s2: "nextId s2 = Suc (nextId s)" "klass (heap s2 j) = klass (heap s1 j)" "label (heap s2 j) = label (heap s1 j)"
    "status (heap s2 j) = status (heap s1 j)" for j
    by (simp_all add: s2_def s1(1) upd_def)
  have "push_parts e p (k # ks) s = push_parts e p ks s2" using n by (simp add: s2_def)
  moreover have "p < nextId s2" using Cons.prems s2(1) by simp
  note IH = Cons.IH [OF this]
  have "klass (heap (push_parts e p ks s2) (nextId s)) = KPart" using IH s1(2) s2 by auto
  then have "\<forall>j \<ge> nextId s. j < nextId (push_parts e p ks s2) \<longrightarrow> klass (heap (push_parts e p ks s2) j) = KPart"
    using IH s2(1) by (metis Suc_leI le_neq_implies_less)
  ultimately show ?case using IH s1(3) s2 by auto
qed simp

lemma createParts_adds:
  assumes "i < nextId s"
  shows "grown s (createParts e i s)"
    "\<forall>j \<ge> nextId s. j < nextId (createParts e i s) \<longrightarrow> klass (heap (createParts e i s) j) = KPart"
  using push_parts_adds [of i "upd i (\<lambda>it. it\<lparr>parts := Some []\<rparr>) s" e] assms
  by (auto simp: createParts_def grown_def upd_def)

definition upload_label :: "string \<Rightarrow> string option \<Rightarrow> string" where
  "upload_label nm rel = (case rel of Some r \<Rightarrow> if r \<noteq> [] then getBasename r else nm | None \<Rightarrow> nm)"

lemma added_one:
  assumes "nextId t = Suc (nextId s)" "grown t u"
    "\<forall>j \<ge> nextId t. j < nextId u \<longrightarrow> klass (heap u j) = KPart" "klass (heap t (nextId s)) \<noteq> KPart"
  shows "added s u = [(klass (heap t (nextId s)), label (heap t (nextId s)))]"
proof -
  have "[nextId s..<nextId u] = nextId s # [nextId t..<nextId u]"
    using assms(1,2) by (simp add: upt_conv_Cons grown_def)
  moreover have "filter (\<lambda>j. klass (heap u j) \<noteq> KPart) [nextId t..<nextId u] = []"
    using assms(3) by (auto simp: filter_empty_conv)
  ultimately show ?thesis using assms by (auto simp: added_def grown_def)
qed

lemma newUploadItem_adds:
  assumes "parent_ok par s"
  shows "grown s (snd (newUploadItem e nm sz tgt rel par s)) \<and>
    added s (snd (newUploadItem e nm sz tgt rel par s)) = [(KFile, upload_label nm rel)]"
proof -
  obtain i s1 where n: "newStatusItem e KFile tgt par s = (i, s1)" by fastforce
  define s2 where "s2 = upd i (\<lambda>it. it\<lparr>fsize := sz, status := StNew, label := upload_label nm rel\<rparr>) s1"
  define s3 where "s3 = (if sz > multipartThreshold e then createParts e i s2 else s2)"
  have i: "i = nextId s" "nextId s2 = Suc (nextId s)" "klass (heap s2 i) = KFile"
    "label (heap s2 i) = upload_label nm rel" "grown s s2"
    using n assms
    by (auto simp: s2_def newStatusItem_def blank_item_def upd_def Let_def grown_def split: option.splits)
  have g3: "grown s2 s3" "\<forall>j \<ge> nextId s2. j < nextId s3 \<longrightarrow> klass (heap s3 j) = KPart"
    using createParts_adds [of i s2 e] i(1,2) by (auto simp: s3_def)
  have "added s s3 = [(KFile, upload_label nm rel)]"
    using added_one [OF i(2) g3] i by simp
  moreover have "snd (newUploadItem e nm sz tgt rel par s) =
      (case par of None \<Rightarrow> s3 | Some p \<Rightarrow> addChild p i s3)"
    using n by (cases par) (auto simp: newUploadItem_def s3_def s2_def upload_label_def Let_def)
  moreover have k: "nextId (addChild p i s3) = nextId s3" "klass (heap (addChild p i s3) j) = klass (heap s3 j)"
    "label (heap (addChild p i s3) j) = label (heap s3 j)"
    "status (heap (addChild p i s3) j) = status (heap s3 j)" for p j
    by (simp_all add: addChild_def upd_def)
  moreover have "added s (addChild p i s3) = added s s3" "grown s3 (addChild p i s3)" for p
    by (simp_all add: added_def grown_def k)
  ultimately show ?thesis using grown_trans [OF i(5) g3(1)] grown_trans [OF grown_trans [OF i(5) g3(1)]]
    by (auto split: option.split)
qed

section \<open>The folder picker's items\<close>

text \<open>The items a tree stands for, in the order of the tree.\<close>

fun tree_items :: "material tree_part list \<Rightarrow> (klass \<times> string) list" where
  "tree_items [] = []"
| "tree_items (TreePart n it path cs # ds) =
     (case it of
        MFolder \<Rightarrow> (KFolder, getBasename path) # tree_items cs
      | MFile f \<Rightarrow> (if blacklisted path then [] else [(KFile, upload_label (fileName f) (Some path))]))
     @ tree_items ds"

lemma container_less: "container p s \<Longrightarrow> parent_ok (Some p) s"
  by (simp add: container_def)

lemma import_tree_adds:
  "container par s \<Longrightarrow>
     grown s (import_tree e tgt par ds s) \<and> added s (import_tree e tgt par ds s) = tree_items ds"
proof (induction e tgt par ds s rule: import_tree.induct)
  case (2 e tgt par n it path cs ds s)
  show ?case
  proof (cases it)
    case MFolder
    obtain f s1 where f: "newFolderItem e path tgt (Some par) s = (f, s1)" by fastforce
    note a = newFolderItem_adds [OF f container_less [OF 2(4)]]
    let ?u = "import_tree e tgt f cs s1"
    have b: "grown s1 ?u" "added s1 ?u = tree_items cs" using 2(1) [OF MFolder f [symmetric] refl] a(3) by simp_all
    have g: "grown s ?u" by (rule grown_trans [OF a(1) b(1)])
    have "grown ?u (import_tree e tgt par ds ?u) \<and> added ?u (import_tree e tgt par ds ?u) = tree_items ds"
      using 2(2) [OF MFolder f [symmetric] refl] container_grown [OF g 2(4)] by simp
    then show ?thesis
      using MFolder f a b g by (auto simp: added_trans [OF g] added_trans [OF a(1) b(1)] intro: grown_trans)
  next
    case (MFile x)
    let ?u = "if blacklisted path then s
      else snd (newUploadItem e (fileName x) (fileSize x) tgt (Some path) (Some par) s)"
    have g: "grown s ?u" using newUploadItem_adds [OF container_less [OF 2(4)]] by simp
    have "grown ?u (import_tree e tgt par ds ?u) \<and> added ?u (import_tree e tgt par ds ?u) = tree_items ds"
      using 2(3) [OF MFile] container_grown [OF g 2(4)] by blast
    moreover have "added s ?u = (if blacklisted path then [] else [(KFile, upload_label (fileName x) (Some path))])"
      using newUploadItem_adds [OF container_less [OF 2(4)]] by simp
    ultimately show ?thesis
      using MFile added_trans [OF g, of "import_tree e tgt par ds ?u"] grown_trans [OF g] by simp
  qed
qed simp

text \<open>An import only takes steps of the uploader, so what holds of reachable states holds after it.\<close>

lemma folder_reachable:
  assumes "reachable e s" "container p s"
  shows "reachable e (snd (newFolderItem e path tgt (Some p) s))"
proof -
  have "ustep e s (AddFolder path tgt p) (snd (newFolderItem e path tgt (Some p) s))"
    by (rule ustep.returns) (use assms in simp_all)
  then show ?thesis by (rule reachable_step [OF assms(1)])
qed

lemma file_reachable:
  assumes "reachable e s" "container p s"
  shows "reachable e (snd (newUploadItem e nm sz tgt rel (Some p) s))"
proof -
  have "ustep e s (AddFile nm sz tgt rel p) (snd (newUploadItem e nm sz tgt rel (Some p) s))"
    by (rule ustep.returns) (use assms in simp_all)
  then show ?thesis by (rule reachable_step [OF assms(1)])
qed

lemma import_reachable:
  "reachable e s \<Longrightarrow> container par s \<Longrightarrow> reachable e (import_tree e tgt par ds s)"
proof (induction e tgt par ds s rule: import_tree.induct)
  case (2 e tgt par n it path cs ds s)
  show ?case
  proof (cases it)
    case MFolder
    obtain f s1 where f: "newFolderItem e path tgt (Some par) s = (f, s1)" by fastforce
    note a = newFolderItem_adds [OF f container_less [OF 2(5)]]
    have "reachable e s1" using folder_reachable [OF 2(4,5), of path tgt] f by simp
    then have r: "reachable e (import_tree e tgt f cs s1)" using 2(1) [OF MFolder f [symmetric] refl] a(3) by simp
    have "container par (import_tree e tgt f cs s1)"
      using import_tree_adds [OF a(3)] container_grown [OF a(1) 2(5)] container_grown by blast
    then show ?thesis using 2(2) [OF MFolder f [symmetric] refl r] MFolder f by simp
  next
    case (MFile x)
    let ?u = "if blacklisted path then s
      else snd (newUploadItem e (fileName x) (fileSize x) tgt (Some path) (Some par) s)"
    have "container par ?u"
      using conjunct1 [OF newUploadItem_adds [OF container_less [OF 2(5)]]] container_grown [OF _ 2(5)] 2(5) by simp
    moreover have "reachable e ?u" using file_reachable [OF 2(4,5)] 2(4) by simp
    ultimately show ?thesis using 2(3) [OF MFile] MFile by simp
  qed
qed simp

lemma open_session_reachable:
  assumes "reachable e s" "open_session e repo tgt s = (i, t)"
  shows "reachable e t" "container i t" "i = nextId s" "nextId t = Suc (nextId s)"
proof -
  obtain it where n: "newSession e repo tgt s = (nextId s, alloc it s)" "klass it = KSession"
    using newSession_alloc by blast
  have t: "i = nextId s" "t = pushSession e (nextId s) (alloc it s)"
    using assms(2) n(1) by (auto simp: open_session_def)
  have "ustep e s (AddSession repo tgt) t" by (rule ustep.returns) (simp_all add: n t)
  then show "reachable e t" by (rule reachable_step [OF assms(1)])
  show "container i t" "nextId t = Suc (nextId s)"
    by (auto simp: t pushSession_def container_def alloc_def n(2) upd_def post_def split: prod.split)
qed (use assms newSession_alloc [of e repo tgt s] in \<open>auto simp: open_session_def\<close>)

section \<open>The entries of a directory\<close>

text \<open>Every entry comes after the directory that holds it.\<close>

fun parents_first :: "nat list set \<Rightarrow> (nat list \<times> entry) list \<Rightarrow> bool" where
  "parents_first S [] = True"
| "parents_first S ((pos, en) # es) \<longleftrightarrow>
     butlast pos \<in> S \<and> parents_first (if is_dir en then insert pos S else S) es"

lemma parents_first_mono: "parents_first S es \<Longrightarrow> S \<subseteq> T \<Longrightarrow> parents_first T es"
proof (induction S es arbitrary: T rule: parents_first.induct)
  case (2 S pos en es)
  have "parents_first (if is_dir en then insert pos T else T) es"
    using 2(1) [of "if is_dir en then insert pos T else T"] 2(2,3) by (auto split: if_splits)
  then show ?case using 2 by auto
qed simp

definition directories :: "(nat list \<times> entry) list \<Rightarrow> nat list set" where
  "directories es = {pos. \<exists>en. (pos, en) \<in> set es \<and> is_dir en}"

lemma parents_first_append:
  "parents_first S es \<Longrightarrow> parents_first (S \<union> directories es) fs \<Longrightarrow> parents_first S (es @ fs)"
proof (induction S es rule: parents_first.induct)
  case (2 S pos en es)
  have "S \<union> directories ((pos, en) # es) = (if is_dir en then insert pos S else S) \<union> directories es"
    by (auto simp: directories_def)
  then show ?case using 2 by simp
qed (simp add: directories_def)

lemma parents_first_concat: "(\<And>es. es \<in> set ess \<Longrightarrow> parents_first S es) \<Longrightarrow> parents_first S (concat ess)"
  by (induction ess) (auto intro!: parents_first_append intro: parents_first_mono)

lemma parents_first_own:
  "pos \<in> S \<Longrightarrow> (\<And>q en. (q, en) \<in> set es \<Longrightarrow> butlast q = pos) \<Longrightarrow> parents_first S es"
proof (induction es arbitrary: S)
  case (Cons x es)
  obtain q en where x: "x = (q, en)" by fastforce
  have "butlast q = pos" using Cons.prems(2) [of q en] x by simp
  moreover have "parents_first (if is_dir en then insert q S else S) es"
    by (rule Cons.IH) (use Cons.prems in auto)
  ultimately show ?case using Cons.prems(1) x by simp
qed simp

lemma collect_all_some:
  "collect_all rs = Some es \<Longrightarrow> es = concat (map the rs) \<and> (\<forall>r \<in> set rs. r \<noteq> None)"
  by (metis collect_all_def option.distinct(1) option.inject)

lemma dirEntries_parents: "dirEntries pos en = Some es \<Longrightarrow> parents_first {pos} es"
proof (induction pos en arbitrary: es rule: dirEntries.induct)
  case (2 pos nm p bs ok)
  let ?es = "enumerate 0 (read_batches bs)"
  define own where "own = map (\<lambda>(k, en). (pos @ [k], en)) ?es"
  define below where "below = map (\<lambda>(k, en). dirEntries (pos @ [k]) en) ?es"
  have ok: "ok" using "2.prems" by (simp split: if_splits)
  obtain rest where r: "collect_all below = Some rest" "es = own @ rest"
    using "2.prems" by (auto simp: own_def below_def Let_def split: if_splits)
  have sub: "parents_first ({pos} \<union> directories own) (the b)" if "b \<in> set below" for b
  proof -
    obtain k x where x: "(k, x) \<in> set ?es" "b = dirEntries (pos @ [k]) x"
      using \<open>b \<in> set below\<close> by (auto simp: below_def)
    have b: "b \<noteq> None" using collect_all_some [OF r(1)] \<open>b \<in> set below\<close> by blast
    show ?thesis
    proof (cases x)
      case (DirEntry a b' c d)
      then have "pos @ [k] \<in> directories own" using x(1) by (force simp: directories_def own_def)
      moreover have "parents_first {pos @ [k]} (the b)"
        using "2.IH" [OF _ refl x(1) refl] ok x(2) b by auto
      ultimately show ?thesis by (auto intro: parents_first_mono)
    qed (simp add: x(2))
  qed
  have "parents_first ({pos} \<union> directories own) rest"
    using collect_all_some [OF r(1)] sub by (auto intro!: parents_first_concat)
  moreover have "parents_first {pos} own"
    by (rule parents_first_own [of pos]) (auto simp: own_def)
  ultimately show ?case unfolding r(2) by (rule parents_first_append [rotated])
qed simp

section \<open>The items of a drop\<close>

lemma drop_entry_grown:
  assumes "drop_entry e filt tgt x (items, failed, s) = (items', failed', t)" "\<forall>q i. map_of items q = Some i \<longrightarrow> i < nextId s"
  shows "grown s t \<and> (\<forall>q i. map_of items' q = Some i \<longrightarrow> i < nextId t)"
proof -
  obtain pos en where x: "x = (pos, en)" by fastforce
  have p: "parent_ok (map_of items (butlast pos)) s"
    using assms(2) by (auto simp: parent_ok_def split: option.split)
  show ?thesis
  proof (cases en)
    case (FileEntry nm path sz)
    then have "items' = items" "grown s t"
      using assms(1) x conjunct1 [OF newUploadItem_adds [OF p]] by (auto simp: drop_entry_def Let_def split: option.splits if_splits)
    moreover from this(2) have "nextId s \<le> nextId t" by (simp add: grown_def)
    ultimately show ?thesis using assms(2) less_le_trans by blast
  next
    case (DirEntry nm path bs ok)
    show ?thesis
    proof (cases "accepted filt path")
      case True
      then obtain f where f: "newFolderItem e path tgt (map_of items (butlast pos)) s = (f, t)" "items' = obj_set pos f items"
        using assms(1) x DirEntry by (auto simp: drop_entry_def Let_def split: prod.splits)
      note a = newFolderItem_adds [OF f(1) p]
      have "f < nextId t" using a(3) by (simp add: container_def)
      moreover have "i < nextId t" if "i < nextId s" for i using a(1) that by (simp add: grown_def)
      ultimately show ?thesis using a(1) assms(2) f(2) by (auto simp: update_conv')
    next
      case False
      then show ?thesis using assms x DirEntry by (auto simp: drop_entry_def)
    qed
  qed
qed

lemma drop_entries_grown:
  assumes "fold (drop_entry e filt tgt) es (items, failed, s) = (items', failed', t)"
    "\<forall>q i. map_of items q = Some i \<longrightarrow> i < nextId s"
  shows "grown s t"
  using assms
proof (induction es arbitrary: items failed s)
  case (Cons x es)
  obtain items1 failed1 s1 where x: "drop_entry e filt tgt x (items, failed, s) = (items1, failed1, s1)"
    by (metis prod_cases3)
  note a = drop_entry_grown [OF x Cons.prems(2)]
  have "grown s1 t" by (rule Cons.IH) (use Cons.prems(1) x a in auto)
  then show ?case using a grown_trans by blast
qed simp

lemma recurseDirectory_grown:
  "top_id < nextId s \<Longrightarrow> grown s (snd (recurseDirectory e filt tgt top_id en s))"
  using drop_entries_grown [of e filt tgt _ "[([], top_id)]" False s]
  by (auto simp: recurseDirectory_def split: option.split prod.split if_splits)

lemma drop_item_grown:
  assumes "drop_item e filt tgt i x (ps, s) = (qs, t)" "i < nextId s"
  shows "grown s t"
proof -
  obtain kind en where x: "x = (kind, en)" by fastforce
  show ?thesis
  proof (cases en)
    case (FileEntry nm path sz)
    then show ?thesis
      using assms x conjunct1 [OF newUploadItem_adds [of "Some i" s]]
      by (auto simp: drop_item_def Let_def split: option.splits if_splits)
  next
    case (DirEntry nm path bs ok)
    obtain f s1 where f: "newFolderItem e path tgt (Some i) s = (f, s1)" by fastforce
    note a = newFolderItem_adds [OF f]
    have "f < nextId s1" using a(3) assms(2) by (simp add: container_def)
    then have "grown s1 (snd (recurseDirectory e filt tgt f en s1))" by (rule recurseDirectory_grown)
    then show ?thesis
      using assms x DirEntry f grown_trans [OF a(1)]
      by (auto simp: drop_item_def Let_def split: if_splits prod.splits)
  qed
qed

lemma drop_items_grown:
  "fold (drop_item e filt tgt i) items (ps, s) = (qs, t) \<Longrightarrow> i < nextId s \<Longrightarrow> grown s t"
proof (induction items arbitrary: ps s)
  case (Cons x items)
  obtain ps1 s1 where x: "drop_item e filt tgt i x (ps, s) = (ps1, s1)" by fastforce
  note a = drop_item_grown [OF x Cons.prems(2)]
  have "grown s1 t" by (rule Cons.IH) (use Cons.prems x a in \<open>auto simp: grown_def\<close>)
  then show ?case using a grown_trans by blast
qed simp

text \<open>The promises, in the order of the items.\<close>

lemma drop_item_promises:
  "\<exists>p. fst (drop_item e filt tgt i x (ps, s)) = ps @ p"
  by (auto simp: drop_item_def Let_def split: prod.splits entry.splits option.splits)

lemma drop_items_promises:
  "set ps \<subseteq> set (fst (fold (drop_item e filt tgt i) items (ps, s)))"
proof (induction items arbitrary: ps s)
  case (Cons x items)
  obtain ps1 s1 where x: "drop_item e filt tgt i x (ps, s) = (ps1, s1)" by fastforce
  have "set ps \<subseteq> set ps1" using drop_item_promises [of e filt tgt i x ps s] x by auto
  then show ?case using Cons [of ps1 s1] x by auto
qed simp

lemma unreadable_pending:
  assumes "(kind, en) \<in> set items" "kind = [] \<or> kind = ''file''" "is_dir en" "dirEntries [] en = None"
  shows "Pending \<in> set (fst (fold (drop_item e filt tgt i) items (ps, s)))"
  using assms
proof (induction items arbitrary: ps s)
  case (Cons x items)
  obtain ps1 s1 where x: "drop_item e filt tgt i x (ps, s) = (ps1, s1)" by fastforce
  show ?case
  proof (cases "x = (kind, en)")
    case True
    then have "Pending \<in> set ps1"
      using x Cons.prems
      by (auto simp: drop_item_def recurseDirectory_def Let_def split: entry.splits prod.splits if_splits)
    then show ?thesis using drop_items_promises [of ps1 e filt tgt i items s1] x by auto
  next
    case False
    then show ?thesis using Cons x by auto
  qed
qed simp

end
