(* ===== verification/ImportProperties.thy ===== *)
theory ImportProperties
  imports UploadImport
begin

text \<open>
  The properties of how files enter the uploader: what the folder picker creates, and what happens
  to a drop with a directory that cannot be read.
\<close>





text \<open>When a directory of a drop, or one below it, cannot be read, the drop ends without
  preparing its session, which keeps the status \<open>analyse\<close> and is never uploaded.\<close>

lemma unreadable_directory_stalls:
  assumes "(kind, en) \<in> set items" "kind = [] \<or> kind = ''file''" "is_dir en" "dirEntries [] en = None"
    "reachable e s"
  shows "\<exists>t. handleDropEventResults n e stat conf filt repo tgt (Entries items) s = Returned t \<and>
    status (heap t (nextId s)) = StAnalyse"
proof -
  obtain i s1 where o1: "open_session e (case repo of Some r \<Rightarrow> r | None \<Rightarrow> activeRepository e) tgt s = (i, s1)"
    by fastforce
  note r = open_session_reachable [OF assms(5) o1]
  obtain ps s2 where f: "fold (drop_item e filt tgt i) items ([], s1) = (ps, s2)" by fastforce
  have "Pending \<in> set ps" using unreadable_pending [OF assms(1-4), of e filt tgt i "[]" s1] f by simp
  moreover have "status (heap s1 i) = StAnalyse"
    using o1 r(3) by (auto simp: open_session_def newSession_def newFolderItem_def newStatusItem_def
        pushSession_def upd_def post_def Let_def split: prod.splits)
  then have "status (heap s2 i) = StAnalyse"
    using drop_items_grown [OF f] r(2) by (simp add: container_def grown_def)
  ultimately show ?thesis
    using o1 f r(3) by (auto simp: handleDropEventResults_def drop_tree_def Let_def post_def split: prod.splits)
qed

end
