(* ===== verification/SessionProperties.thy ===== *)
theory SessionProperties
  imports UploadRun
begin

text \<open>
  The properties of the upload session (existence checks, new names, the folder tree), of the
  uploader's options and of its task, with their instances.
\<close>

section \<open>Checking what exists\<close>

text \<open>C17. Under the policy \<open>alert\<close>, \<open>prepare\<close> asks for a confirmation exactly when one of the paths to
  upload exists on the server, and declares the session ready otherwise, whatever the size of
  the slices. The server answers a request with the requested paths that exist.\<close>

theorem alert_confirms_iff_exists:
  assumes "map (\<lambda>c. getFullPath e c (setStatus e i StAnalyse s)) (under (setStatus e i StAnalyse s) TypeBoth i)
      = map Some ps"
    and "\<And>ws. stat ws = Some (filter ex ws)" "0 < slice_size conf"
  shows "\<exists>s2. prepare n e stat conf ''alert'' i s =
     set_session_status e i (if \<exists>p \<in> set ps. ex p then StConfirm else StReady) s2"
  by (rule prepare_alert [OF assms])

definition site_server :: server where
  "site_server ws = Some (filter (\<lambda>p. p = ''files/in/a'') ws)"

lemma run_one:
  "\<exists>s. run open_site [AddSession ''r'' ''/in'', AddFile ''a'' 1 ''/in'' None 0] boot = Some s \<and>
     parents_ok s \<and> klass (heap s 1) = KFile \<and> parent (heap s 1) = Some 0 \<and> label (heap s 1) = ''a'' \<and>
     getFullPath open_site 0 s = Some ''files/in'' \<and>
     map (\<lambda>c. getFullPath open_site c (setStatus open_site 0 StAnalyse s))
       (under (setStatus open_site 0 StAnalyse s) TypeBoth 0) = map Some [''files/in/a'']"
  by (simp add: run_simps under_def getFullPath_def full_path.simps trimRight_def parents_ok_def cong: run_congs)

theorem alert_confirms_iff_exists_witness:
  "\<exists>s s2. run open_site [AddSession ''r'' ''/in'', AddFile ''a'' 1 ''/in'' None 0] boot = Some s \<and>
     prepare 1 open_site site_server None ''alert'' 0 s = set_session_status open_site 0 StConfirm s2"
  using run_one alert_confirms_iff_exists [where e = open_site and i = 0 and stat = site_server and conf = None
      and ps = "[''files/in/a'']" and ex = "\<lambda>p. p = ''files/in/a''" and n = 1]
  by (fastforce simp: site_server_def slice_size_def)

text \<open>C18. Checking the paths by slices gives what one request for all of them would give.\<close>

theorem sliced_stat_is_one_stat:
  assumes "\<And>ws. stat ws = Some (filter ex ws)" "0 < k"
  shows "bulkStatSliced stat paths k = stat paths"
  by (simp only: bulkStat_pointwise [OF assms] assms(1))

theorem sliced_stat_is_one_stat_witness:
  "bulkStatSliced site_server [''x'', ''files/in/a''] 1 = site_server [''x'', ''files/in/a'']"
  by (rule sliced_stat_is_one_stat [where ex = "\<lambda>p. p = ''files/in/a''"]) (simp_all add: site_server_def)

section \<open>New names\<close>

text \<open>C19. \<open>newPath\<close> returns, on a server that knows finitely many paths, the first free numbered
  variant of the path: the number comes before the extension and every smaller one is taken.\<close>

theorem newPath_first_free:
  assumes "finite {p. nodeExists stat p}" "card {p. nodeExists stat p} < n"
    and "split_ext fullpath isFolder = (path, ext)"
  shows "path @ ext = fullpath \<and>
    (\<exists>k \<ge> 1. newPath n stat fullpath isFolder = Some (path @ ''-'' @ nat_str k @ ext) \<and>
       \<not> nodeExists stat (path @ ''-'' @ nat_str k @ ext) \<and>
       (\<forall>j. 1 \<le> j \<and> j < k \<longrightarrow> nodeExists stat (path @ ''-'' @ nat_str j @ ext)))"
proof -
  obtain q where q: "new_path_loop n (nodeExists stat) path ext 1 = Some q"
    using new_path_loop_ends [OF assms(1,2)] by blast
  show ?thesis
    using new_path_loop_some [OF q] q split_ext_append [of fullpath isFolder] assms(3)
    by (auto simp: newPath_def)
qed

definition one_taken :: server where
  "one_taken ws = Some (filter (\<lambda>p. p = ''d/a-1.txt'') ws)"

theorem newPath_first_free_witness:
  "\<exists>k \<ge> 1. newPath 2 one_taken ''d/a.txt'' False = Some (''d/a'' @ ''-'' @ nat_str k @ ''.txt'')"
proof -
  have e: "{p. nodeExists one_taken p} = {''d/a-1.txt''}"
    by (auto simp: nodeExists_def one_taken_def split: list.splits)
  have s: "split_ext ''d/a.txt'' False = (''d/a'', ''.txt'')" by code_simp
  show ?thesis using newPath_first_free [OF _ _ s, of one_taken 2] by (simp add: e) blast
qed

text \<open>Renaming an item gives it the path \<open>newPath\<close> found, free on the server, and changes no
  other item's label.\<close>

lemma rename_gives_free_path:
  assumes "parents_ok s" "klass (heap s c) \<noteq> KSession" "parent (heap s c) = Some p" "i \<noteq> c"
    and "getFullPath e p s = Some q" "CHR ''/'' \<notin> set (label (heap s c))" "CHR 92 \<notin> set (q @ label (heap s c))"
    and "newPath n stat (q @ ''/'' @ label (heap s c)) b = Some np"
  shows "\<exists>t. rename_item n e stat i b c s = Returned t \<and> getFullPath e c t = Some np \<and> \<not> nodeExists stat np
           \<and> (\<forall>j. j \<noteq> c \<longrightarrow> label (heap t j) = label (heap s j))"
  by (rule rename_item_path [OF assms(1-4) assms(5-7) assms(8)])

section \<open>The tree of a material path\<close>

text \<open>C20. \<open>treeViewFromMaterialPath\<close> builds the tree of the paths: a chain of names is in it exactly
  when it starts one of the paths, and no level names a part twice.\<close>

theorem treeView_prefixes:
  "(has_path qs (treeViewFromMaterialPath merged) \<longleftrightarrow>
     qs = [] \<or> (\<exists>path it rs. (path, it) \<in> set merged \<and> tl (js_split CHR ''/'' path) = qs @ rs)) \<and>
   clean (treeViewFromMaterialPath merged)"
  using has_treeView clean_treeView by blast

section \<open>Options\<close>

text \<open>An option the user changed is the one read back, in the repository it was set in.\<close>

lemma option_set_get:
  assumes "user c \<noteq> None" "name \<noteq> []"
  shows "getOptionAsBool (updateOption name (ArgBool b) c) key name d = b"
  by (rule updateOption_bool [OF assms])

text \<open>With a list of extensions configured, a file is accepted exactly when its extension is an
  entry of the list.\<close>

lemma extension_accepted_iff:
  assumes "pluginConfigs c ''ALLOWED_EXTENSIONS'' = Some (OStr exts)" "exts \<noteq> []"
  shows "extensionAllowed c m l = None \<longleftrightarrow> getFileExtension l \<in> set (js_split CHR '','' exts)"
  by (rule extension_check [OF assms])

section \<open>The task of a session\<close>

text \<open>The task of an upload session is never shown as paused: the observer waits for the status
  \<open>paused\<close>, which no item ever has.\<close>

lemma task_never_paused:
  assumes "t_Status (utTask t) \<noteq> ''Paused''"
  shows "t_Status (utTask (fst (statusObserver hash now ref (status_string st) ff aa (t, js)))) \<noteq> ''Paused''"
  by (rule job_never_paused [OF assms])

text \<open>C21. After a forced reload the list holds what the server answered, and the local jobs
  (the uploads) the server does not know.\<close>

theorem reload_merges_local_jobs:
  assumes "js_wf s" "getJobs True True s = Requested s1"
  shows "map_of (tasksList (getJobs_resolved idOf (Some answer) s1)) k =
     (case find (\<lambda>j. idOf j = k) (rev answer) of Some j \<Rightarrow> Some j | None \<Rightarrow> map_of (localJobs s) k)"
  by (rule refresh_contents [OF assms])

theorem reload_merges_local_jobs_witness:
  "map_of (tasksList (getJobs_resolved id (Some [''b'', ''c''])
     (new_jobs_store\<lparr>localJobs := [(''a'', ''local'')], tasksList := [(''a'', ''local'')]\<rparr>))) ''a'' = Some ''local''"
  by (subst reload_merges_local_jobs [where s = "new_jobs_store\<lparr>localJobs := [(''a'', ''local'')]\<rparr>"])
    (simp_all add: js_wf_def new_jobs_store_def getJobs_def merge_local_def)

end
