(* ===== verification/Json.thy ===== *)
theory Json
  imports Prelude
begin

text \<open>
  \<open>JSON.stringify\<close> and \<open>JSON.parse\<close>, which the models of the settings and sharing panels use to
  store values in strings and to take snapshots. Numbers are integers (no fraction, no exponent),
  characters are those of the model. The parser skips white space where JSON allows it, runs on
  fuel, and the length of its input is enough (\<open>parse_print\<close>).
\<close>

datatype json =
    JNull | JBool bool | JNum int | JStr string
  | JArr "json list" | JObj "(string \<times> json) list"

section \<open>Printing\<close>

definition hex_digit :: "nat \<Rightarrow> char" where
  "hex_digit d = char_of (if d < 10 then 48 + d else 87 + d)"

definition escape :: "char \<Rightarrow> string" where
  "escape c =
     (let n = of_char c :: nat in
      if n = 34 then [CHR 92, CHR 34]
      else if n = 92 then [CHR 92, CHR 92]
      else if n = 8 then [CHR 92, CHR ''b'']
      else if n = 12 then [CHR 92, CHR ''f'']
      else if n = 10 then [CHR 92, CHR ''n'']
      else if n = 13 then [CHR 92, CHR ''r'']
      else if n = 9 then [CHR 92, CHR ''t'']
      else if n < 32 then [CHR 92, CHR ''u'', CHR ''0'', CHR ''0'', hex_digit (n div 16), hex_digit (n mod 16)]
      else [c])"

definition print_string :: "string \<Rightarrow> string" where
  "print_string s = CHR 34 # concat (map escape s) @ [CHR 34]"

definition print_int :: "int \<Rightarrow> string" where
  "print_int i = (if i < 0 then CHR ''-'' # nat_str (nat (- i)) else nat_str (nat i))"

fun print_json :: "json \<Rightarrow> string" where
  "print_json JNull = ''null''"
| "print_json (JBool b) = (if b then ''true'' else ''false'')"
| "print_json (JNum i) = print_int i"
| "print_json (JStr s) = print_string s"
| "print_json (JArr xs) = ''['' @ js_join '','' (map print_json xs) @ '']''"
| "print_json (JObj ms) =
     ''{'' @ js_join '','' (map (\<lambda>(k, v). print_string k @ '':'' @ print_json v) ms) @ ''}''"

section \<open>Parsing\<close>

definition is_ws :: "char \<Rightarrow> bool" where
  "is_ws c \<longleftrightarrow> (of_char c :: nat) \<in> {32, 9, 10, 13}"

definition skip_ws :: "string \<Rightarrow> string" where
  "skip_ws = dropWhile is_ws"

definition hex_val :: "char \<Rightarrow> nat option" where
  "hex_val c =
     (let n = of_char c :: nat in
      if 48 \<le> n \<and> n \<le> 57 then Some (n - 48)
      else if 97 \<le> n \<and> n \<le> 102 then Some (n - 87)
      else if 65 \<le> n \<and> n \<le> 70 then Some (n - 55)
      else None)"

definition unescape :: "char \<Rightarrow> char option" where
  "unescape c =
     (if c = CHR 34 \<or> c = CHR 92 \<or> c = CHR ''/'' then Some c
      else if c = CHR ''b'' then Some (char_of (8 :: nat))
      else if c = CHR ''f'' then Some (char_of (12 :: nat))
      else if c = CHR ''n'' then Some (char_of (10 :: nat))
      else if c = CHR ''r'' then Some (char_of (13 :: nat))
      else if c = CHR ''t'' then Some (char_of (9 :: nat))
      else None)"

definition parse_hex4 :: "string \<Rightarrow> (char \<times> string) option" where
  "parse_hex4 s =
     (case s of
        a # b # c # d # r \<Rightarrow>
          (case (hex_val a, hex_val b, hex_val c, hex_val d) of
             (Some 0, Some 0, Some x, Some y) \<Rightarrow> Some (char_of (16 * x + y), r)
           | _ \<Rightarrow> None)
      | _ \<Rightarrow> None)"

text \<open>The characters up to the closing quote; the first argument is fuel.\<close>

fun parse_chars :: "nat \<Rightarrow> string \<Rightarrow> (string \<times> string) option" where
  "parse_chars 0 s = None"
| "parse_chars (Suc n) [] = None"
| "parse_chars (Suc n) (c # s) =
     (if c = CHR 34 then Some ([], s)
      else if c = CHR 92 then
        (case s of
           [] \<Rightarrow> None
         | d # t \<Rightarrow>
             (if d = CHR ''u'' then
                (case parse_hex4 t of
                   None \<Rightarrow> None
                 | Some (x, r) \<Rightarrow> map_option (\<lambda>(w, r'). (x # w, r')) (parse_chars n r))
              else
                (case unescape d of
                   None \<Rightarrow> None
                 | Some x \<Rightarrow> map_option (\<lambda>(w, r'). (x # w, r')) (parse_chars n t))))
      else if (of_char c :: nat) < 32 then None
      else map_option (\<lambda>(w, r'). (c # w, r')) (parse_chars n s))"

definition parse_string :: "string \<Rightarrow> (string \<times> string) option" where
  "parse_string s = parse_chars (Suc (length s)) s"

definition parse_num :: "string \<Rightarrow> (nat \<times> string) option" where
  "parse_num s =
     (let d = takeWhile is_digit s in
      if d = [] \<or> (length d > 1 \<and> hd d = CHR ''0'') then None
      else Some (digits_val d, dropWhile is_digit s))"

fun parse_value :: "nat \<Rightarrow> string \<Rightarrow> (json \<times> string) option"
  and parse_elems :: "nat \<Rightarrow> string \<Rightarrow> (json list \<times> string) option"
  and parse_members :: "nat \<Rightarrow> string \<Rightarrow> ((string \<times> json) list \<times> string) option" where
  "parse_value 0 s = None"
| "parse_value (Suc n) s =
     (case skip_ws s of
        [] \<Rightarrow> None
      | c # t \<Rightarrow>
          (if c = CHR 34 then map_option (\<lambda>(w, r). (JStr w, r)) (parse_string t)
           else if c = CHR ''['' then
             (case skip_ws t of
                [] \<Rightarrow> None
              | d # r \<Rightarrow> if d = CHR '']'' then Some (JArr [], r)
                          else map_option (\<lambda>(xs, r). (JArr xs, r)) (parse_elems n t))
           else if c = CHR ''{'' then
             (case skip_ws t of
                [] \<Rightarrow> None
              | d # r \<Rightarrow> if d = CHR ''}'' then Some (JObj [], r)
                          else map_option (\<lambda>(ms, r). (JObj ms, r)) (parse_members n t))
           else if starts_with ''null'' (c # t) then Some (JNull, drop 4 (c # t))
           else if starts_with ''true'' (c # t) then Some (JBool True, drop 4 (c # t))
           else if starts_with ''false'' (c # t) then Some (JBool False, drop 5 (c # t))
           else if c = CHR ''-'' then map_option (\<lambda>(k, r). (JNum (- int k), r)) (parse_num t)
           else map_option (\<lambda>(k, r). (JNum (int k), r)) (parse_num (c # t))))"
| "parse_elems 0 s = None"
| "parse_elems (Suc n) s =
     (case parse_value n s of
        None \<Rightarrow> None
      | Some (x, r) \<Rightarrow>
          (case skip_ws r of
             [] \<Rightarrow> None
           | d # r' \<Rightarrow>
               if d = CHR '','' then map_option (\<lambda>(xs, r''). (x # xs, r'')) (parse_elems n r')
               else if d = CHR '']'' then Some ([x], r')
               else None))"
| "parse_members 0 s = None"
| "parse_members (Suc n) s =
     (case skip_ws s of
        [] \<Rightarrow> None
      | q # t \<Rightarrow>
          if q \<noteq> CHR 34 then None
          else
            (case parse_string t of
               None \<Rightarrow> None
             | Some (k, r) \<Rightarrow>
                 (case skip_ws r of
                    [] \<Rightarrow> None
                  | d # r' \<Rightarrow>
                      if d \<noteq> CHR '':'' then None
                      else
                        (case parse_value n r' of
                           None \<Rightarrow> None
                         | Some (x, r2) \<Rightarrow>
                             (case skip_ws r2 of
                                [] \<Rightarrow> None
                              | d2 # r3 \<Rightarrow>
                                  if d2 = CHR '','' then
                                    map_option (\<lambda>(ms, r4). ((k, x) # ms, r4)) (parse_members n r3)
                                  else if d2 = CHR ''}'' then Some ([(k, x)], r3)
                                  else None)))))"

definition parse_json :: "string \<Rightarrow> json option" where
  "parse_json s =
     (case parse_value (Suc (length s)) s of
        None \<Rightarrow> None
      | Some (j, r) \<Rightarrow> if skip_ws r = [] then Some j else None)"

section \<open>Parsing what was printed\<close>

lemma hex_val_digit: "d < 16 \<Longrightarrow> hex_val (hex_digit d) = Some d"
  by (simp add: hex_val_def hex_digit_def Let_def)

lemma hex_val_zero [simp]: "hex_val (CHR ''0'') = Some 0"
  by (simp add: hex_val_def Let_def)

lemma char_eq_iff_code: "c = d \<longleftrightarrow> (of_char c :: nat) = of_char d"
  by (simp add: of_char_eq_iff)

lemma char_of_code: "(of_char c :: nat) = n \<Longrightarrow> c = char_of n"
  by auto

lemma parse_escape:
  "parse_chars (Suc n) (escape c @ t) = map_option (\<lambda>(w, r). (c # w, r)) (parse_chars n t)"
proof -
  define k where "k = (of_char c :: nat)"
  have c: "c = char_of k" by (simp add: k_def)
  have q: "(char_of (34 :: nat) :: char) = CHR 34" "(char_of (92 :: nat) :: char) = CHR 92" by (simp_all add: char_eq_iff_code)
  have k: "k < 256" unfolding k_def by (rule nat_of_char_less_256)
  have h: "k < 32 \<Longrightarrow> parse_hex4 (CHR ''0'' # CHR ''0'' # hex_digit (k div 16) # hex_digit (k mod 16) # t) = Some (c, t)"
    by (simp add: parse_hex4_def hex_val_digit c)
  consider "k = 34" | "k = 92" | "k = 8" | "k = 12" | "k = 10" | "k = 13" | "k = 9"
    | "k < 32" "k \<notin> {8, 9, 10, 12, 13}" | "32 \<le> k" "k \<noteq> 34" "k \<noteq> 92" by fastforce
  then show ?thesis
  proof cases
    case 8
    then have "escape c = [CHR 92, CHR ''u'', CHR ''0'', CHR ''0'', hex_digit (k div 16), hex_digit (k mod 16)]"
      by (simp add: escape_def k_def [symmetric] Let_def)
    then show ?thesis using h 8 by simp
  next
    case 9
    then have "escape c = [c]" by (simp add: escape_def k_def [symmetric] Let_def)
    moreover have "c \<noteq> CHR 34" "c \<noteq> CHR 92" using 9 by (auto simp: k_def)
    ultimately show ?thesis using 9 by (simp add: k_def)
  qed (simp_all add: escape_def k_def [symmetric] Let_def unescape_def c q)
qed

lemma parse_chars_print:
  "length s < n \<Longrightarrow> parse_chars n (concat (map escape s) @ CHR 34 # r) = Some (s, r)"
proof (induction s arbitrary: n)
  case Nil
  then show ?case by (cases n) auto
next
  case (Cons c s)
  then obtain m where "n = Suc m" "length s < m" by (cases n) auto
  then show ?case using Cons.IH [of m] by (simp add: parse_escape)
qed

lemma length_escape: "1 \<le> length (escape c)"
  by (simp add: escape_def Let_def)

lemma length_escapes: "length s \<le> length (concat (map escape s))"
proof (induction s)
  case (Cons c s)
  then show ?case using length_escape [of c] by simp
qed simp

lemma parse_string_print: "parse_string (concat (map escape s) @ CHR 34 # r) = Some (s, r)"
  unfolding parse_string_def by (rule parse_chars_print) (use length_escapes [of s] in simp)

lemma nat_str_head: "n \<noteq> 0 \<Longrightarrow> hd (nat_str n) \<noteq> CHR ''0''"
proof (induction n rule: nat_str.induct)
  case (1 n)
  show ?case
  proof (cases "n < 10")
    case True
    then have "(of_char (digit_char n) :: nat) = 48 + n" by (rule of_char_digit_char)
    then have "digit_char n \<noteq> CHR ''0''" using 1(2) by auto
    then show ?thesis using True by (subst nat_str.simps) simp
  next
    case False
    then show ?thesis using 1 by (subst nat_str.simps) (simp add: hd_append)
  qed
qed

text \<open>What may follow a printed value.\<close>

definition closed :: "string \<Rightarrow> bool" where
  "closed r \<longleftrightarrow> r = [] \<or> hd r = CHR '','' \<or> hd r = CHR '']'' \<or> hd r = CHR ''}''"

lemma closed_not_digit: "closed r \<Longrightarrow> takeWhile is_digit r = [] \<and> dropWhile is_digit r = r"
  by (cases r) (auto simp: closed_def is_digit_def)

lemma closed_ws: "closed r \<Longrightarrow> skip_ws r = r"
  by (cases r) (auto simp: closed_def skip_ws_def is_ws_def)

lemma parse_num_print: "closed r \<Longrightarrow> parse_num (nat_str n @ r) = Some (n, r)"
proof -
  assume r: "closed r"
  have all: "\<forall>c \<in> set (nat_str n). is_digit c" using nat_str_digits [of n] by (simp add: list_all_iff)
  have t: "takeWhile is_digit (nat_str n @ r) = nat_str n" "dropWhile is_digit (nat_str n @ r) = r"
    using all closed_not_digit [OF r] by (simp_all add: takeWhile_append2 dropWhile_append2)
  have "length (nat_str n) > 1 \<Longrightarrow> hd (nat_str n) \<noteq> CHR ''0''"
  proof (cases "n = 0")
    case True
    have "nat_str 0 = [digit_char 0]" by (subst nat_str.simps) simp
    then show "length (nat_str n) > 1 \<Longrightarrow> hd (nat_str n) \<noteq> CHR ''0''" using True by simp
  qed (rule nat_str_head)
  then show ?thesis by (auto simp: parse_num_def t Let_def)
qed

text \<open>The first character of a printed value is not white space and closes nothing.\<close>

definition opens :: "char \<Rightarrow> bool" where
  "opens c \<longleftrightarrow> \<not> is_ws c \<and> c \<noteq> CHR '']'' \<and> c \<noteq> CHR ''}''"

lemma nat_str_Cons: "\<exists>c t. nat_str n = c # t \<and> is_digit c"
  using nat_str_digits [of n] by (cases "nat_str n") auto

lemma print_json_head: "\<exists>c t. print_json j = c # t \<and> opens c"
proof (cases j)
  case (JNum i)
  obtain c t where "nat_str (nat i) = c # t" "is_digit c" using nat_str_Cons by blast
  then show ?thesis using JNum
    by (auto simp: print_int_def opens_def is_ws_def is_digit_def)
qed (auto simp: opens_def is_ws_def print_string_def)

lemma skip_ws_opens: "opens c \<Longrightarrow> skip_ws (c # t) = c # t"
  by (simp add: skip_ws_def opens_def)

lemma skip_ws_print: "skip_ws (print_json j @ r) = print_json j @ r"
  using print_json_head [of j] skip_ws_opens by fastforce

lemma print_json_pos: "0 < length (print_json j)"
  using print_json_head [of j] by auto

lemma length_join:
  "xs \<noteq> [] \<Longrightarrow> length (js_join [c] xs) = sum_list (map length xs) + (length xs - 1)"
proof (induction xs)
  case (Cons x xs)
  then show ?case by (cases "xs = []") (auto simp: js_join_Cons)
qed simp

lemma not_opens: "\<not> opens (CHR '']'')" "\<not> opens (CHR ''}'')"
  by (simp_all add: opens_def)

lemma skip_ws_plain [simp]:
  "skip_ws (CHR '','' # r) = CHR '','' # r" "skip_ws (CHR '']'' # r) = CHR '']'' # r"
  "skip_ws (CHR ''}'' # r) = CHR ''}'' # r" "skip_ws (CHR '':'' # r) = CHR '':'' # r"
  "skip_ws (CHR ''['' # r) = CHR ''['' # r" "skip_ws (CHR ''{'' # r) = CHR ''{'' # r"
  "skip_ws (CHR 34 # r) = CHR 34 # r"
  by (simp_all add: skip_ws_def is_ws_def)

lemma closed_plain [simp]:
  "closed (CHR '','' # r)" "closed (CHR '']'' # r)" "closed (CHR ''}'' # r)" "closed []"
  by (simp_all add: closed_def)

definition parses :: "json \<Rightarrow> bool" where
  "parses j \<longleftrightarrow> (\<forall>n r. length (print_json j) \<le> n \<longrightarrow> closed r \<longrightarrow> parse_value n (print_json j @ r) = Some (j, r))"

lemma parse_elems_print:
  assumes "xs \<noteq> []" "\<And>x. x \<in> set xs \<Longrightarrow> parses x"
  shows "length (js_join '','' (map print_json xs)) < n \<Longrightarrow>
    parse_elems n (js_join '','' (map print_json xs) @ CHR '']'' # r) = Some (xs, r)"
  using assms
proof (induction xs arbitrary: n)
  case (Cons x xs)
  obtain m where n: "n = Suc m" using Cons.prems(1) by (cases n) auto
  show ?case
  proof (cases "xs = []")
    case True
    then have "parse_value m (print_json x @ CHR '']'' # r) = Some (x, CHR '']'' # r)"
      using Cons.prems n by (simp add: parses_def)
    then show ?thesis using True n by simp
  next
    case False
    have len: "length (print_json x) + 1 + length (js_join '','' (map print_json xs)) < n"
      using Cons.prems(1) False by (simp add: js_join_Cons)
    then have "parse_value m (print_json x @ CHR '','' # js_join '','' (map print_json xs) @ CHR '']'' # r)
        = Some (x, CHR '','' # js_join '','' (map print_json xs) @ CHR '']'' # r)"
      using Cons.prems(3) [of x] n by (simp add: parses_def)
    moreover have "parse_elems m (js_join '','' (map print_json xs) @ CHR '']'' # r) = Some (xs, r)"
      by (rule Cons.IH) (use len n False Cons.prems in auto)
    ultimately show ?thesis using False n by (simp add: js_join_Cons)
  qed
qed simp

lemma parse_members_print:
  assumes "ms \<noteq> []" "\<And>k x. (k, x) \<in> set ms \<Longrightarrow> parses x"
  shows "length (js_join '','' (map (\<lambda>(k, v). print_string k @ '':'' @ print_json v) ms)) < n \<Longrightarrow>
    parse_members n (js_join '','' (map (\<lambda>(k, v). print_string k @ '':'' @ print_json v) ms) @ CHR ''}'' # r) = Some (ms, r)"
  using assms
proof (induction ms arbitrary: n)
  case (Cons m ms)
  obtain k x where m: "m = (k, x)" by fastforce
  obtain q where n: "n = Suc q" using Cons.prems(1) by (cases n) auto
  have px: "parses x" using Cons.prems(3) m by auto
  show ?case
  proof (cases "ms = []")
    case True
    have "parse_value q (print_json x @ CHR ''}'' # r) = Some (x, CHR ''}'' # r)"
      using px Cons.prems(1) True n m by (simp add: parses_def)
    then show ?thesis using True n m parse_string_print by (simp add: print_string_def)
  next
    case False
    let ?rest = "js_join '','' (map (\<lambda>(k, v). print_string k @ '':'' @ print_json v) ms)"
    have len: "length (print_json x) + 2 + length ?rest < n"
      using Cons.prems(1) False by (simp add: js_join_Cons m print_string_def)
    then have "parse_value q (print_json x @ CHR '','' # ?rest @ CHR ''}'' # r)
        = Some (x, CHR '','' # ?rest @ CHR ''}'' # r)"
      using px n by (simp add: parses_def)
    moreover have "parse_members q (?rest @ CHR ''}'' # r) = Some (ms, r)"
      by (rule Cons.IH) (use len n False Cons.prems in auto)
    ultimately show ?thesis using False n parse_string_print by (simp add: js_join_Cons m print_string_def)
  qed
qed simp

lemma parses_if_positive:
  assumes "\<And>m r. length (print_json j) \<le> Suc m \<Longrightarrow> closed r \<Longrightarrow> parse_value (Suc m) (print_json j @ r) = Some (j, r)"
  shows "parses j"
  using assms print_json_pos [of j] unfolding parses_def by (metis Suc_pred less_le_trans)

lemma parses_num: "parses (JNum i)"
proof (rule parses_if_positive)
  fix m r assume r: "closed r"
  have "parse_value (Suc m) (print_int i @ r) = Some (JNum i, r)"
  proof (cases "i < 0")
    case True
    then show ?thesis using parse_num_print [OF r, of "nat (- i)"]
      by (simp add: print_int_def skip_ws_def is_ws_def starts_with_def)
  next
    case False
    obtain c t where ct: "nat_str (nat i) = c # t" "is_digit c" using nat_str_Cons by blast
    then have "c \<noteq> CHR 34" "c \<noteq> CHR ''[''" "c \<noteq> CHR ''{''" "c \<noteq> CHR ''-''" "c \<noteq> CHR ''n''" "c \<noteq> CHR ''t''"
      "c \<noteq> CHR ''f''" "\<not> is_ws c" by (auto simp: is_digit_def is_ws_def)
    then show ?thesis using parse_num_print [OF r, of "nat i"] False ct
      by (simp add: print_int_def skip_ws_def starts_with_def)
  qed
  then show "parse_value (Suc m) (print_json (JNum i) @ r) = Some (JNum i, r)" by simp
qed

lemma parses_arr:
  assumes "\<And>x. x \<in> set xs \<Longrightarrow> parses x"
  shows "parses (JArr xs)"
proof (rule parses_if_positive)
  fix m r assume m: "length (print_json (JArr xs)) \<le> Suc m"
  show "parse_value (Suc m) (print_json (JArr xs) @ r) = Some (JArr xs, r)"
  proof (cases xs)
    case (Cons x xs')
    obtain c t where ct: "print_json x = c # t" "opens c" using print_json_head by blast
    have ne: "xs \<noteq> []" using Cons by simp
    have "parse_elems m (js_join '','' (map print_json xs) @ CHR '']'' # r) = Some (xs, r)"
      by (rule parse_elems_print [OF ne assms]) (use m in auto)
    moreover have "\<exists>u. js_join '','' (map print_json xs) @ CHR '']'' # r = c # u"
      using Cons ct by (cases "xs' = []") (auto simp: js_join_Cons)
    moreover have "c \<noteq> CHR '']''" using ct by (simp add: opens_def)
    ultimately show ?thesis using skip_ws_opens [OF ct(2)] by (auto split: list.split)
  qed simp
qed

lemma parses_obj:
  assumes "\<And>k x. (k, x) \<in> set ms \<Longrightarrow> parses x"
  shows "parses (JObj ms)"
proof (rule parses_if_positive)
  fix m r assume m: "length (print_json (JObj ms)) \<le> Suc m"
  let ?body = "js_join '','' (map (\<lambda>(k, v). print_string k @ '':'' @ print_json v) ms)"
  show "parse_value (Suc m) (print_json (JObj ms) @ r) = Some (JObj ms, r)"
  proof (cases ms)
    case (Cons x ms')
    have ne: "ms \<noteq> []" using Cons by simp
    have "parse_members m (?body @ CHR ''}'' # r) = Some (ms, r)"
      by (rule parse_members_print [OF ne assms]) (use m in auto)
    moreover have "\<exists>u. ?body @ CHR ''}'' # r = CHR 34 # u"
      using Cons by (cases "ms' = []") (auto simp: js_join_Cons print_string_def split: prod.splits)
    ultimately show ?thesis by auto
  qed simp
qed

lemma parses_all: "parses j"
proof (induction j)
  case (JNum i)
  show ?case by (rule parses_num)
next
  case (JArr xs)
  then show ?case by (rule parses_arr)
next
  case (JStr w)
  have "parse_value (Suc m) (print_string w @ r) = Some (JStr w, r)" for m r
    using parse_string_print by (simp add: print_string_def)
  then show ?case by (intro parses_if_positive) simp
next
  case (JObj ms)
  then show ?case by (intro parses_obj) auto
qed (auto simp: parses_def skip_ws_def is_ws_def starts_with_def neq_Nil_conv Suc_le_eq gr0_conv_Suc dest!: less_imp_Suc_add)

text \<open>The round trip.\<close>

lemma parse_print: "parse_json (print_json j) = Some j"
  using parses_all [of j, unfolded parses_def, rule_format, of "Suc (length (print_json j))" "[]"]
  by (simp add: parse_json_def skip_ws_def)

lemma print_json_inj: "print_json i = print_json j \<longleftrightarrow> i = j"
  by (metis option.inject parse_print)

end
