(* ===== verification/Snapshots.thy ===== *)
theory Snapshots
  imports Prelude
begin

text \<open>
  The contract the editors share: a model is edited, and \<open>revert\<close> brings back what the last
  snapshot holds. \<open>view\<close> is the content a snapshot covers, \<open>base\<close> the content of the snapshot.
\<close>

locale snapshot_model =
  fixes view :: "'s \<Rightarrow> 'c" and base :: "'s \<Rightarrow> 'c" and revert :: "'s \<Rightarrow> 's" and edit :: "'s \<Rightarrow> 's \<Rightarrow> bool"
  assumes edit_base: "edit s t \<Longrightarrow> base t = base s"
    and revert_view: "view (revert s) = base s"
    and revert_base: "base (revert s) = base s"
begin

lemma edits_base: "edit\<^sup>*\<^sup>* s t \<Longrightarrow> base t = base s"
  by (induction rule: rtranclp_induct) (simp_all add: edit_base)

text \<open>Whatever the edits, reverting gives back the content of an unmodified model.\<close>

lemma revert_edits: "view s = base s \<Longrightarrow> edit\<^sup>*\<^sup>* s t \<Longrightarrow> view (revert t) = view s"
  by (simp add: revert_view edits_base)

lemma revert_twice: "view (revert (revert s)) = view (revert s)"
  by (simp add: revert_view revert_base)

end

end
