(* ===== verification/RoleAcls.thy ===== *)
theory RoleAcls
  imports Json Snapshots
begin

text \<open>
  The role editor's model (\<open>access.settings/res/js/AdminPeople/editor/model/Role.js\<close>): a role with
  its access rules, the roles it inherits from, parameters stored as JSON in the rules, rights as
  a string, the snapshot to revert to.

  An access rule is an object the code compares by reference in two places; \<open>aid\<close> is that
  reference, given in the order of creation. A copy through JSON and an answer of the server are
  new objects. The server's answers are arguments of the definitions that continue after a request.
\<close>

section \<open>State\<close>

record acl =
  aid :: nat
  nodeId :: "string option"
  workspaceId :: "string option"
  roleId :: string
  actName :: string
  actValue :: string
  inherited :: bool

record idm_role =
  rUuid :: string
  rProps :: "(string, json) obj"

record role =
  idmRole :: idm_role
  acls :: "acl list"
  parentRoles :: "idm_role list"
  parentAcls :: "(string, acl list) obj"
  dirty :: bool
  snapshot :: idm_role
  aclSnapshot :: "acl list"
  nextAid :: nat
  updates :: nat            \<comment> \<open>how often \<open>update\<close> was notified\<close>

definition updated :: "role \<Rightarrow> role" where
  "updated r = r\<lparr>updates := Suc (updates r)\<rparr>"

text \<open>Copies through JSON.\<close>

definition copies :: "nat \<Rightarrow> acl list \<Rightarrow> acl list" where
  "copies n as = map (\<lambda>(a, k). a\<lparr>aid := n + k\<rparr>) (zip as [0..<length as])"

definition makeSnapshot :: "role \<Rightarrow> role" where
  "makeSnapshot r =
     r\<lparr>snapshot := idmRole r, aclSnapshot := copies (nextAid r) (acls r),
       nextAid := nextAid r + length (acls r)\<rparr>"

definition newRole :: "idm_role \<Rightarrow> idm_role list \<Rightarrow> role" where
  "newRole ir ps =
     makeSnapshot \<lparr>idmRole = ir, acls = [], parentRoles = ps, parentAcls = [], dirty = False,
       snapshot = ir, aclSnapshot = [], nextAid = 0, updates = 0\<rparr>"

text \<open>Writing a field through \<open>getIdmRole()\<close>'s proxy.\<close>

definition setRoleProp :: "string \<Rightarrow> json \<Rightarrow> role \<Rightarrow> role" where
  "setRoleProp p v r =
     updated (r\<lparr>idmRole := (idmRole r)\<lparr>rProps := obj_set p v (rProps (idmRole r))\<rparr>, dirty := True\<rparr>)"

definition revertRole :: "role \<Rightarrow> role" where
  "revertRole r =
     updated (makeSnapshot (r\<lparr>idmRole := snapshot r, acls := aclSnapshot r, dirty := False\<rparr>))"

section \<open>Policies\<close>

definition policy_acl :: "acl \<Rightarrow> bool" where
  "policy_acl a \<longleftrightarrow> starts_with ''policy:'' (actName a)"

definition FormatPolicyAclFromStore :: "acl list \<Rightarrow> acl list" where
  "FormatPolicyAclFromStore =
     map (\<lambda>a. if actName a = ''policy'' then a\<lparr>actName := ''policy:'' @ actValue a, actValue := ''1''\<rparr> else a)"

text \<open>\<open>split(':')[1]\<close>: what lies between the first two colons.\<close>

definition FormatPolicyAclToStore :: "acl list \<Rightarrow> acl list" where
  "FormatPolicyAclToStore =
     map (\<lambda>a. if policy_acl a
               then a\<lparr>actName := ''policy'', actValue := js_split CHR '':'' (actName a) ! 1\<rparr> else a)"

section \<open>Loading and saving\<close>

definition loadAcls_query :: "bool \<Rightarrow> role \<Rightarrow> string list" where
  "loadAcls_query parentsOnly r = (if parentsOnly then [] else [rUuid (idmRole r)]) @ map rUuid (parentRoles r)"

definition set_parent_acls :: "acl list \<Rightarrow> role \<Rightarrow> idm_role \<Rightarrow> role" where
  "set_parent_acls as r p =
     r\<lparr>parentAcls := obj_set (rUuid p) (filter (\<lambda>a. roleId a = rUuid p) as) (parentAcls r)\<rparr>"

definition loadAcls_done :: "bool \<Rightarrow> acl list \<Rightarrow> role \<Rightarrow> role" where
  "loadAcls_done parentsOnly collection r =
     (let as = FormatPolicyAclFromStore (copies (nextAid r) collection);
          r' = r\<lparr>nextAid := nextAid r + length collection\<rparr>;
          r1 = (if parentRoles r \<noteq> [] then
                  let r0 = (if \<not> parentsOnly
                            then r'\<lparr>acls := filter (\<lambda>a. roleId a = rUuid (idmRole r)) as\<rparr> else r')
                  in foldl (set_parent_acls as) r0 (parentRoles r)
                else r'\<lparr>acls := as\<rparr>)
      in if \<not> parentsOnly then makeSnapshot r1 else r1)"

text \<open>\<open>updateParentRoles\<close>: at once, then when the rules have come.\<close>

definition updateParentRoles :: "idm_role list \<Rightarrow> role \<Rightarrow> role" where
  "updateParentRoles ps r = r\<lparr>parentRoles := ps\<rparr>"

definition updateParentRoles_done :: "acl list \<Rightarrow> role \<Rightarrow> role" where
  "updateParentRoles_done collection r = updated (loadAcls_done True collection r)"

definition acl_equals :: "acl \<Rightarrow> acl \<Rightarrow> bool" where
  "acl_equals a b \<longleftrightarrow> nodeId a = nodeId b \<and> actName a = actName b \<and> actValue a = actValue b
     \<and> workspaceId a = workspaceId b"

definition diffAcls :: "acl list \<Rightarrow> acl list \<Rightarrow> acl list \<times> acl list" where
  "diffAcls previous next =
     (filter (\<lambda>a. \<not> list_ex (acl_equals a) previous) next,
      filter (\<lambda>a. \<not> list_ex (acl_equals a) next) previous)"

text \<open>\<open>save\<close>: the inserts and the deletes sent for the rules the server has, then the reload.\<close>

definition save_requests :: "acl list \<Rightarrow> role \<Rightarrow> acl list \<times> acl list" where
  "save_requests previous r = diffAcls previous (FormatPolicyAclToStore (acls r))"

definition save_done :: "idm_role \<Rightarrow> acl list \<Rightarrow> role \<Rightarrow> role" where
  "save_done newR collection r =
     (let r1 = makeSnapshot (r\<lparr>idmRole := newR, acls := FormatPolicyAclFromStore (copies (nextAid r) collection),
                               nextAid := nextAid r + length collection\<rparr>)
      in updated (r1\<lparr>dirty := False\<rparr>))"

section \<open>Parameters\<close>

definition scope_all :: string where
  "scope_all = ''PYDIO_REPO_SCOPE_ALL''"

definition matches :: "string \<Rightarrow> string \<Rightarrow> acl \<Rightarrow> bool" where
  "matches aclKey scope a \<longleftrightarrow> actName a = aclKey \<and> workspaceId a = Some scope"

text \<open>\<open>getAclValue\<close>: no array, no match and a value that does not parse give the previous value.\<close>

definition getAclValue :: "acl list option \<Rightarrow> string \<Rightarrow> string \<Rightarrow> json option \<Rightarrow> json option" where
  "getAclValue aclArray aclKey scope previousValue =
     (case aclArray of
        None \<Rightarrow> previousValue
      | Some as \<Rightarrow>
          (case filter (matches aclKey scope) as of
             [] \<Rightarrow> previousValue
           | a # _ \<Rightarrow> (case parse_json (actValue a) of None \<Rightarrow> previousValue | Some v \<Rightarrow> Some v)))"

definition parentValue :: "string \<Rightarrow> string \<Rightarrow> role \<Rightarrow> json option" where
  "parentValue aclKey scope r =
     foldl (\<lambda>v p. getAclValue (map_of (parentAcls r) (rUuid p)) aclKey scope v) None (parentRoles r)"

definition getParameterValue :: "string \<Rightarrow> string \<Rightarrow> role \<Rightarrow> json option" where
  "getParameterValue aclKey scope r = getAclValue (Some (acls r)) aclKey scope (parentValue aclKey scope r)"

text \<open>\<open>===\<close> on parsed values: two arrays or objects are never the same object.\<close>

fun strict_eq :: "json \<Rightarrow> json \<Rightarrow> bool" where
  "strict_eq (JArr xs) j = False"
| "strict_eq (JObj xs) j = False"
| "strict_eq i j = (i = j)"

definition setParameter :: "string \<Rightarrow> json \<Rightarrow> string \<Rightarrow> role \<Rightarrow> role" where
  "setParameter aclKey paramValue scope r =
     (let r1 = (case filter (matches aclKey scope) (acls r) of
          foundAcl # _ \<Rightarrow>
            (if (case parentValue aclKey scope r of None \<Rightarrow> False | Some v \<Rightarrow> strict_eq v paramValue)
             then r\<lparr>acls := filter (\<lambda>a. aid a \<noteq> aid foundAcl) (acls r)\<rparr>
             else r\<lparr>acls := map (\<lambda>a. if aid a = aid foundAcl then a\<lparr>actValue := print_json paramValue\<rparr> else a)
                               (acls r)\<rparr>)
        | [] \<Rightarrow>
            r\<lparr>acls := acls r @
                [\<lparr>aid = nextAid r, nodeId = None, workspaceId = Some scope, roleId = rUuid (idmRole r),
                  actName = aclKey, actValue = print_json paramValue, inherited = False\<rparr>],
              nextAid := Suc (nextAid r)\<rparr>)
      in updated (r1\<lparr>dirty := True\<rparr>))"

definition deleteParameter :: "acl \<Rightarrow> role \<Rightarrow> role" where
  "deleteParameter a r = updated (r\<lparr>acls := filter (\<lambda>b. aid b \<noteq> aid a) (acls r), dirty := True\<rparr>)"

definition is_param :: "acl \<Rightarrow> bool" where
  "is_param a \<longleftrightarrow> starts_with ''parameter:'' (actName a) \<or> starts_with ''action:'' (actName a)"

definition listParametersAndActions :: "role \<Rightarrow> acl list" where
  "listParametersAndActions r =
     foldl (\<lambda>as p.
         as @ map (\<lambda>a. a\<lparr>inherited := True\<rparr>)
                (filter (\<lambda>a. filter (\<lambda>f. actName f = actName a) as = [])
                  (filter is_param (case map_of (parentAcls r) (rUuid p) of None \<Rightarrow> [] | Some ps \<Rightarrow> ps))))
       (filter is_param (acls r)) (parentRoles r)"

section \<open>Rights\<close>

record workspace =
  wsUuid :: string
  rootNodes :: "(string \<times> string) list"       \<comment> \<open>key and \<open>Uuid\<close> of each root node\<close>

text \<open>The rights that hold, in the order of the object's keys; \<open>None\<close> is \<open>undefined\<close>.\<close>

definition in_scope :: "string option \<Rightarrow> string \<Rightarrow> acl \<Rightarrow> bool" where
  "in_scope wsId nid a \<longleftrightarrow>
     (wsId = None \<or> wsId = Some [] \<or> workspaceId a = wsId) \<and> nodeId a = Some nid \<and> actValue a = ''1''"

definition aclStringForAcls :: "acl list \<Rightarrow> string option \<Rightarrow> string \<Rightarrow> string list option" where
  "aclStringForAcls as wsId nid =
     (case filter (\<lambda>a. policy_acl a \<and> in_scope wsId nid a) as of
        a # _ \<Rightarrow> Some [actName a]
      | [] \<Rightarrow>
          let rights = filter (\<lambda>rn. filter (\<lambda>a. actName a = rn \<and> in_scope wsId nid a) as \<noteq> [])
                         [''read'', ''write'', ''deny'']
          in if rights = [] then None else Some rights)"

text \<open>
  \<open>getAclString\<close>: the string and whether it is inherited. It throws (\<open>None\<close>) for a workspace
  without root node and when a parent's rules are not loaded.
\<close>

definition getAclString :: "workspace option \<Rightarrow> string \<Rightarrow> role \<Rightarrow> (string \<times> bool) option" where
  "getAclString ws nodeUuid r =
     (let target = (case ws of
          None \<Rightarrow> Some (None, nodeUuid)
        | Some w \<Rightarrow> (case rootNodes w of [] \<Rightarrow> None | (k, u) # _ \<Rightarrow> Some (Some (wsUuid w), u)))
      in case target of
           None \<Rightarrow> None
         | Some (wsId, nid) \<Rightarrow>
             if list_ex (\<lambda>p. map_of (parentAcls r) (rUuid p) = None) (parentRoles r) then None
             else
               let parentRights =
                     foldl (\<lambda>acc p. case aclStringForAcls (the (map_of (parentAcls r) (rUuid p))) wsId nid of
                                      None \<Rightarrow> acc | Some x \<Rightarrow> Some x) None (parentRoles r)
               in case aclStringForAcls (acls r) wsId nid of
                    Some rights \<Rightarrow> Some (js_join '','' rights, False)
                  | None \<Rightarrow>
                      (case parentRights of
                         Some rights \<Rightarrow> Some (js_join '','' rights, True)
                       | None \<Rightarrow> Some ([], False)))"

definition global_acl :: "acl \<Rightarrow> bool" where
  "global_acl a \<longleftrightarrow> actName a = ''read'' \<or> actName a = ''write'' \<or> actName a = ''deny'' \<or> policy_acl a"

text \<open>\<open>updateAcl\<close>: throws when neither a workspace nor a node is given.\<close>

definition new_acls :: "nat \<Rightarrow> string \<Rightarrow> string option \<Rightarrow> string list \<Rightarrow> string list \<Rightarrow> acl list" where
  "new_acls n rid wsId rs nids =
     map (\<lambda>((r, nid), k). \<lparr>aid = n + k, nodeId = Some nid, workspaceId = wsId, roleId = rid, actName = r,
                            actValue = ''1'', inherited = False\<rparr>)
       (zip (List.product rs nids) [0..<length rs * length nids])"

definition updateAcl :: "workspace option \<Rightarrow> string \<Rightarrow> string \<Rightarrow> workspace option \<Rightarrow> role \<Rightarrow> role option" where
  "updateAcl ws nodeUuid value nodeWs r =
     (let target =
          (if nodeUuid \<noteq> [] then
             Some ([nodeUuid], case nodeWs of None \<Rightarrow> False | Some w \<Rightarrow> nodeUuid \<in> set (map fst (rootNodes w)))
           else map_option (\<lambda>w. (map fst (rootNodes w), False)) ws)
      in case target of
           None \<Rightarrow> None
         | Some (nodeIds, isRoot) \<Rightarrow>
             let kept = (case ws of
                    Some w \<Rightarrow> filter (\<lambda>a. \<not> (global_acl a \<and> workspaceId a = Some (wsUuid w)
                               \<and> (\<exists>n \<in> set nodeIds. nodeId a = Some n) \<and> actValue a = ''1'')) (acls r)
                  | None \<Rightarrow> filter (\<lambda>a. \<not> (global_acl a \<and> nodeId a = Some nodeUuid \<and> actValue a = ''1'')) (acls r));
                 wsId = (case ws of Some w \<Rightarrow> Some (wsUuid w)
                         | None \<Rightarrow> if isRoot then map_option wsUuid nodeWs else None);
                 added = (if value \<noteq> [] then
                            new_acls (nextAid r) (rUuid (idmRole r)) wsId (js_split CHR '','' value) nodeIds
                          else [])
             in Some (updated (r\<lparr>acls := kept @ added, nextAid := nextAid r + length added, dirty := True\<rparr>)))"

section \<open>References are distinct\<close>

definition aids_ok :: "role \<Rightarrow> bool" where
  "aids_ok r \<longleftrightarrow> distinct (map aid (acls r)) \<and> (\<forall>a \<in> set (acls r). aid a < nextAid r)
     \<and> distinct (map aid (aclSnapshot r)) \<and> (\<forall>a \<in> set (aclSnapshot r). aid a < nextAid r)"

lemma map_aid_copies: "map aid (copies n as) = [n..<n + length as]"
proof (rule nth_equalityI)
  fix i assume "i < length (map aid (copies n as))"
  then show "map aid (copies n as) ! i = [n..<n + length as] ! i" by (simp add: copies_def)
qed (simp add: copies_def)

lemma set_aid_copies: "a \<in> set (copies n as) \<Longrightarrow> n \<le> aid a \<and> aid a < n + length as"
  using map_aid_copies [of n as] by (metis atLeastLessThan_iff image_eqI list.set_map set_upt)

lemma length_copies [simp]: "length (copies n as) = length as"
  by (simp add: copies_def)

text \<open>What a rule says, without the reference.\<close>

definition bare :: "acl \<Rightarrow> acl" where
  "bare a = a\<lparr>aid := 0\<rparr>"

lemma bare_copies: "map bare (copies n as) = map bare as"
  by (rule nth_equalityI) (simp_all add: copies_def bare_def)

lemma aid_FromStore: "map aid (FormatPolicyAclFromStore as) = map aid as"
  by (simp add: FormatPolicyAclFromStore_def comp_def if_distrib cong: if_cong)

lemma aids_loaded:
  "distinct (map aid (FormatPolicyAclFromStore (copies n as)))"
  "a \<in> set (FormatPolicyAclFromStore (copies n as)) \<Longrightarrow> aid a < n + length as"
proof -
  show "distinct (map aid (FormatPolicyAclFromStore (copies n as)))"
    by (simp add: aid_FromStore map_aid_copies)
  show "aid a < n + length as" if "a \<in> set (FormatPolicyAclFromStore (copies n as))"
  proof -
    have "aid a \<in> set (map aid (FormatPolicyAclFromStore (copies n as)))" using that by simp
    then show ?thesis unfolding aid_FromStore map_aid_copies by simp
  qed
qed

lemma updated_sel [simp]:
  "acls (updated r) = acls r" "idmRole (updated r) = idmRole r" "parentRoles (updated r) = parentRoles r"
  "parentAcls (updated r) = parentAcls r" "dirty (updated r) = dirty r" "snapshot (updated r) = snapshot r"
  "aclSnapshot (updated r) = aclSnapshot r" "nextAid (updated r) = nextAid r"
  by (simp_all add: updated_def)

lemma snapshot_sel [simp]:
  "acls (makeSnapshot r) = acls r" "idmRole (makeSnapshot r) = idmRole r"
  "parentRoles (makeSnapshot r) = parentRoles r" "parentAcls (makeSnapshot r) = parentAcls r"
  "dirty (makeSnapshot r) = dirty r" "snapshot (makeSnapshot r) = idmRole r"
  "aclSnapshot (makeSnapshot r) = copies (nextAid r) (acls r)"
  "nextAid (makeSnapshot r) = nextAid r + length (acls r)"
  by (simp_all add: makeSnapshot_def)

lemma makeSnapshot_aids: "distinct (map aid (acls r)) \<Longrightarrow> \<forall>a \<in> set (acls r). aid a < nextAid r \<Longrightarrow> aids_ok (makeSnapshot r)"
  using set_aid_copies [of _ "nextAid r" "acls r"] by (auto simp: aids_ok_def map_aid_copies)

lemma set_parents_sel [simp]:
  "acls (foldl (set_parent_acls as) r ps) = acls r" "nextAid (foldl (set_parent_acls as) r ps) = nextAid r"
  "aclSnapshot (foldl (set_parent_acls as) r ps) = aclSnapshot r"
  "idmRole (foldl (set_parent_acls as) r ps) = idmRole r" "snapshot (foldl (set_parent_acls as) r ps) = snapshot r"
  "parentRoles (foldl (set_parent_acls as) r ps) = parentRoles r" "dirty (foldl (set_parent_acls as) r ps) = dirty r"
  by (induction ps arbitrary: r) (simp_all add: set_parent_acls_def)

lemma loadAcls_aids: "aids_ok r \<Longrightarrow> aids_ok (loadAcls_done b collection r)"
proof -
  assume r: "aids_ok r"
  have fresh: "distinct (map aid (filter P (FormatPolicyAclFromStore (copies (nextAid r) collection))))"
    "\<forall>a \<in> set (filter P (FormatPolicyAclFromStore (copies (nextAid r) collection))). aid a < nextAid r + length collection" for P
    using aids_loaded [where n = "nextAid r" and as = collection] by (auto simp: distinct_map_filter)
  have old: "\<forall>a \<in> set (acls r). aid a < nextAid r + length collection"
    "\<forall>a \<in> set (aclSnapshot r). aid a < nextAid r + length collection"
    using r by (auto simp: aids_ok_def)
  show ?thesis
    using r old fresh fresh [of "\<lambda>_. True"]
    by (auto simp: loadAcls_done_def Let_def intro!: makeSnapshot_aids) (auto simp: aids_ok_def)
qed

lemma setParameter_aids: "aids_ok r \<Longrightarrow> aids_ok (setParameter k v sc r)"
proof -
  assume r: "aids_ok r"
  have m: "map aid (map (\<lambda>a. if aid a = x then a\<lparr>actValue := w\<rparr> else a) as) = map aid as" for x w as
    by simp
  show ?thesis
    using r by (auto simp: setParameter_def Let_def aids_ok_def distinct_map_filter less_Suc_eq
        comp_def if_distrib [of aid] split: list.splits cong: if_cong)
qed

section \<open>Parameters read back\<close>

lemma strict_eq_eq: "strict_eq i j \<Longrightarrow> i = j"
  by (cases i; cases j) simp_all

lemma parentValue_cong:
  "parentRoles t = parentRoles r \<Longrightarrow> parentAcls t = parentAcls r \<Longrightarrow> parentValue k sc t = parentValue k sc r"
  by (simp add: parentValue_def)

lemma setParameter_sel [simp]:
  "parentRoles (setParameter k v sc r) = parentRoles r" "parentAcls (setParameter k v sc r) = parentAcls r"
  "snapshot (setParameter k v sc r) = snapshot r" "aclSnapshot (setParameter k v sc r) = aclSnapshot r"
  "idmRole (setParameter k v sc r) = idmRole r" "dirty (setParameter k v sc r) = True"
  by (simp_all add: setParameter_def Let_def split: list.split)

lemma aid_eq: "distinct (map aid as) \<Longrightarrow> a \<in> set as \<Longrightarrow> b \<in> set as \<Longrightarrow> aid a = aid b \<Longrightarrow> a = b"
  by (simp add: distinct_map inj_on_def)

lemma filter_aid_matches:
  assumes "distinct (map aid as)" "f \<in> set as" "\<not> P f"
  shows "filter P (filter (\<lambda>a. aid a \<noteq> aid f) as) = filter P as"
proof -
  have "aid a \<noteq> aid f \<and> P a \<longleftrightarrow> P a" if "a \<in> set as" for a
    using aid_eq [OF assms(1) that assms(2)] assms(3) by auto
  then show ?thesis by (auto intro!: filter_cong)
qed

lemma filter_matches_one:
  assumes "distinct (map aid as)" "filter P as = [f]"
  shows "filter P (filter (\<lambda>a. aid a \<noteq> aid f) as) = []"
proof -
  have "a = f" if "a \<in> set as" "P a" for a
  proof -
    have "a \<in> set (filter P as)" using that by simp
    then show ?thesis unfolding assms(2) by simp
  qed
  then show ?thesis by (auto simp: filter_empty_conv)
qed

lemma matches_value [simp]: "matches k sc (a\<lparr>actValue := w\<rparr>) = matches k sc a"
  by (simp add: matches_def)

lemma filter_matches_map:
  "filter (matches k sc) (map (\<lambda>a. if aid a = n then a\<lparr>actValue := w\<rparr> else a) as) =
     map (\<lambda>a. if aid a = n then a\<lparr>actValue := w\<rparr> else a) (filter (matches k sc) as)"
  by (induction as) auto

lemma set_get_parameter:
  assumes ok: "aids_ok r" and one: "length (filter (matches k sc) (acls r)) \<le> 1"
  shows "getParameterValue k sc (setParameter k v sc r) = Some v"
proof (cases "filter (matches k sc) (acls r)")
  case Nil
  then have "filter (matches k sc) (acls (setParameter k v sc r)) =
      [\<lparr>aid = nextAid r, nodeId = None, workspaceId = Some sc, roleId = rUuid (idmRole r), actName = k,
        actValue = print_json v, inherited = False\<rparr>]"
    by (simp add: setParameter_def Let_def matches_def)
  then show ?thesis by (simp add: getParameterValue_def getAclValue_def parse_print)
next
  case (Cons f fs)
  then have f: "filter (matches k sc) (acls r) = [f]" using one by simp
  have pv: "parentValue k sc (setParameter k v sc r) = parentValue k sc r" by (rule parentValue_cong) simp_all
  show ?thesis
  proof (cases "parentValue k sc r")
    case None
    then have "filter (matches k sc) (acls (setParameter k v sc r)) = [f\<lparr>actValue := print_json v\<rparr>]"
      using f by (simp add: setParameter_def Let_def filter_matches_map)
    then show ?thesis by (simp add: getParameterValue_def getAclValue_def parse_print)
  next
    case (Some p)
    show ?thesis
    proof (cases "strict_eq p v")
      case True
      then have "filter (matches k sc) (acls (setParameter k v sc r)) = []"
        using f Some ok filter_matches_one [of "acls r" "matches k sc" f]
        by (simp add: setParameter_def Let_def aids_ok_def)
      then show ?thesis using True Some pv strict_eq_eq by (auto simp: getParameterValue_def getAclValue_def)
    next
      case False
      then have "filter (matches k sc) (acls (setParameter k v sc r)) = [f\<lparr>actValue := print_json v\<rparr>]"
        using f Some by (simp add: setParameter_def Let_def filter_matches_map)
      then show ?thesis by (simp add: getParameterValue_def getAclValue_def parse_print)
    qed
  qed
qed

lemma map_same_aid:
  "distinct (map aid as) \<Longrightarrow> f \<in> set as \<Longrightarrow> \<not> matches k sc f \<Longrightarrow>
   map (\<lambda>a. if aid a = aid f then a\<lparr>actValue := w\<rparr> else a) (filter (matches k sc) as) = filter (matches k sc) as"
  by (rule map_idI) (auto dest: aid_eq)

lemma set_get_other:
  assumes ok: "aids_ok r" and ne: "k' \<noteq> k \<or> sc' \<noteq> sc"
  shows "getParameterValue k' sc' (setParameter k v sc r) = getParameterValue k' sc' r"
proof -
  have d: "distinct (map aid (acls r))" using ok by (simp add: aids_ok_def)
  have pv: "parentValue k' sc' (setParameter k v sc r) = parentValue k' sc' r" by (rule parentValue_cong) simp_all
  have "filter (matches k' sc') (acls (setParameter k v sc r)) = filter (matches k' sc') (acls r)"
  proof (cases "filter (matches k sc) (acls r)")
    case Nil
    then show ?thesis using ne by (auto simp: setParameter_def Let_def matches_def)
  next
    case (Cons f fs)
    then have "f \<in> set (filter (matches k sc) (acls r))" by simp
    then have f: "f \<in> set (acls r)" "\<not> matches k' sc' f" using ne by (auto simp: matches_def)
    show ?thesis
      using Cons filter_aid_matches [OF d f(1), of "matches k' sc'", OF f(2)] map_same_aid [OF d f]
      by (auto simp: setParameter_def Let_def filter_matches_map split: option.split)
  qed
  then show ?thesis by (simp add: getParameterValue_def getAclValue_def pv)
qed

section \<open>What a save leaves on the server\<close>

lemma acl_equals_equiv: "acl_equals a a" "acl_equals a b = acl_equals b a"
  "acl_equals a b \<Longrightarrow> acl_equals b c \<Longrightarrow> acl_equals a c"
  by (auto simp: acl_equals_def)

text \<open>The server's rules once the deletes then the inserts have been applied.\<close>

definition after_diff :: "acl list \<Rightarrow> acl list \<times> acl list \<Rightarrow> acl list" where
  "after_diff previous d = filter (\<lambda>a. a \<notin> set (snd d)) previous @ fst d"

lemma diffAcls_applied:
  "list_ex (acl_equals x) (after_diff previous (diffAcls previous next)) \<longleftrightarrow> list_ex (acl_equals x) next"
proof
  assume "list_ex (acl_equals x) (after_diff previous (diffAcls previous next))"
  then obtain a where a: "acl_equals x a" "a \<in> set next \<or> a \<in> set previous \<and> list_ex (acl_equals a) next"
    by (auto simp: after_diff_def diffAcls_def list_ex_iff)
  then show "list_ex (acl_equals x) next" using acl_equals_equiv(3) by (auto simp: list_ex_iff)
next
  assume "list_ex (acl_equals x) next"
  then obtain b where b: "b \<in> set next" "acl_equals x b" by (auto simp: list_ex_iff)
  show "list_ex (acl_equals x) (after_diff previous (diffAcls previous next))"
  proof (cases "list_ex (acl_equals b) previous")
    case True
    then obtain a where a: "a \<in> set previous" "acl_equals b a" by (auto simp: list_ex_iff)
    then have "list_ex (acl_equals a) next" using b(1) acl_equals_equiv(2) by (auto simp: list_ex_iff)
    then have "a \<in> set (after_diff previous (diffAcls previous next))"
      using a(1) by (simp add: after_diff_def diffAcls_def)
    then show ?thesis using acl_equals_equiv(3) [OF b(2) a(2)] by (auto simp: list_ex_iff)
  next
    case False
    then have "b \<in> set (after_diff previous (diffAcls previous next))"
      using b(1) by (simp add: after_diff_def diffAcls_def)
    then show ?thesis using b(2) by (auto simp: list_ex_iff)
  qed
qed

section \<open>Policies in the store's form\<close>

lemma starts_policy: "starts_with ''policy:'' s \<longleftrightarrow> (\<exists>p. s = ''policy:'' @ p)"
  unfolding starts_with_def by (metis append_eq_conv_conj append_take_drop_id)

lemma split_policy: "js_split CHR '':'' (''policy:'' @ p) = ''policy'' # js_split CHR '':'' p"
  using js_split_append [of "CHR '':''" "''policy''" p] by simp

lemma policy_roundtrip:
  assumes "\<And>a. a \<in> set as \<Longrightarrow> policy_acl a \<Longrightarrow> actValue a = ''1'' \<and> CHR '':'' \<notin> set (drop 7 (actName a))"
    and "\<And>a. a \<in> set as \<Longrightarrow> actName a \<noteq> ''policy''"
  shows "FormatPolicyAclFromStore (FormatPolicyAclToStore as) = as"
  using assms
proof (induction as)
  case (Cons a as)
  have "FormatPolicyAclFromStore (FormatPolicyAclToStore [a]) = [a]"
  proof (cases "policy_acl a")
    case True
    then obtain p where p: "actName a = ''policy:'' @ p" by (auto simp: policy_acl_def starts_policy)
    then have "CHR '':'' \<notin> set p" "actValue a = ''1''" using Cons.prems(1) [of a] True by auto
    then show ?thesis
      using True p split_policy [of p] by (simp add: FormatPolicyAclToStore_def FormatPolicyAclFromStore_def js_split_no_sep)
  next
    case False
    then show ?thesis
      using Cons.prems(2) [of a] by (simp add: FormatPolicyAclToStore_def FormatPolicyAclFromStore_def)
  qed
  then show ?case using Cons by (simp add: FormatPolicyAclToStore_def FormatPolicyAclFromStore_def)
qed (simp add: FormatPolicyAclToStore_def FormatPolicyAclFromStore_def)

section \<open>Rights read back\<close>

lemma new_acls_bare:
  "map (\<lambda>a. (actName a, nodeId a, workspaceId a, actValue a)) (new_acls n rid wsId rs nids) =
     map (\<lambda>(r, nid). (r, Some nid, wsId, ''1'')) (List.product rs nids)"
  by (rule nth_equalityI) (simp_all add: new_acls_def split: prod.split)

lemma new_acls_in:
  assumes "a \<in> set (new_acls n rid wsId rs nids)"
  shows "actName a \<in> set rs \<and> (\<exists>nid \<in> set nids. nodeId a = Some nid) \<and> workspaceId a = wsId \<and> actValue a = ''1''"
proof -
  have "(actName a, nodeId a, workspaceId a, actValue a) \<in>
      set (map (\<lambda>(r, nid). (r, Some nid, wsId, ''1'')) (List.product rs nids))"
    unfolding new_acls_bare [of n rid, symmetric] using assms by force
  then show ?thesis by auto
qed

lemma new_acls_has:
  assumes "r \<in> set rs" "nid \<in> set nids"
  shows "\<exists>a \<in> set (new_acls n rid wsId rs nids). actName a = r \<and> nodeId a = Some nid \<and> workspaceId a = wsId \<and> actValue a = ''1''"
proof -
  have "(r, Some nid, wsId, ''1'') \<in> set (map (\<lambda>(r, nid). (r, Some nid, wsId, ''1'')) (List.product rs nids))"
    using assms by force
  then have "(r, Some nid, wsId, ''1'') \<in>
      set (map (\<lambda>a. (actName a, nodeId a, workspaceId a, actValue a)) (new_acls n rid wsId rs nids))"
    by (simp only: new_acls_bare)
  then show ?thesis by force
qed

definition plain_rights :: "string list" where
  "plain_rights = [''read'', ''write'', ''deny'']"

lemma plain_not_policy: "r \<in> set plain_rights \<Longrightarrow> actName a = r \<Longrightarrow> \<not> policy_acl a"
  by (auto simp: plain_rights_def policy_acl_def starts_with_def)

text \<open>The rules kept do not speak of the root node; those added give exactly the rights asked.\<close>

lemma aclString_updated:
  assumes rs: "set rs \<subseteq> set plain_rights" and n: "nid \<in> set nids" and ws: "wsId = Some w" "w \<noteq> []"
    and kept: "\<And>a. a \<in> set kept \<Longrightarrow> global_acl a \<Longrightarrow> \<not> in_scope wsId nid a"
  shows "aclStringForAcls (kept @ new_acls m rid wsId rs nids) wsId nid =
    (if rs = [] then None else Some (filter (\<lambda>r. r \<in> set rs) plain_rights))"
proof -
  let ?all = "kept @ new_acls m rid wsId rs nids"
  have np: "filter (\<lambda>a. policy_acl a \<and> in_scope wsId nid a) ?all = []"
  proof -
    have "\<not> policy_acl a" if "a \<in> set (new_acls m rid wsId rs nids)" for a
      using new_acls_in [OF that] rs plain_not_policy by blast
    then show ?thesis using kept by (auto simp: filter_empty_conv global_acl_def)
  qed
  have r: "filter (\<lambda>a. actName a = rn \<and> in_scope wsId nid a) ?all \<noteq> [] \<longleftrightarrow> rn \<in> set rs"
    if rn: "rn \<in> set plain_rights" for rn
  proof -
    have "\<not> (\<exists>a \<in> set kept. actName a = rn \<and> in_scope wsId nid a)"
      using kept rn by (auto simp: global_acl_def plain_rights_def)
    moreover have "(\<exists>a \<in> set (new_acls m rid wsId rs nids). actName a = rn \<and> in_scope wsId nid a) \<longleftrightarrow> rn \<in> set rs"
      using new_acls_in [of _ m rid wsId rs nids] new_acls_has [OF _ n, of rn rs m rid wsId]
      by (auto simp: in_scope_def)
    ultimately show ?thesis by (auto simp: filter_empty_conv)
  qed
  have eq: "filter (\<lambda>rn. filter (\<lambda>a. actName a = rn \<and> in_scope wsId nid a) ?all \<noteq> []) plain_rights =
      filter (\<lambda>r. r \<in> set rs) plain_rights"
    using r by (intro filter_cong) auto
  have "filter (\<lambda>r. r \<in> set rs) plain_rights = [] \<longleftrightarrow> rs = []"
    using rs by (cases rs) (auto simp: filter_empty_conv)
  then show ?thesis
    using np eq unfolding aclStringForAcls_def plain_rights_def by (simp only: list.case Let_def split: if_split)
qed

lemma update_get_rights:
  assumes w: "wsUuid w \<noteq> []" "rootNodes w = (n, n) # rest"
    and rs: "rs \<noteq> []" "set rs \<subseteq> set plain_rights"
    and loaded: "\<And>p. p \<in> set (parentRoles r) \<Longrightarrow> map_of (parentAcls r) (rUuid p) \<noteq> None"
  shows "\<exists>t. updateAcl (Some w) [] (js_join '','' rs) None r = Some t \<and> dirty t \<and>
     getAclString (Some w) [] t = Some (js_join '','' (filter (\<lambda>x. x \<in> set rs) plain_rights), False)"
proof -
  let ?kept = "filter (\<lambda>a. \<not> (global_acl a \<and> workspaceId a = Some (wsUuid w)
      \<and> (\<exists>m \<in> set (map fst (rootNodes w)). nodeId a = Some m) \<and> actValue a = ''1'')) (acls r)"
  let ?new = "new_acls (nextAid r) (rUuid (idmRole r)) (Some (wsUuid w)) rs (map fst (rootNodes w))"
  have "\<forall>x \<in> set rs. CHR '','' \<notin> set x" using rs(2) by (auto simp: plain_rights_def)
  then have sp: "js_split CHR '','' (js_join '','' rs) = rs" using rs(1) by (intro js_split_join) auto
  have ne: "js_join '','' rs \<noteq> []"
  proof
    assume "js_join '','' rs = []"
    then have "rs = [[]]" using sp by simp
    then show False using rs(2) by (simp add: plain_rights_def)
  qed
  obtain t where t: "updateAcl (Some w) [] (js_join '','' rs) None r = Some t" "acls t = ?kept @ ?new"
    "parentRoles t = parentRoles r" "parentAcls t = parentAcls r" "dirty t"
    by (simp add: updateAcl_def Let_def sp ne)
  have "aclStringForAcls (acls t) (Some (wsUuid w)) n = Some (filter (\<lambda>x. x \<in> set rs) plain_rights)"
    unfolding t(2)
    by (subst aclString_updated [OF rs(2)]) (use w rs(1) in \<open>auto simp: in_scope_def\<close>)
  moreover have "\<not> list_ex (\<lambda>p. map_of (parentAcls t) (rUuid p) = None) (parentRoles t)"
    using loaded t by (auto simp: list_ex_iff)
  ultimately show ?thesis using t w by (auto simp: getAclString_def Let_def)
qed

section \<open>Snapshots\<close>

text \<open>The edits between two snapshots.\<close>

inductive role_edit :: "role \<Rightarrow> role \<Rightarrow> bool" where
  "role_edit r (setParameter k v sc r)"
| "role_edit r (deleteParameter a r)"
| "updateAcl ws n v nw r = Some t \<Longrightarrow> role_edit r t"
| "role_edit r (setRoleProp p j r)"
| "role_edit r (updateParentRoles ps r)"

definition role_view :: "role \<Rightarrow> idm_role \<times> acl list" where
  "role_view r = (idmRole r, map bare (acls r))"

definition role_base :: "role \<Rightarrow> idm_role \<times> acl list" where
  "role_base r = (snapshot r, map bare (aclSnapshot r))"

lemma updateAcl_base: "updateAcl ws n v nw r = Some t \<Longrightarrow> snapshot t = snapshot r \<and> aclSnapshot t = aclSnapshot r"
  by (auto simp: updateAcl_def Let_def split: if_splits option.splits)

interpretation role_snapshot: snapshot_model role_view role_base revertRole role_edit
proof
  show "role_base t = role_base s" if "role_edit s t" for s t
    using that by cases (auto simp: role_base_def updateAcl_base deleteParameter_def setRoleProp_def updateParentRoles_def)
  show "role_view (revertRole s) = role_base s" for s
    by (simp add: role_view_def role_base_def revertRole_def)
  show "role_base (revertRole s) = role_base s" for s
    by (simp add: role_base_def revertRole_def bare_copies)
qed

lemma snapshot_clean: "role_view (makeSnapshot r) = role_base (makeSnapshot r)"
  by (simp add: role_view_def role_base_def bare_copies)

end
