(* ===== verification/UserModel.thy ===== *)
theory UserModel
  imports RoleAcls
begin

text \<open>
  The user editor's model (\<open>access.settings/res/js/AdminPeople/editor/model/User.js\<close>): a user with
  its list of roles, its own role's model, which inherits from the other roles, and a snapshot.

  An element of the list of roles can be \<open>undefined\<close> (\<open>None\<close>): \<open>switchRoles\<close> writes such elements.
  Reading its \<open>Uuid\<close> throws, and an operation that throws returns \<open>None\<close>. The user's own role is
  also the object held by its \<open>Role\<close> model; only its \<open>Uuid\<close> is used here.
\<close>

record idm_user =
  uUuid :: string
  isGroup :: bool
  roles :: "idm_role option list"
  uProps :: "(string, json) obj"

record user_model =
  idmUser :: idm_user
  ownRole :: "idm_role option"
  roleModel :: role
  userDirty :: bool
  userSnapshot :: idm_user
  userUpdates :: nat

text \<open>\<open>Roles.filter(r => p(r.Uuid))\<close>.\<close>

definition filter_roles :: "(string \<Rightarrow> bool) \<Rightarrow> idm_role option list \<Rightarrow> idm_role option list option" where
  "filter_roles p rs = (if None \<in> set rs then None else Some (filter (\<lambda>r. p (rUuid (the r))) rs))"

definition makeUserSnapshot :: "user_model \<Rightarrow> user_model" where
  "makeUserSnapshot u = u\<lparr>userSnapshot := idmUser u\<rparr>"

text \<open>
  The constructor, for a user with roles; \<open>fresh\<close> is the identifier a role model gets when the
  user has no role of its own.
\<close>

definition newUser :: "string \<Rightarrow> idm_user \<Rightarrow> user_model option" where
  "newUser fresh iu =
     (case filter_roles (\<lambda>i. i = uUuid iu) (roles iu) of
        None \<Rightarrow> None
      | Some own \<Rightarrow>
          let ir = (case own of [] \<Rightarrow> None | r # _ \<Rightarrow> r);
              parents = (if isGroup iu then [] else map the (filter (\<lambda>r. rUuid (the r) \<noteq> uUuid iu) (roles iu)))
          in Some (makeUserSnapshot
               \<lparr>idmUser = iu, ownRole = ir,
                roleModel = newRole (case ir of Some r \<Rightarrow> r | None \<Rightarrow> \<lparr>rUuid = fresh, rProps = []\<rparr>) parents,
                userDirty = False, userSnapshot = iu, userUpdates = 0\<rparr>))"

text \<open>The observer of the role's \<open>update\<close>.\<close>

definition roleUpdated :: "user_model \<Rightarrow> user_model" where
  "roleUpdated u = u\<lparr>userDirty := userDirty u \<or> dirty (roleModel u), userUpdates := Suc (userUpdates u)\<rparr>"

definition editRole :: "(role \<Rightarrow> role) \<Rightarrow> user_model \<Rightarrow> user_model" where
  "editRole f u = roleUpdated (u\<lparr>roleModel := f (roleModel u)\<rparr>)"

text \<open>Writing a field through \<open>getIdmUser()\<close>'s proxy.\<close>

definition setUserProp :: "string \<Rightarrow> json \<Rightarrow> user_model \<Rightarrow> user_model" where
  "setUserProp p v u =
     u\<lparr>idmUser := (idmUser u)\<lparr>uProps := obj_set p v (uProps (idmUser u))\<rparr>, userDirty := True,
       userUpdates := Suc (userUpdates u)\<rparr>"

text \<open>
  The list written back and the role's parents. The parents' rules arrive later, through
  \<open>editRole (updateParentRoles_done collection)\<close>.
\<close>

definition set_parents :: "idm_role option list \<Rightarrow> user_model \<Rightarrow> user_model" where
  "set_parents ps u =
     u\<lparr>idmUser := (idmUser u)\<lparr>roles := ps @ [ownRole u]\<rparr>, userDirty := True,
       roleModel := updateParentRoles (map the ps) (roleModel u)\<rparr>"

definition addRole :: "idm_role \<Rightarrow> user_model \<Rightarrow> user_model option" where
  "addRole role u =
     map_option (\<lambda>ps. set_parents (filter (\<lambda>r. rUuid (the r) \<noteq> rUuid role) ps @ [Some role]) u)
       (filter_roles (\<lambda>i. i \<noteq> uUuid (idmUser u)) (roles (idmUser u)))"

definition removeRole :: "idm_role \<Rightarrow> user_model \<Rightarrow> user_model option" where
  "removeRole role u =
     map_option (\<lambda>ps. set_parents ps u)
       (filter_roles (\<lambda>i. i \<noteq> uUuid (idmUser u) \<and> i \<noteq> rUuid role) (roles (idmUser u)))"

text \<open>
  The last positions of the two identifiers, as the loop leaves them. Writing at an undefined
  position does not change the elements; reading there gives \<open>undefined\<close>.
\<close>

definition last_pos :: "('a \<Rightarrow> bool) \<Rightarrow> 'a list \<Rightarrow> nat option" where
  "last_pos p xs = (case filter (\<lambda>i. p (xs ! i)) [0..<length xs] of [] \<Rightarrow> None | is \<Rightarrow> Some (last is))"

definition write_at :: "nat option \<Rightarrow> 'a \<Rightarrow> 'a list \<Rightarrow> 'a list" where
  "write_at p x xs = (case p of None \<Rightarrow> xs | Some i \<Rightarrow> xs[i := x])"

definition read_at :: "nat option \<Rightarrow> 'a option list \<Rightarrow> 'a option" where
  "read_at p xs = (case p of None \<Rightarrow> None | Some i \<Rightarrow> xs ! i)"

definition switch :: "string \<Rightarrow> string \<Rightarrow> idm_role option list \<Rightarrow> idm_role option list" where
  "switch id1 id2 ps =
     (let pos1 = last_pos (\<lambda>r. rUuid (the r) = id1) ps;
          pos2 = last_pos (\<lambda>r. rUuid (the r) \<noteq> id1 \<and> rUuid (the r) = id2) ps;
          b = read_at pos1 ps
      in write_at pos2 b (write_at pos1 (read_at pos2 ps) ps))"

definition switchRoles :: "string \<Rightarrow> string \<Rightarrow> user_model \<Rightarrow> user_model option" where
  "switchRoles id1 id2 u =
     map_option (\<lambda>ps. set_parents (switch id1 id2 ps) u)
       (filter_roles (\<lambda>i. i \<noteq> uUuid (idmUser u)) (roles (idmUser u)))"

text \<open>\<open>save\<close>: what follows the answer; a dirty role is saved first (\<open>role_saved\<close> is its state after).\<close>

definition userSave_done :: "idm_user \<Rightarrow> role \<Rightarrow> user_model \<Rightarrow> user_model" where
  "userSave_done newU role_saved u =
     (let u1 = u\<lparr>idmUser := newU\<rparr>;
          u2 = (if dirty (roleModel u) then roleUpdated (u1\<lparr>roleModel := role_saved\<rparr>) else u1)
      in (makeUserSnapshot u2)\<lparr>userDirty := False, userUpdates := Suc (userUpdates u2)\<rparr>)"

definition revertUser :: "user_model \<Rightarrow> user_model" where
  "revertUser u =
     editRole revertRole
       ((makeUserSnapshot (u\<lparr>idmUser := userSnapshot u\<rparr>))\<lparr>userDirty := False, userUpdates := Suc (userUpdates u)\<rparr>)"

section \<open>The list of roles\<close>

definition parents_of :: "user_model \<Rightarrow> idm_role option list" where
  "parents_of u = filter (\<lambda>r. rUuid (the r) \<noteq> uUuid (idmUser u)) (roles (idmUser u))"

text \<open>The editor's invariant: every role is there, the parents are distinct and the role model has them.\<close>

definition roles_ok :: "user_model \<Rightarrow> bool" where
  "roles_ok u \<longleftrightarrow> None \<notin> set (roles (idmUser u)) \<and> ownRole u \<noteq> None
     \<and> rUuid (the (ownRole u)) = uUuid (idmUser u)
     \<and> distinct (map (rUuid \<circ> the) (parents_of u)) \<and> parentRoles (roleModel u) = map the (parents_of u)"

lemma filter_roles_some: "None \<notin> set rs \<Longrightarrow> filter_roles p rs = Some (filter (\<lambda>r. p (rUuid (the r))) rs)"
  by (simp add: filter_roles_def)

lemma set_parents_ok:
  assumes u: "ownRole u \<noteq> None" "rUuid (the (ownRole u)) = uUuid (idmUser u)"
    and ps: "None \<notin> set ps" "distinct (map (rUuid \<circ> the) ps)" "\<And>r. r \<in> set ps \<Longrightarrow> rUuid (the r) \<noteq> uUuid (idmUser u)"
  shows "roles_ok (set_parents ps u) \<and> parents_of (set_parents ps u) = ps \<and> userDirty (set_parents ps u)"
proof -
  have p: "parents_of (set_parents ps u) = ps"
    using u ps by (simp add: parents_of_def set_parents_def filter_id_conv)
  obtain own where own: "ownRole u = Some own" using u(1) by auto
  have "None \<notin> set (ps @ [ownRole u])" using ps(1) own by simp
  then show ?thesis using own u(2) ps unfolding roles_ok_def p by (simp add: set_parents_def updateParentRoles_def)
qed

text \<open>What the invariant says of the parents.\<close>

lemma roles_okD:
  assumes "roles_ok u"
  shows "None \<notin> set (roles (idmUser u))" "None \<notin> set (parents_of u)" "ownRole u \<noteq> None"
    "rUuid (the (ownRole u)) = uUuid (idmUser u)" "distinct (map (rUuid \<circ> the) (parents_of u))"
    "\<And>r. r \<in> set (parents_of u) \<Longrightarrow> rUuid (the r) \<noteq> uUuid (idmUser u)"
    "filter_roles (\<lambda>i. i \<noteq> uUuid (idmUser u)) (roles (idmUser u)) = Some (parents_of u)"
  using assms by (auto simp: roles_ok_def parents_of_def filter_roles_def)

lemma addRole_parents:
  assumes u: "roles_ok u" and r: "rUuid role \<noteq> uUuid (idmUser u)"
  shows "\<exists>t. addRole role u = Some t \<and> roles_ok t \<and> userDirty t \<and>
     parents_of t = filter (\<lambda>x. rUuid (the x) \<noteq> rUuid role) (parents_of u) @ [Some role]"
proof -
  let ?ps = "filter (\<lambda>x. rUuid (the x) \<noteq> rUuid role) (parents_of u) @ [Some role]"
  note ok = roles_okD [OF u]
  have "distinct (map (rUuid \<circ> the) (filter (\<lambda>x. rUuid (the x) \<noteq> rUuid role) (parents_of u)))"
    using ok(5) by (rule distinct_map_filter)
  then have "roles_ok (set_parents ?ps u) \<and> parents_of (set_parents ?ps u) = ?ps \<and> userDirty (set_parents ?ps u)"
    using ok(2-4,6) r by (intro set_parents_ok) auto
  then show ?thesis by (simp add: addRole_def ok(7))
qed

lemma removeRole_parents:
  assumes u: "roles_ok u"
  shows "\<exists>t. removeRole role u = Some t \<and> roles_ok t \<and> userDirty t \<and>
     parents_of t = filter (\<lambda>x. rUuid (the x) \<noteq> rUuid role) (parents_of u)"
proof -
  let ?ps = "filter (\<lambda>x. rUuid (the x) \<noteq> rUuid role) (parents_of u)"
  note ok = roles_okD [OF u]
  have "removeRole role u = Some (set_parents ?ps u)"
    using filter_roles_some [OF ok(1), of "\<lambda>i. i \<noteq> uUuid (idmUser u) \<and> i \<noteq> rUuid role"]
    by (simp add: removeRole_def parents_of_def conj_commute)
  moreover have "distinct (map (rUuid \<circ> the) ?ps)" using ok(5) by (rule distinct_map_filter)
  then have "roles_ok (set_parents ?ps u) \<and> parents_of (set_parents ?ps u) = ?ps \<and> userDirty (set_parents ?ps u)"
    using ok(2-4,6) by (intro set_parents_ok) auto
  ultimately show ?thesis by simp
qed

section \<open>Switching two roles\<close>

lemma last_pos_unique:
  assumes "i < length xs" "p (xs ! i)" "\<And>j. j < length xs \<Longrightarrow> p (xs ! j) \<Longrightarrow> j = i"
  shows "last_pos p xs = Some i"
proof -
  have one: "ks = [i]" if "set ks = {i}" "distinct ks" for ks
  proof (cases ks)
    case (Cons k ks')
    then have "set ks' \<subseteq> {i}" "i \<notin> set ks'" "k = i" using that by auto
    then show ?thesis using Cons by (cases ks') auto
  qed (use that in simp)
  have "set (filter (\<lambda>j. p (xs ! j)) [0..<length xs]) = {i}"
    by (auto dest: assms(3) simp: assms(1,2))
  then have "filter (\<lambda>j. p (xs ! j)) [0..<length xs] = [i]" by (rule one) simp
  then show ?thesis by (simp add: last_pos_def)
qed

lemma switch_swaps:
  assumes d: "distinct (map (rUuid \<circ> the) ps)" and i: "i < length ps" "j < length ps" "i \<noteq> j"
  shows "switch (rUuid (the (ps ! i))) (rUuid (the (ps ! j))) ps = ps[i := ps ! j, j := ps ! i]"
proof -
  have u: "rUuid (the (ps ! k)) = rUuid (the (ps ! l)) \<longleftrightarrow> k = l" if "k < length ps" "l < length ps" for k l
    using d that nth_eq_iff_index_eq [of "map (rUuid \<circ> the) ps" k l] by simp
  have "last_pos (\<lambda>r. rUuid (the r) = rUuid (the (ps ! i))) ps = Some i"
  proof (rule last_pos_unique [OF i(1)])
    fix k assume "k < length ps" "rUuid (the (ps ! k)) = rUuid (the (ps ! i))"
    then show "k = i" using u [of k i] i(1) by blast
  qed simp
  moreover have "last_pos (\<lambda>r. rUuid (the r) \<noteq> rUuid (the (ps ! i)) \<and> rUuid (the r) = rUuid (the (ps ! j))) ps = Some j"
  proof (rule last_pos_unique [OF i(2)])
    show "rUuid (the (ps ! j)) \<noteq> rUuid (the (ps ! i)) \<and> rUuid (the (ps ! j)) = rUuid (the (ps ! j))"
      using u [of j i] i by blast
    fix k assume "k < length ps"
      "rUuid (the (ps ! k)) \<noteq> rUuid (the (ps ! i)) \<and> rUuid (the (ps ! k)) = rUuid (the (ps ! j))"
    then show "k = j" using u [of k j] i(2) by blast
  qed
  ultimately show ?thesis by (simp add: switch_def read_at_def write_at_def Let_def)
qed

lemma switchRoles_parents:
  assumes u: "roles_ok u" and i: "i < length (parents_of u)" "j < length (parents_of u)" "i \<noteq> j"
  shows "\<exists>t. switchRoles (rUuid (the (parents_of u ! i))) (rUuid (the (parents_of u ! j))) u = Some t \<and> roles_ok t
     \<and> parents_of t = (parents_of u)[i := parents_of u ! j, j := parents_of u ! i]"
proof -
  let ?ps = "(parents_of u)[i := parents_of u ! j, j := parents_of u ! i]"
  note ok = roles_okD [OF u]
  have st: "set ?ps = set (parents_of u)" using i by simp
  have "distinct (map (rUuid \<circ> the) ?ps)"
    using ok(5) i by (simp add: map_update)
      (metis comp_apply distinct_swap length_map nth_map)
  then have "roles_ok (set_parents ?ps u) \<and> parents_of (set_parents ?ps u) = ?ps \<and> userDirty (set_parents ?ps u)"
    using ok(2-4,6) st by (intro set_parents_ok) (auto simp del: set_swap)
  then show ?thesis by (simp add: switchRoles_def ok(7) switch_swaps [OF ok(5) i])
qed

text \<open>A role switched with itself is lost: an \<open>undefined\<close> takes its place.\<close>

lemma switch_self:
  assumes d: "distinct (map (rUuid \<circ> the) ps)" and i: "i < length ps"
  shows "switch (rUuid (the (ps ! i))) (rUuid (the (ps ! i))) ps = ps[i := None]"
proof -
  have "rUuid (the (ps ! k)) = rUuid (the (ps ! i)) \<longleftrightarrow> k = i" if "k < length ps" for k
    using d that i nth_eq_iff_index_eq [of "map (rUuid \<circ> the) ps" k i] by simp
  then have "last_pos (\<lambda>r. rUuid (the r) = rUuid (the (ps ! i))) ps = Some i"
    by (intro last_pos_unique i) blast+
  moreover have "last_pos (\<lambda>r. rUuid (the r) \<noteq> rUuid (the (ps ! i)) \<and> rUuid (the r) = rUuid (the (ps ! i))) ps = None"
    by (simp add: last_pos_def)
  ultimately show ?thesis by (simp add: switch_def read_at_def write_at_def Let_def)
qed

section \<open>Snapshots\<close>

inductive user_edit :: "user_model \<Rightarrow> user_model \<Rightarrow> bool" where
  "addRole r u = Some t \<Longrightarrow> user_edit u t"
| "removeRole r u = Some t \<Longrightarrow> user_edit u t"
| "switchRoles i j u = Some t \<Longrightarrow> user_edit u t"
| "user_edit u (setUserProp p v u)"
| "user_edit u (editRole f u)"

lemma set_parents_snapshot [simp]: "userSnapshot (set_parents ps u) = userSnapshot u"
  by (simp add: set_parents_def)

interpretation user_snapshot: snapshot_model idmUser userSnapshot revertUser user_edit
proof
  show "userSnapshot t = userSnapshot s" if "user_edit s t" for s t
    using that
    by cases (auto simp: addRole_def removeRole_def switchRoles_def setUserProp_def editRole_def roleUpdated_def)
qed (simp_all add: revertUser_def editRole_def roleUpdated_def makeUserSnapshot_def)

text \<open>Reverting leaves the role model's parents as they were: it does not read the restored list.\<close>

lemma revert_parents_stale: "parentRoles (roleModel (revertUser u)) = parentRoles (roleModel u)"
  by (simp add: revertUser_def editRole_def roleUpdated_def makeUserSnapshot_def revertRole_def)

end
