(* ===== verification/WorkspaceModels.thy ===== *)
theory WorkspaceModels
  imports Json Paths Snapshots
begin

text \<open>
  The models of the workspace administration (\<open>access.settings/res/js/AdminWorkspaces/model\<close>):
  \<open>Ws.js\<close>, \<open>DataSource.js\<close>, \<open>VirtualNode.js\<close>, \<open>Metadata.js\<close>. Their objects come from the server as
  JSON and are written through proxies, so an object is a list of fields with JSON values. What
  throws in the code returns \<open>None\<close>, or \<open>True\<close> beside the state when the state is already changed.
\<close>

section \<open>Objects with JSON fields\<close>

type_synonym fields = "(string, json) obj"

fun truthy :: "json option \<Rightarrow> bool" where
  "truthy None = False"
| "truthy (Some JNull) = False"
| "truthy (Some (JBool b)) = b"
| "truthy (Some (JNum i)) = (i \<noteq> 0)"
| "truthy (Some (JStr s)) = (s \<noteq> [])"
| "truthy (Some _) = True"

text \<open>The object parsed from members: a repeated key keeps its first place and its last value.\<close>

definition fields_of :: "(string \<times> json) list \<Rightarrow> fields" where
  "fields_of ms = foldl (\<lambda>o1 (k, v). obj_set k v o1) [] ms"

lemma obj_set_new: "k \<notin> fst ` set o1 \<Longrightarrow> obj_set k v o1 = o1 @ [(k, v)]"
  by (induction o1) auto

lemma fields_of_distinct:
  assumes "distinct (map fst ms)"
  shows "fields_of ms = ms"
proof -
  have "distinct (map fst (pre @ ms)) \<Longrightarrow> foldl (\<lambda>o1 (k, v). obj_set k v o1) pre ms = pre @ ms" for pre
  proof (induction ms arbitrary: pre)
    case (Cons m ms)
    obtain k v where m: "m = (k, v)" by fastforce
    have "k \<notin> fst ` set pre" using Cons.prems m by auto
    then show ?case using Cons.IH [of "pre @ [m]"] Cons.prems m by (simp add: obj_set_new)
  qed simp
  from this [of "[]"] show ?thesis using assms by (simp add: fields_of_def)
qed

lemma map_of_set [simp]: "map_of (obj_set k v o1) k' = (if k' = k then Some v else map_of o1 k')"
  by (simp add: update_conv')

section \<open>Workspaces\<close>

record ws =
  wsModel :: fields
  internalAttributes :: fields
  wsDirty :: bool
  create :: bool
  wsSnapshot :: "fields option"
  wsUpdates :: nat

text \<open>The proxy's \<open>set\<close>, on the model or on an object inside it.\<close>

definition ws_write :: "bool \<Rightarrow> string \<Rightarrow> json \<Rightarrow> fields \<Rightarrow> fields option" where
  "ws_write creating p value target =
     (if p = ''Slug'' then
        (case value of JStr s \<Rightarrow> Some (obj_set p (JStr (computeStringSlug s)) target) | _ \<Rightarrow> None)
      else if p = ''Label'' \<and> creating then
        (case value of
           JStr s \<Rightarrow> Some (obj_set p value (obj_set ''Slug'' (JStr (computeStringSlug s)) target))
         | _ \<Rightarrow> None)
      else Some (obj_set p value target))"

definition wsSet :: "string \<Rightarrow> json \<Rightarrow> ws \<Rightarrow> ws option" where
  "wsSet p v w =
     map_option (\<lambda>m. w\<lparr>wsModel := m, wsDirty := True, wsUpdates := Suc (wsUpdates w)\<rparr>)
       (ws_write (create w) p v (wsModel w))"

definition wsSetAttribute :: "string \<Rightarrow> json \<Rightarrow> ws \<Rightarrow> ws option" where
  "wsSetAttribute p v w =
     map_option (\<lambda>m. w\<lparr>internalAttributes := m, wsDirty := True, wsUpdates := Suc (wsUpdates w)\<rparr>)
       (ws_write (create w) p v (internalAttributes w))"

text \<open>
  The part of \<open>initModel\<close> that reads \<open>Attributes\<close>: the new attributes, or \<open>None\<close> when it throws.
  An object without members leaves the attributes that are there.
\<close>

definition read_attributes :: "json option \<Rightarrow> fields \<Rightarrow> fields option" where
  "read_attributes a old =
     (if truthy a then
        (case a of
           Some (JStr s) \<Rightarrow>
             (case parse_json s of
                None \<Rightarrow> None
              | Some JNull \<Rightarrow> None
              | Some (JObj ms) \<Rightarrow> Some (if ms \<noteq> [] then fields_of ms else old)
              | Some (JArr xs) \<Rightarrow> Some (if xs \<noteq> [] then zip (map nat_str [0..<length xs]) xs else old)
              | Some _ \<Rightarrow> Some old)
         | Some (JNum i) \<Rightarrow> Some old
         | Some (JBool b) \<Rightarrow> Some old
         | _ \<Rightarrow> None)
      else Some [])"

definition initModel :: "fields \<Rightarrow> ws \<Rightarrow> ws \<times> bool" where
  "initModel m w =
     (let w1 = w\<lparr>create := False, wsDirty := False, wsModel := m, wsSnapshot := Some m\<rparr>
      in case read_attributes (map_of m ''Attributes'') (internalAttributes w) of
           None \<Rightarrow> (w1, True)
         | Some atts \<Rightarrow>
             (w1\<lparr>internalAttributes := atts,
                wsModel := (if truthy (map_of m ''RootNodes'') then m else obj_set ''RootNodes'' (JObj []) m)\<rparr>,
              False))"

definition newWs :: ws where
  "newWs =
     \<lparr>wsModel = [(''Scope'', JStr ''ADMIN''), (''RootNodes'', JObj []), (''PoliciesContextEditable'', JBool True),
        (''Attributes'', JStr (print_json (JObj [(''DEFAULT_RIGHTS'', JStr [])])))],
      internalAttributes = [(''DEFAULT_RIGHTS'', JStr [])], wsDirty = False, create = True,
      wsSnapshot = None, wsUpdates = 0\<rparr>"

definition loadedWs :: "fields \<Rightarrow> ws \<times> bool" where
  "loadedWs m =
     initModel m \<lparr>wsModel = [], internalAttributes = [], wsDirty = False, create = False, wsSnapshot = None, wsUpdates = 0\<rparr>"

text \<open>\<open>save\<close>: what is sent, and what the answer does.\<close>

definition wsSave_request :: "ws \<Rightarrow> ws" where
  "wsSave_request w = w\<lparr>wsModel := obj_set ''Attributes'' (JStr (print_json (JObj (internalAttributes w)))) (wsModel w)\<rparr>"

definition wsSave_done :: "fields \<Rightarrow> ws \<Rightarrow> ws \<times> bool" where
  "wsSave_done answer w = initModel answer w"

definition revertWs :: "ws \<Rightarrow> ws \<times> bool" where
  "revertWs w = initModel (case wsSnapshot w of None \<Rightarrow> [] | Some m \<Rightarrow> m) w"

definition rootIsTemplatePath :: "json \<Rightarrow> bool" where
  "rootIsTemplatePath node =
     (case node of
        JObj ms \<Rightarrow>
          (case map_of ms ''MetaStore'' of Some (JObj meta) \<Rightarrow> truthy (map_of meta ''resolution'') | _ \<Rightarrow> False)
      | _ \<Rightarrow> False)"

definition root_nodes :: "ws \<Rightarrow> fields option" where
  "root_nodes w = (case map_of (wsModel w) ''RootNodes'' of Some (JObj ms) \<Rightarrow> Some ms | _ \<Rightarrow> None)"

definition hasTemplatePath :: "ws \<Rightarrow> bool option" where
  "hasTemplatePath w = map_option (\<lambda>ms. filter (\<lambda>(k, n). rootIsTemplatePath n) ms \<noteq> []) (root_nodes w)"

definition hasFolderRoots :: "ws \<Rightarrow> bool option" where
  "hasFolderRoots w = map_option (\<lambda>ms. filter (\<lambda>(k, n). \<not> rootIsTemplatePath n) ms \<noteq> []) (root_nodes w)"

definition wsIsValid :: "ws \<Rightarrow> bool option" where
  "wsIsValid w =
     (if truthy (map_of (wsModel w) ''Slug'') \<and> truthy (map_of (wsModel w) ''Label'')
      then map_option (\<lambda>ms. length ms > 0) (root_nodes w) else Some False)"

text \<open>Saving and loading the answer gives back the attributes that were edited.\<close>

lemma ws_attributes_roundtrip:
  assumes "distinct (map fst (internalAttributes w))" "internalAttributes w \<noteq> []"
  shows "\<exists>w'. wsSave_done (wsModel (wsSave_request w)) (wsSave_request w) = (w', False)
     \<and> internalAttributes w' = internalAttributes w \<and> \<not> wsDirty w' \<and> \<not> create w'"
proof -
  have "map_of (wsModel (wsSave_request w)) ''Attributes'' = Some (JStr (print_json (JObj (internalAttributes w))))"
    by (simp add: wsSave_request_def)
  moreover have "print_json (JObj (internalAttributes w)) \<noteq> []" using print_json_pos by blast
  ultimately have "read_attributes (map_of (wsModel (wsSave_request w)) ''Attributes'') old = Some (internalAttributes w)" for old
    using assms by (simp add: read_attributes_def parse_print fields_of_distinct del: print_json.simps)
  then show ?thesis by (simp add: wsSave_done_def initModel_def Let_def)
qed

text \<open>Once a workspace is being created, its slug is the slug of its label.\<close>

lemma ws_label_slug:
  assumes "create w" "wsSet ''Label'' (JStr s) w = Some t"
  shows "map_of (wsModel t) ''Slug'' = Some (JStr (computeStringSlug s)) \<and> map_of (wsModel t) ''Label'' = Some (JStr s) \<and> wsDirty t"
  using assms by (auto simp: wsSet_def ws_write_def)

text \<open>Reverting to a snapshot whose attributes are empty keeps the edited attributes.\<close>

lemma revert_keeps_attributes:
  assumes "wsSnapshot w = Some m" "map_of m ''Attributes'' = Some (JStr ''{}'')"
  shows "internalAttributes (fst (revertWs w)) = internalAttributes w"
proof -
  have "parse_json ''{}'' = Some (JObj [])" using parse_print [of "JObj []"] by simp
  then show ?thesis using assms by (simp add: revertWs_def initModel_def read_attributes_def)
qed

section \<open>Data sources\<close>

record ds =
  dsModel :: fields
  dsSnapshot :: "fields option"
  internalInvalid :: bool
  nameInvalid :: bool
  existingNames :: "string list"
  dsUpdates :: nat

definition ds_name :: "string \<Rightarrow> string" where
  "ds_name s = take 33 (js_replace (computeStringSlug s) ''-'' [])"

definition storage_defaults :: "json \<Rightarrow> fields" where
  "storage_defaults t =
     (if t = JStr ''LOCAL'' then [(''folder'', JStr []), (''normalize'', JStr ''false'')]
      else if t = JStr ''S3'' then [(''customEndpoint'', JStr [])]
      else if t = JStr ''GCS'' then [(''jsonCredentials'', JStr [])]
      else [])"

text \<open>The proxy's \<open>set\<close> on one object, with the two flags of the source.\<close>

definition ds_write :: "string list \<Rightarrow> string \<Rightarrow> json \<Rightarrow> fields \<times> bool \<times> bool \<Rightarrow> (fields \<times> bool \<times> bool) option" where
  "ds_write names p value = (\<lambda>(target, inv, ninv).
     if p = ''StorageType'' then
       Some (obj_set p value (obj_set ''ApiKey'' (JStr []) (obj_set ''ApiSecret'' (JStr [])
               (obj_set ''StorageConfiguration'' (JObj (storage_defaults value)) target))), False, ninv)
     else if p = ''Name'' then
       (case value of
          JStr s \<Rightarrow> Some (obj_set p (JStr (ds_name s)) target, inv, ds_name s \<in> set names)
        | _ \<Rightarrow> None)
     else if p = ''folder'' then
       (case value of
          JStr s \<Rightarrow> Some (obj_set p (JStr (if s \<noteq> [] \<and> hd s = CHR ''/'' then s else CHR ''/'' # s)) target, inv, ninv)
        | _ \<Rightarrow> None)
     else if p = ''invalid'' then Some (target, truthy (Some value), ninv)
     else if p = ''PeerAddress'' \<and> value = JStr ''ANY'' then Some (obj_set p (JStr []) target, inv, ninv)
     else Some (obj_set p value target, inv, ninv))"

definition dsSet :: "string \<Rightarrow> json \<Rightarrow> ds \<Rightarrow> ds option" where
  "dsSet p v d =
     map_option (\<lambda>(m, inv, ninv). d\<lparr>dsModel := m, internalInvalid := inv, nameInvalid := ninv, dsUpdates := Suc (dsUpdates d)\<rparr>)
       (ds_write (existingNames d) p v (dsModel d, internalInvalid d, nameInvalid d))"

definition dsSetStorage :: "string \<Rightarrow> json \<Rightarrow> ds \<Rightarrow> ds option" where
  "dsSetStorage p v d =
     (case map_of (dsModel d) ''StorageConfiguration'' of
        Some (JObj ms) \<Rightarrow>
          map_option (\<lambda>(m, inv, ninv).
              d\<lparr>dsModel := obj_set ''StorageConfiguration'' (JObj m) (dsModel d), internalInvalid := inv,
                nameInvalid := ninv, dsUpdates := Suc (dsUpdates d)\<rparr>)
            (ds_write (existingNames d) p v (ms, internalInvalid d, nameInvalid d))
      | _ \<Rightarrow> None)"

text \<open>The proxy's \<open>get\<close> of a field that is not an object.\<close>

definition dsGet :: "string \<Rightarrow> ds \<Rightarrow> json option" where
  "dsGet p d =
     (let out = map_of (dsModel d) p in
      if p = ''StorageType'' then (if truthy out then out else Some (JStr ''LOCAL''))
      else if p = ''PeerAddress'' then (if truthy out then out else Some (JStr ''ANY''))
      else out)"

definition newDs :: "string list \<Rightarrow> string \<Rightarrow> ds" where
  "newDs names createStructure =
     \<lparr>dsModel = [(''EncryptionMode'', JStr ''CLEAR''), (''StorageType'', JStr ''LOCAL'')] @
        (if createStructure = ''flat'' then
           [(''StorageConfiguration'', JObj [(''folder'', JStr []), (''normalize'', JStr ''false'')]), (''FlatStorage'', JBool True)]
         else if createStructure = ''structured'' then
           [(''StorageConfiguration'', JObj [(''folder'', JStr []), (''normalize'', JStr ''false'')]), (''FlatStorage'', JBool False)]
         else if createStructure = ''internal'' then
           [(''StorageConfiguration'', JObj [(''folder'', JStr []), (''normalize'', JStr ''false''), (''cellsInternal'', JStr ''true'')]),
            (''FlatStorage'', JBool True)]
         else []),
      dsSnapshot = None, internalInvalid = False, nameInvalid = False, existingNames = names, dsUpdates = 0\<rparr>"

definition loadedDs :: "fields \<Rightarrow> string list \<Rightarrow> ds" where
  "loadedDs m names =
     (let m1 = (if truthy (map_of m ''StorageConfiguration'') then m else obj_set ''StorageConfiguration'' (JObj []) m)
      in \<lparr>dsModel = m1, dsSnapshot = Some m1, internalInvalid = False, nameInvalid = False, existingNames = names, dsUpdates = 0\<rparr>)"

definition storage_field :: "string \<Rightarrow> ds \<Rightarrow> json option" where
  "storage_field k d = (case map_of (dsModel d) ''StorageConfiguration'' of Some (JObj ms) \<Rightarrow> map_of ms k | _ \<Rightarrow> None)"

definition dsIsValid :: "ds \<Rightarrow> bool" where
  "dsIsValid d =
     (let f = (\<lambda>k. truthy (map_of (dsModel d) k)); t = map_of (dsModel d) ''StorageType'' in
      if internalInvalid d \<or> nameInvalid d then False
      else if t = Some (JStr ''S3'') \<or> t = Some (JStr ''AZURE'') then
        f ''ApiKey'' \<and> f ''ApiSecret'' \<and> f ''Name'' \<and> (f ''ObjectsBucket'' \<or> truthy (storage_field ''bucketsRegexp'' d))
      else if t = Some (JStr ''GCS'') then
        f ''Name'' \<and> f ''ObjectsBucket'' \<and> f ''StorageConfiguration'' \<and> truthy (storage_field ''jsonCredentials'' d)
      else f ''Name'' \<and> f ''StorageConfiguration'' \<and> truthy (storage_field ''folder'' d))"

text \<open>\<open>revert\<close> of a source that has no snapshot throws.\<close>

definition revertDs :: "ds \<Rightarrow> ds option" where
  "revertDs d = map_option (\<lambda>m. d\<lparr>dsModel := m, dsSnapshot := Some m\<rparr>) (dsSnapshot d)"

definition saveSource_done :: "ds \<Rightarrow> ds" where
  "saveSource_done d = d\<lparr>dsSnapshot := Some (dsModel d), dsUpdates := Suc (dsUpdates d)\<rparr>"

definition resync_params :: "ds \<Rightarrow> string" where
  "resync_params d =
     print_json (JObj (case map_of (dsModel d) ''Name'' of None \<Rightarrow> [] | Some n \<Rightarrow> [(''dsName'', n)]))"

definition getNameError :: "(string \<Rightarrow> string) \<Rightarrow> ds \<Rightarrow> string option" where
  "getNameError translate d = (if nameInvalid d then Some (translate ''name.inuse'') else None)"

definition stripPrefix :: "string \<Rightarrow> fields \<Rightarrow> fields" where
  "stripPrefix prefix dat =
     (if prefix = [] then dat else foldl (\<lambda>o1 (k, v). obj_set (js_replace k prefix []) v o1) [] dat)"

definition getDataWithPrefix :: "string \<Rightarrow> ds \<Rightarrow> fields" where
  "getDataWithPrefix prefix d =
     (if prefix = [] then dsModel d
      else foldl (\<lambda>o1 (k, v). obj_set (prefix @ k)
             (if k = ''EncryptionMode'' \<and> \<not> truthy (Some v) then JStr ''CLEAR'' else v) o1) [] (dsModel d))"

section \<open>Facts about data sources\<close>

lemma find_sub_take: "find_sub p s = Some i \<Longrightarrow> i + length p \<le> length s"
proof (induction s arbitrary: i)
  case (Cons c s)
  show ?case
  proof (cases "starts_with p (c # s)")
    case True
    then have "length p \<le> length (c # s)" by (metis starts_with_def length_take min.cobounded1)
    then show ?thesis using True Cons.prems by simp
  next
    case False
    then show ?thesis using Cons by auto
  qed
qed (simp split: if_splits)

lemma set_js_replace_Nil: "set (js_replace s p []) \<subseteq> set s"
  by (auto simp: js_replace_def split: option.splits dest: in_set_takeD in_set_dropD)

lemma ds_name_chars: "list_all slug_char (ds_name s) \<and> length (ds_name s) \<le> 33"
  using slug_chars [of s] set_js_replace_Nil [of "computeStringSlug s" "''-''"]
  by (auto simp: ds_name_def list_all_iff dest: in_set_takeD)

text \<open>Only the first dash is removed.\<close>

lemma ds_name_dash: "ds_name ''a b c'' = ''ab-c''"
  by (simp add: ds_name_def computeStringSlug_def slug_table_pass_def slugTable_def js_lower_def lower_char_def
      slug_char_def is_space_def js_replace_def starts_with_def Let_def)

lemma dsSet_name:
  assumes "dsSet ''Name'' (JStr s) d = Some t"
  shows "map_of (dsModel t) ''Name'' = Some (JStr (ds_name s)) \<and> (nameInvalid t \<longleftrightarrow> ds_name s \<in> set (existingNames d))"
  using assms by (auto simp: dsSet_def ds_write_def)

lemma find_sub_prefix: "find_sub p (p @ k) = Some 0"
proof -
  have "starts_with p (p @ k)" by (simp add: starts_with_def)
  then show ?thesis by (cases "p @ k") auto
qed

lemma replace_prefix: "js_replace (p @ k) p [] = k"
  by (simp add: js_replace_def find_sub_prefix)

lemma foldl_set_fields:
  assumes "distinct (map fst (pre @ map (\<lambda>(k, v). (f k, g k v)) ms))"
  shows "foldl (\<lambda>o1 (k, v). obj_set (f k) (g k v) o1) pre ms = pre @ map (\<lambda>(k, v). (f k, g k v)) ms"
  using assms
proof (induction ms arbitrary: pre)
  case (Cons m ms)
  obtain k v where m: "m = (k, v)" by fastforce
  have "f k \<notin> fst ` set pre" using Cons.prems m by auto
  then show ?case using Cons.IH [of "pre @ [(f k, g k v)]"] Cons.prems m by (simp add: obj_set_new)
qed simp

text \<open>Reading the data back from the prefixed form.\<close>

lemma prefix_roundtrip:
  assumes d: "distinct (map fst (dsModel d))" and e: "\<And>v. map_of (dsModel d) ''EncryptionMode'' = Some v \<Longrightarrow> truthy (Some v)"
  shows "stripPrefix p (getDataWithPrefix p d) = dsModel d"
proof (cases "p = []")
  case False
  define g where "g = (\<lambda>k v. if k = ''EncryptionMode'' \<and> \<not> truthy (Some v) then JStr ''CLEAR'' else v)"
  have g: "g k v = v" if "(k, v) \<in> set (dsModel d)" for k v
    using e [of v] map_of_is_SomeI [OF d that] by (auto simp: g_def)
  have inj: "inj_on (\<lambda>k. p @ k) S" for S by (simp add: inj_on_def)
  have m1: "map (fst \<circ> (\<lambda>(k, v). (p @ k, g k v))) (dsModel d) = map (\<lambda>k. p @ k) (map fst (dsModel d))" by auto
  have "getDataWithPrefix p d = foldl (\<lambda>o1 (k, v). obj_set (p @ k) (g k v) o1) [] (dsModel d)"
    using False by (simp add: getDataWithPrefix_def g_def)
  also have "\<dots> = [] @ map (\<lambda>(k, v). (p @ k, g k v)) (dsModel d)"
  proof (rule foldl_set_fields [where f = "\<lambda>k. p @ k" and g = g])
    have "distinct (map (\<lambda>k. p @ k) (map fst (dsModel d)))"
      using d inj [of "set (map fst (dsModel d))"] by (simp only: distinct_map)
    then show "distinct (map fst ([] @ map (\<lambda>(k, v). (p @ k, g k v)) (dsModel d)))"
      unfolding append_Nil list.map_comp m1 .
  qed
  also have "\<dots> = map (\<lambda>(k, v). (p @ k, v)) (dsModel d)" using g by auto
  finally have w: "getDataWithPrefix p d = map (\<lambda>(k, v). (p @ k, v)) (dsModel d)" .
  have m2: "map (\<lambda>(k, v). (js_replace k p [], v)) (map (\<lambda>(k, v). (p @ k, v)) (dsModel d)) = dsModel d"
    by (auto simp: replace_prefix comp_def intro!: map_idI)
  have "stripPrefix p (getDataWithPrefix p d) =
      foldl (\<lambda>o1 (k, v). obj_set (js_replace k p []) v o1) [] (getDataWithPrefix p d)"
    using False by (simp add: stripPrefix_def)
  also have "\<dots> = [] @ map (\<lambda>(k, v). (js_replace k p [], v)) (getDataWithPrefix p d)"
    by (rule foldl_set_fields [where f = "\<lambda>k. js_replace k p []" and g = "\<lambda>_ v. v"], unfold w m2) (use d in simp)
  finally have "stripPrefix p (getDataWithPrefix p d) = [] @ map (\<lambda>(k, v). (js_replace k p [], v)) (getDataWithPrefix p d)" .
  then show ?thesis unfolding w m2 by simp
qed (simp add: stripPrefix_def getDataWithPrefix_def)

text \<open>A name refused as in use stays refused after \<open>revert\<close>.\<close>

lemma revert_keeps_invalid: "revertDs d = Some t \<Longrightarrow> nameInvalid d \<Longrightarrow> \<not> dsIsValid t"
  by (auto simp: revertDs_def dsIsValid_def Let_def)

lemma new_ds_revert_throws: "revertDs (newDs names c) = None"
  by (simp add: revertDs_def newDs_def)

section \<open>Virtual nodes\<close>

record vnode =
  vUuid :: string
  vPath :: string
  metaName :: string
  resolution :: string
  onDelete :: string
  contentType :: string
  vUpdates :: nat

definition newVNode :: vnode where
  "newVNode = \<lparr>vUuid = [], vPath = [], metaName = [], resolution = [], onDelete = ''rename-uuid'',
     contentType = ''text/javascript'', vUpdates = 0\<rparr>"

definition setName :: "string \<Rightarrow> vnode \<Rightarrow> vnode" where
  "setName name v =
     (let slug = computeStringSlug name
      in v\<lparr>metaName := name, vUuid := slug, vPath := slug, vUpdates := Suc (vUpdates v)\<rparr>)"

definition setValue :: "string \<Rightarrow> vnode \<Rightarrow> vnode" where
  "setValue value v = v\<lparr>resolution := value, vUpdates := Suc (vUpdates v)\<rparr>"

definition setOnDelete :: "string \<Rightarrow> vnode \<Rightarrow> vnode" where
  "setOnDelete value v = v\<lparr>onDelete := value, vUpdates := Suc (vUpdates v)\<rparr>"

section \<open>Metadata namespaces\<close>

text \<open>The request sent; the client's cache of configurations is dropped before.\<close>

definition putNS :: "json \<Rightarrow> bool \<Rightarrow> (string \<times> json list) \<times> bool" where
  "putNS ns cached = ((''PUT'', [ns]), False)"

definition deleteNS :: "json \<Rightarrow> bool \<Rightarrow> (string \<times> json list) \<times> bool" where
  "deleteNS ns cached = ((''DELETE'', [ns]), False)"

end
