(* ===== verification/ShareLinks.thy ===== *)
theory ShareLinks
  imports Json Snapshots
begin

text \<open>
  A public link being edited (\<open>action.share/res/js/dialog/links/LinkModel.js\<close>) and the helpers of
  the sharing dialogs (\<open>main/ShareHelper.js\<close>). Missing strings of the link are empty: both are
  falsy, and the code only tests them that way. The strength checker is a parameter, because a
  plugin can replace it; so are the clock and the configuration.
\<close>

section \<open>ShareHelper\<close>

record share_config =
  folderPublicLink :: bool
  folderWorkspaces :: bool
  filePublicLink :: bool
  fileWorkspaces :: bool
  editableHash :: bool
  hashMinLength :: nat          \<comment> \<open>0 when not set\<close>
  forcePassword :: bool
  maxExpiration :: string
  maxDownload :: string

record authorizations =
  folder_public_link :: bool
  folder_workspaces :: bool
  file_public_link :: bool
  file_workspaces :: bool
  editable_hash :: bool
  hash_min_length :: nat
  password_mandatory :: bool
  max_expiration :: string
  max_downloads :: string
  password_placeholder :: string    \<comment> \<open>the message's key\<close>

definition getAuthorizations :: "share_config \<Rightarrow> authorizations" where
  "getAuthorizations c =
     \<lparr>folder_public_link = folderPublicLink c, folder_workspaces = folderWorkspaces c,
      file_public_link = filePublicLink c, file_workspaces = fileWorkspaces c,
      editable_hash = editableHash c,
      hash_min_length = (if hashMinLength c \<noteq> 0 then hashMinLength c else 6),
      password_mandatory = forcePassword c, max_expiration = maxExpiration c,
      max_downloads = maxDownload c,
      password_placeholder = (if forcePassword c then ''share_center.176'' else ''share_center.148'')\<rparr>"

record share_link =
  lUuid :: string
  linkHash :: string
  linkUrl :: string
  lLabel :: string
  lDescription :: string
  permissions :: "string list"
  lRootNodes :: "string list"       \<comment> \<open>the nodes' \<open>Uuid\<close>\<close>
  passwordRequired :: bool
  maxDownloads :: string
  currentDownloads :: string
  accessEnd :: string
  viewTemplate :: string
  contextEditable :: bool

definition buildPublicUrl :: "string \<Rightarrow> string \<Rightarrow> string \<Rightarrow> share_link \<Rightarrow> bool \<Rightarrow> string" where
  "buildPublicUrl protocol host baseUri l shortForm =
     (if shortForm then ''...'' @ baseUri @ ''/'' @ linkHash l
      else if linkUrl l \<noteq> [] \<and> (starts_with ''http://'' (linkUrl l) \<or> starts_with ''https://'' (linkUrl l))
        then linkUrl l
      else protocol @ ''//'' @ host @ baseUri @ ''/'' @ linkHash l)"

text \<open>\<open>nodeHasEditor\<close>: the answer is cached in the node's metadata.\<close>

record editor =
  editorId :: string
  canWrite :: bool

type_synonym editor_cache = "(bool \<times> bool) option"

definition nodeHasEditor :: "editor list \<Rightarrow> editor_cache \<Rightarrow> (bool \<times> bool) \<times> editor_cache" where
  "nodeHasEditor editors cache =
     (let c = (case cache of
          Some v \<Rightarrow> v
        | None \<Rightarrow>
            let es = filter (\<lambda>e. editorId e \<noteq> ''editor.browser'' \<and> editorId e \<noteq> ''editor.other'') editors
            in (length es > 0, length (filter canWrite es) > 0))
      in (c, Some c))"

record template =
  tTheme :: string
  tElement :: string
  tName :: string
  tLabel :: string

record layout =
  layoutName :: string
  layoutElement :: string
  layoutLabel :: string

text \<open>
  \<open>compileLayoutData\<close>, given the templates the registry selects for a leaf or a folder; \<open>mime\<close>
  is the leaf's type, empty for a folder, \<open>preview\<close> what \<open>nodeHasEditor\<close> answers.
\<close>

definition compileLayoutData ::
    "template list \<Rightarrow> string \<Rightarrow> (string \<Rightarrow> string option) \<Rightarrow> string \<Rightarrow> bool \<Rightarrow> layout list" where
  "compileLayoutData tmpl theme messages mime preview =
     (case tmpl of
        [] \<Rightarrow> []
      | [t] \<Rightarrow> [\<lparr>layoutName = tElement t, layoutElement = [], layoutLabel = []\<rparr>]
      | _ \<Rightarrow>
          map (\<lambda>t. \<lparr>layoutName = tName t, layoutElement = tElement t,
                    layoutLabel = (if tLabel t \<noteq> [] then (case messages (tLabel t) of Some m \<Rightarrow> if m \<noteq> [] then m else tLabel t
                                                          | None \<Rightarrow> tLabel t)
                                   else tName t)\<rparr>)
            (filter (\<lambda>t. \<not> (tTheme t \<noteq> [] \<and> tTheme t \<noteq> theme)
               \<and> \<not> (mime \<noteq> [] \<and> tName t = ''unique_preview_file'' \<and> \<not> preview)) tmpl))"

record mail_user =
  login :: string
  hasEmail :: bool

record email =
  templateId :: string
  templateData :: "(string, string) obj"

text \<open>\<open>prepareEmail\<close>: for a link (with the node's kind and label), or for a cell.\<close>

definition prepareEmail ::
    "string \<Rightarrow> string \<Rightarrow> (nat \<Rightarrow> string) \<Rightarrow> bool \<Rightarrow> string \<Rightarrow> share_link option \<Rightarrow> string \<Rightarrow> email" where
  "prepareEmail displayName userid formatDate isLeaf nodeLabel link cellLabel =
     (let inviter = [(''Inviter'', if displayName \<noteq> [] then displayName else userid)]
      in case link of
           Some l \<Rightarrow>
             let lab = (if lLabel l \<noteq> [] then lLabel l else nodeLabel);
                 d1 = inviter @ [(if isLeaf then ''FileName'' else ''FolderName'', lab),
                                 (''LinkPath'', ''/public/'' @ linkHash l)];
                 d2 = (if maxDownloads l \<noteq> [] then d1 @ [(''MaxDownloads'', maxDownloads l)] else d1);
                 d3 = (if accessEnd l \<noteq> []
                       then d2 @ [(''Expire'', formatDate (case parse_nat (accessEnd l) of Some n \<Rightarrow> n | None \<Rightarrow> 0))]
                       else d2)
             in \<lparr>templateId = (if isLeaf then ''PublicFile'' else ''PublicFolder''), templateData = d3\<rparr>
         | None \<Rightarrow> \<lparr>templateId = ''Cell'', templateData = inviter @ [(''Cell'', cellLabel)]\<rparr>)"

text \<open>\<open>sendCellInvitation\<close>: the recipients, and the message shown (\<open>None\<close>: the error).\<close>

definition sendCellInvitation :: "string \<Rightarrow> string \<Rightarrow> mail_user list \<Rightarrow> string list \<times> string option" where
  "sendCellInvitation msgSent msgIgnored targetUsers =
     (let ok = filter (\<lambda>u. login u \<noteq> [] \<and> hasEmail u) targetUsers;
          ignored = length targetUsers - length ok
      in (map login ok,
          if ok \<noteq> [] then
            Some (js_replace msgSent ''%s'' (nat_str (length ok)) @ (if ignored > 0 then '' '' @ msgIgnored else []))
          else None))"

section \<open>LinkModel\<close>

record link_model =
  link :: share_link
  linkDirty :: bool
  originalLink :: "share_link option"
  validPassword :: bool
  validPasswordMessage :: string
  createPassword :: string
  updatePassword :: string
  customLink :: string
  loadError :: bool
  linkUpdates :: nat

definition newLink :: link_model where
  "newLink =
     \<lparr>link = \<lparr>lUuid = [], linkHash = [], linkUrl = [], lLabel = [], lDescription = [],
        permissions = [''Preview'', ''Download''], lRootNodes = [], passwordRequired = False,
        maxDownloads = [], currentDownloads = [], accessEnd = [], viewTemplate = [], contextEditable = True\<rparr>,
      linkDirty = False, originalLink = None, validPassword = True, validPasswordMessage = [],
      createPassword = [], updatePassword = [], customLink = [], loadError = False, linkUpdates = 0\<rparr>"

definition link_notified :: "link_model \<Rightarrow> link_model" where
  "link_notified m = m\<lparr>linkUpdates := Suc (linkUpdates m)\<rparr>"

definition notifyLinkDirty :: "link_model \<Rightarrow> link_model" where
  "notifyLinkDirty m = link_notified (m\<lparr>linkDirty := True\<rparr>)"

definition updateLink :: "share_link \<Rightarrow> link_model \<Rightarrow> link_model" where
  "updateLink l m = notifyLinkDirty (m\<lparr>link := l\<rparr>)"

definition revertLink :: "link_model \<Rightarrow> link_model" where
  "revertLink m =
     (case originalLink m of
        None \<Rightarrow> m
      | Some l \<Rightarrow>
          link_notified (m\<lparr>link := l, linkDirty := False, createPassword := [], updatePassword := [],
                         validPassword := True\<rparr>))"

definition hasPermission :: "string \<Rightarrow> link_model \<Rightarrow> bool" where
  "hasPermission p m = (length (filter (\<lambda>q. q = p) (permissions (link m))) > 0)"

definition isExpired :: "link_model \<Rightarrow> bool" where
  "isExpired m =
     (maxDownloads (link m) \<noteq> [] \<and>
      (case (parse_int (currentDownloads (link m)), parse_int (maxDownloads (link m))) of
         (Some c, Some x) \<Rightarrow> c \<ge> x
       | _ \<Rightarrow> False))"

definition loadLink_done :: "share_link option \<Rightarrow> link_model \<Rightarrow> link_model" where
  "loadLink_done result m =
     (case result of
        Some l \<Rightarrow> link_notified (m\<lparr>link := l, originalLink := Some l\<rparr>)
      | None \<Rightarrow> link_notified (m\<lparr>loadError := True\<rparr>))"

definition check_password :: "(string \<Rightarrow> bool \<times> string) \<Rightarrow> string \<Rightarrow> link_model \<Rightarrow> link_model" where
  "check_password strength password m =
     (if password \<noteq> [] then
        m\<lparr>validPassword := fst (strength password), validPasswordMessage := snd (strength password)\<rparr>
      else m\<lparr>validPassword := True\<rparr>)"

definition setCreatePassword :: "(string \<Rightarrow> bool \<times> string) \<Rightarrow> string \<Rightarrow> link_model \<Rightarrow> link_model" where
  "setCreatePassword strength password m =
     (let m1 = check_password strength password m
      in notifyLinkDirty (m1\<lparr>createPassword := password, link := (link m1)\<lparr>passwordRequired := True\<rparr>\<rparr>))"

definition setUpdatePassword :: "(string \<Rightarrow> bool \<times> string) \<Rightarrow> string \<Rightarrow> link_model \<Rightarrow> link_model" where
  "setUpdatePassword strength password m =
     notifyLinkDirty ((check_password strength password m)\<lparr>updatePassword := password\<rparr>)"

definition setCustomLink :: "string \<Rightarrow> link_model \<Rightarrow> link_model" where
  "setCustomLink h m = m\<lparr>customLink := h\<rparr>"

datatype share_error = InvalidPassword string | PasswordMandatory

record link_request =
  passwordEnabled :: bool
  reqCreatePassword :: string
  reqUpdatePassword :: string
  updateCustomHash :: string
  shareLink :: share_link

text \<open>\<open>parseInt(s) > 0\<close> and \<open>!parseInt(s)\<close>.\<close>

definition positive :: "string \<Rightarrow> bool" where
  "positive s = (case parse_int s of Some k \<Rightarrow> k > 0 | None \<Rightarrow> False)"

definition unset :: "string \<Rightarrow> bool" where
  "unset s = (case parse_int s of Some k \<Rightarrow> k = 0 | None \<Rightarrow> True)"

definition int_of :: "string \<Rightarrow> nat" where
  "int_of s = (case parse_int s of Some k \<Rightarrow> nat k | None \<Rightarrow> 0)"

text \<open>\<open>save\<close> up to the request: the error thrown, or the request with the model as it is then.\<close>

definition save_password :: "link_model \<Rightarrow> bool \<times> string \<times> string" where
  "save_password m =
     (if createPassword m \<noteq> [] then (True, createPassword m, [])
      else if updatePassword m \<noteq> [] then
        (if \<not> passwordRequired (link m) then (True, updatePassword m, []) else (True, [], updatePassword m))
      else (passwordRequired (link m), [], []))"

definition default_downloads :: "authorizations \<Rightarrow> link_model \<Rightarrow> link_model" where
  "default_downloads a m =
     (if positive (max_downloads a) \<and> unset (maxDownloads (link m))
      then link_notified (m\<lparr>link := (link m)\<lparr>maxDownloads := nat_str (int_of (max_downloads a))\<rparr>\<rparr>) else m)"

definition default_expiration :: "authorizations \<Rightarrow> nat \<Rightarrow> link_model \<Rightarrow> link_model" where
  "default_expiration a now m =
     (if positive (max_expiration a) \<and> unset (accessEnd (link m))
      then link_notified (m\<lparr>link := (link m)\<lparr>accessEnd := nat_str (now + int_of (max_expiration a) * 60 * 60 * 24)\<rparr>\<rparr>)
      else m)"

definition saveLink :: "authorizations \<Rightarrow> nat \<Rightarrow> link_model \<Rightarrow> share_error + (link_request \<times> link_model)" where
  "saveLink a now m =
     (if \<not> validPassword m then Inl (InvalidPassword (validPasswordMessage m))
      else let (enabled, cp, up) = save_password m
      in if password_mandatory a \<and> \<not> enabled then Inl PasswordMandatory
      else let m1 = default_expiration a now (default_downloads a m)
      in Inr (\<lparr>passwordEnabled = enabled, reqCreatePassword = cp, reqUpdatePassword = up,
               updateCustomHash = (if customLink m1 \<noteq> [] \<and> customLink m1 \<noteq> linkHash (link m1) then customLink m1 else []),
               shareLink = link m1\<rparr>, m1))"

definition saveLink_done :: "share_link \<Rightarrow> link_model \<Rightarrow> link_model" where
  "saveLink_done result m =
     link_notified (m\<lparr>link := result, linkDirty := False, originalLink := Some result, updatePassword := [],
                    createPassword := [], customLink := [], validPassword := True\<rparr>)"

definition deleteLink_done :: "share_link \<Rightarrow> link_model \<Rightarrow> link_model" where
  "deleteLink_done emptyLink m =
     link_notified (m\<lparr>link := emptyLink, linkDirty := False, updatePassword := [], createPassword := [], customLink := []\<rparr>)"

section \<open>Facts\<close>

lemma link_notified_sel [simp]:
  "link (link_notified m) = link m" "linkDirty (link_notified m) = linkDirty m"
  "originalLink (link_notified m) = originalLink m" "validPassword (link_notified m) = validPassword m"
  "customLink (link_notified m) = customLink m" "createPassword (link_notified m) = createPassword m"
  "updatePassword (link_notified m) = updatePassword m" "validPasswordMessage (link_notified m) = validPasswordMessage m"
  "loadError (link_notified m) = loadError m"
  by (simp_all add: link_notified_def)

lemma check_password_sel [simp]:
  "link (check_password st p m) = link m" "originalLink (check_password st p m) = originalLink m"
  "customLink (check_password st p m) = customLink m" "createPassword (check_password st p m) = createPassword m"
  "updatePassword (check_password st p m) = updatePassword m"
  by (simp_all add: check_password_def)

inductive link_edit :: "link_model \<Rightarrow> link_model \<Rightarrow> bool" where
  "link_edit m (updateLink l m)"
| "link_edit m (setCreatePassword st p m)"
| "link_edit m (setUpdatePassword st p m)"
| "link_edit m (setCustomLink h m)"

text \<open>A link without original has nothing to go back to: its content is not covered.\<close>

definition link_view :: "link_model \<Rightarrow> share_link option" where
  "link_view m = (case originalLink m of None \<Rightarrow> None | Some _ \<Rightarrow> Some (link m))"

interpretation link_snapshot: snapshot_model link_view originalLink revertLink link_edit
proof
  show "originalLink t = originalLink s" if "link_edit s t" for s t
    using that by cases (simp_all add: updateLink_def notifyLinkDirty_def setCreatePassword_def
        setUpdatePassword_def setCustomLink_def Let_def)
qed (simp_all add: link_view_def revertLink_def split: option.split)

lemma unset_nat_str: "0 < n \<Longrightarrow> \<not> unset (nat_str n)"
  by (simp add: unset_def)

lemma positive_int_of: "positive s \<Longrightarrow> 0 < int_of s"
  by (simp add: positive_def int_of_def split: option.splits)

lemma default_sel [simp]:
  "accessEnd (link (default_downloads a m)) = accessEnd (link m)"
  "maxDownloads (link (default_expiration a now m)) = maxDownloads (link m)"
  "customLink (default_expiration a now (default_downloads a m)) = customLink m"
  by (simp_all add: default_downloads_def default_expiration_def)

text \<open>A request is only made with a valid password, within the mandatory policy, and with its limits set.\<close>

lemma saveLink_ok:
  assumes "saveLink a now m = Inr (req, m')"
  shows "validPassword m \<and> (password_mandatory a \<longrightarrow> passwordEnabled req) \<and> shareLink req = link m' \<and>
     (positive (max_downloads a) \<longrightarrow> \<not> unset (maxDownloads (shareLink req))) \<and>
     (positive (max_expiration a) \<longrightarrow> \<not> unset (accessEnd (shareLink req)))"
proof -
  obtain en cp up where sp: "save_password m = (en, cp, up)" by (cases "save_password m") auto
  have m': "m' = default_expiration a now (default_downloads a m)" "shareLink req = link m'"
    "validPassword m" "password_mandatory a \<longrightarrow> passwordEnabled req"
    using assms by (auto simp: saveLink_def sp Let_def split: if_splits)
  have "positive (max_downloads a) \<Longrightarrow> \<not> unset (maxDownloads (link m'))"
    using unset_nat_str positive_int_of by (simp add: m'(1) default_downloads_def)
  moreover have "positive (max_expiration a) \<Longrightarrow> \<not> unset (accessEnd (link m'))"
    using unset_nat_str positive_int_of [of "max_expiration a"]
    by (cases "unset (accessEnd (link m))") (simp_all add: m'(1) default_expiration_def)
  ultimately show ?thesis using m' by simp
qed

lemma save_password_cases:
  "save_password m = (en, cp, up) \<Longrightarrow>
     \<not> (cp \<noteq> [] \<and> up \<noteq> []) \<and> (up \<noteq> [] \<longrightarrow> passwordRequired (link m)) \<and> ((cp \<noteq> [] \<or> up \<noteq> []) \<longrightarrow> en)"
  by (auto simp: save_password_def split: if_splits)

text \<open>The link that was deleted comes back: its original is kept.\<close>

lemma deleted_link_reverts:
  "originalLink m = Some l \<Longrightarrow> link (revertLink (deleteLink_done emptyL m)) = l"
  by (simp add: revertLink_def deleteLink_done_def)

lemma revert_keeps_custom: "customLink (revertLink m) = customLink m"
  by (simp add: revertLink_def split: option.split)

lemma deleted_link_password: "\<not> validPassword m \<Longrightarrow> saveLink a now (deleteLink_done l m) = Inl (InvalidPassword (validPasswordMessage m))"
  by (simp add: saveLink_def deleteLink_done_def)

end
