(* ===== verification/ModelProperties.thy ===== *)
theory ModelProperties
  imports Paths UserModel WorkspaceModels ShareLinks
begin

text \<open>
  The properties of the shared utilities and of the models behind the administration console and
  the share dialog, with their instances.
\<close>

section \<open>Utilities\<close>

text \<open>C22. A slug is made of lower case letters, digits and single dashes, and is its own slug.\<close>

theorem slug_form:
  "list_all slug_char (computeStringSlug v) \<and> no_double CHR ''-'' (computeStringSlug v) \<and>
   computeStringSlug (computeStringSlug v) = computeStringSlug v"
  using slug_chars slug_no_double slug_idem by blast

text \<open>Removing an element at the index \<open>indexOf\<close> gives removes its first occurrence; an element
  that is not there (index -1) is not an empty removal: all but the last element are repeated.\<close>

lemma remove_at_indexOf:
  "arrayWithout xs (js_indexOf xs y) =
     (if y \<in> set xs then remove1 y xs else if xs = [] then [] else butlast xs @ xs)"
  using arrayWithout_indexOf [of y xs] arrayWithout_minus_one [of xs]
  by (auto simp: js_indexOf_absent) (simp add: arrayWithout_def)

section \<open>Roles\<close>

text \<open>A parameter set on a role is the value read back in that scope, unless several rules
  carried it, and the other parameters and scopes keep theirs.\<close>

lemma parameter_set_get:
  assumes "aids_ok r"
  shows "(length (filter (matches k sc) (acls r)) \<le> 1 \<longrightarrow>
            getParameterValue k sc (setParameter k v sc r) = Some v) \<and>
         (k' \<noteq> k \<or> sc' \<noteq> sc \<longrightarrow>
            getParameterValue k' sc' (setParameter k v sc r) = getParameterValue k' sc' r)"
  using set_get_parameter [OF assms] set_get_other [OF assms] by blast

definition editor_role :: role where
  "editor_role = newRole \<lparr>rUuid = ''ed'', rProps = []\<rparr> []"

text \<open>C23. Deleting and inserting what \<open>diffAcls\<close> says turns the stored rules into the wanted ones, up
  to the equality the code uses.\<close>

theorem diff_reaches_target:
  "list_ex (acl_equals x) (after_diff previous (diffAcls previous next)) \<longleftrightarrow> list_ex (acl_equals x) next"
  by (rule diffAcls_applied)




text \<open>Rights given to a role on a workspace are the rights read back, in the order read, write,
  deny, and not as inherited.\<close>

lemma rights_update_get:
  assumes "wsUuid w \<noteq> []" "rootNodes w = (n, n) # rest"
    and "rs \<noteq> []" "set rs \<subseteq> set plain_rights"
    and "\<And>p. p \<in> set (parentRoles r) \<Longrightarrow> map_of (parentAcls r) (rUuid p) \<noteq> None"
  shows "\<exists>t. updateAcl (Some w) [] (js_join '','' rs) None r = Some t \<and> dirty t \<and>
     getAclString (Some w) [] t = Some (js_join '','' (filter (\<lambda>x. x \<in> set rs) plain_rights), False)"
  by (rule update_get_rights [OF assms])

section \<open>Users\<close>

text \<open>C25. Adding a role puts it last among the user's roles (moving it there if he had it), removing
  it takes it away; the editor's invariant holds after both.\<close>

theorem user_roles_edited:
  assumes "roles_ok u" "rUuid ro \<noteq> uUuid (idmUser u)"
  shows "(\<exists>t. addRole ro u = Some t \<and> roles_ok t \<and>
            parents_of t = filter (\<lambda>x. rUuid (the x) \<noteq> rUuid ro) (parents_of u) @ [Some ro]) \<and>
         (\<exists>t. removeRole ro u = Some t \<and> roles_ok t \<and>
            parents_of t = filter (\<lambda>x. rUuid (the x) \<noteq> rUuid ro) (parents_of u))"
  using addRole_parents [OF assms] removeRole_parents [OF assms(1), of ro] by blast

definition a_role :: "string \<Rightarrow> idm_role" where "a_role i = \<lparr>rUuid = i, rProps = []\<rparr>"

definition a_user :: user_model where
  "a_user = the (newUser ''f'' \<lparr>uUuid = ''u'', isGroup = False,
     roles = map (Some \<circ> a_role) [''r1'', ''r2'', ''u''], uProps = []\<rparr>)"

lemma a_user_ok: "roles_ok a_user" "parents_of a_user = map (Some \<circ> a_role) [''r1'', ''r2'']" "uUuid (idmUser a_user) = ''u''"
  by (simp_all add: a_user_def newUser_def filter_roles_def a_role_def makeUserSnapshot_def roles_ok_def parents_of_def
      newRole_def makeSnapshot_def Let_def)

theorem user_roles_edited_witness:
  "\<exists>t. addRole (a_role ''r1'') a_user = Some t \<and> parents_of t = map (Some \<circ> a_role) [''r2'', ''r1'']"
  using user_roles_edited [OF a_user_ok(1), of "a_role ''r1''"] a_user_ok by (auto simp: a_role_def)

text \<open>\<open>switchRoles\<close> on two different roles of the user exchanges their places; on one role twice
  it writes \<open>undefined\<close> over it.\<close>

lemma user_roles_switched:
  assumes "roles_ok u" "i < length (parents_of u)" "j < length (parents_of u)"
  shows "(i \<noteq> j \<longrightarrow> (\<exists>t. switchRoles (rUuid (the (parents_of u ! i))) (rUuid (the (parents_of u ! j))) u = Some t
            \<and> roles_ok t \<and> parents_of t = (parents_of u)[i := parents_of u ! j, j := parents_of u ! i])) \<and>
    switch (rUuid (the (parents_of u ! i))) (rUuid (the (parents_of u ! i))) (parents_of u) = (parents_of u)[i := None]"
  using switchRoles_parents [OF assms(1-3)] switch_self [OF roles_okD(5) [OF assms(1)] assms(2)] by blast

section \<open>Workspaces and data sources\<close>

text \<open>The attributes of a workspace survive a save whose answer is what was sent.\<close>

lemma attributes_saved:
  assumes "distinct (map fst (internalAttributes w))" "internalAttributes w \<noteq> []"
  shows "\<exists>w'. wsSave_done (wsModel (wsSave_request w)) (wsSave_request w) = (w', False)
     \<and> internalAttributes w' = internalAttributes w \<and> \<not> wsDirty w' \<and> \<not> create w'"
  by (rule ws_attributes_roundtrip [OF assms])

text \<open>A data source's name is a slug of at most 33 characters, whatever is typed, and the source is
  flagged exactly when another one has that name.\<close>

lemma source_name_checked:
  assumes "dsSet ''Name'' (JStr s) d = Some t"
  shows "map_of (dsModel t) ''Name'' = Some (JStr (ds_name s)) \<and> list_all slug_char (ds_name s) \<and>
     length (ds_name s) \<le> 33 \<and> (nameInvalid t \<longleftrightarrow> ds_name s \<in> set (existingNames d))"
  using dsSet_name [OF assms] ds_name_chars by blast

text \<open>The form's prefixed data gives back the model when the prefix is stripped.\<close>

lemma prefixed_data_roundtrip:
  assumes "distinct (map fst (dsModel d))"
    and "\<And>v. map_of (dsModel d) ''EncryptionMode'' = Some v \<Longrightarrow> truthy (Some v)"
  shows "stripPrefix p (getDataWithPrefix p d) = dsModel d"
  by (rule prefix_roundtrip [OF assms])

section \<open>Public links\<close>




end
