(* ===== verification/ShareCells.thy ===== *)
theory ShareCells
  imports Paths Json Snapshots
begin

text \<open>
  \<open>CellModel.es6\<close>: the editor of a cell (a shared folder with its members and their rights).

  The access rules are an object indexed by role, a node keeps the fields the model reads
  (\<open>MetaStore.name\<close> as its JSON text, \<open>selection\<close> and \<open>CellNode\<close> as flags). A cell without
  \<open>Uuid\<close> has the empty string there. The notifications of \<open>update\<close> only redraw views.
\<close>

section \<open>State\<close>

record cell_node =
  nUuid :: string
  nPath :: string
  nName :: "string option"
  nSelection :: bool
  nCellNode :: bool
  nAppearsIn :: "(string \<times> string \<times> string) list"   \<comment> \<open>\<open>WsUuid\<close>, \<open>WsLabel\<close>, \<open>Path\<close>\<close>

datatype subject = SUser | SGroup | SRole

record cell_acl =
  caRole :: string
  caSubject :: subject
  caActions :: "(string \<times> string) list"              \<comment> \<open>names and values\<close>

record rest_cell =
  ceUuid :: string
  ceLabel :: string
  ceDescription :: string
  ceAcls :: "(string, cell_acl) obj"
  ceNodes :: "cell_node list"
  ceEditable :: bool

record cell_model =
  cell :: rest_cell
  cellDirty :: bool
  originalCell :: "rest_cell option"
  editMode :: bool

definition newCell :: "bool \<Rightarrow> cell_model" where
  "newCell edit =
     \<lparr>cell = \<lparr>ceUuid = [], ceLabel = [], ceDescription = [], ceAcls = [], ceNodes = [], ceEditable = True\<rparr>,
      cellDirty = False, originalCell = None, editMode = edit\<rparr>"

text \<open>Every edit of the cell ends with \<open>notifyDirty\<close>.\<close>

definition notifyDirty :: "cell_model \<Rightarrow> cell_model" where
  "notifyDirty m = m\<lparr>cellDirty := True\<rparr>"

definition on_cell :: "(rest_cell \<Rightarrow> rest_cell) \<Rightarrow> cell_model \<Rightarrow> cell_model" where
  "on_cell f m = m\<lparr>cell := f (cell m)\<rparr>"

definition revertCell :: "cell_model \<Rightarrow> cell_model" where
  "revertCell m =
     (case originalCell m of None \<Rightarrow> m | Some c \<Rightarrow> m\<lparr>cell := c, cellDirty := False\<rparr>)"

section \<open>Labels\<close>

definition getNodeLabelInContext :: "cell_node \<Rightarrow> cell_model \<Rightarrow> json" where
  "getNodeLabelInContext n m =
     (let base = getBasename (nPath n);
          label = (if base = [] then
                     (case nName n of
                        Some t \<Rightarrow> (if t = [] then JStr base
                                  else case parse_json t of Some j \<Rightarrow> j | None \<Rightarrow> JStr base)
                      | None \<Rightarrow> JStr base)
                   else JStr base)
      in if nSelection n then label
         else if nCellNode n then JStr ''[Cell Folder]''
         else foldl (\<lambda>l (wsUuid, wsLabel, path).
                if wsUuid \<noteq> ceUuid (cell m) then JStr (''['' @ wsLabel @ ''] '' @ getBasename path) else l)
              label (nAppearsIn n))"

section \<open>Members\<close>

definition addUser :: "string \<Rightarrow> subject \<Rightarrow> cell_model \<Rightarrow> cell_model" where
  "addUser role kind m =
     notifyDirty (on_cell (\<lambda>c. c\<lparr>ceAcls := obj_set role
        \<lparr>caRole = role, caSubject = kind, caActions = [(''read'', ''1'')]\<rparr> (ceAcls c)\<rparr>) m)"

definition removeUser :: "string \<Rightarrow> cell_model \<Rightarrow> cell_model" where
  "removeUser role m = notifyDirty (on_cell (\<lambda>c. c\<lparr>ceAcls := obj_del role (ceAcls c)\<rparr>) m)"

text \<open>A right given to an unknown role throws; the last right taken away removes the member.\<close>

definition updateUserRight :: "string \<Rightarrow> string \<Rightarrow> bool \<Rightarrow> cell_model \<Rightarrow> cell_model option" where
  "updateUserRight role right v m =
     (case map_of (ceAcls (cell m)) role of
        None \<Rightarrow> if v then None else Some (notifyDirty m)
      | Some a \<Rightarrow>
          let acts = (if v then caActions a @ [(right, ''1'')] else filter (\<lambda>(n, _). n \<noteq> right) (caActions a));
              m1 = on_cell (\<lambda>c. c\<lparr>ceAcls := obj_set role (a\<lparr>caActions := acts\<rparr>) (ceAcls c)\<rparr>) m
          in if \<not> v \<and> acts = [] then Some (removeUser role m1) else Some (notifyDirty m1))"

section \<open>Nodes\<close>

text \<open>The slug of the repository is \<open>None\<close> when the list does not have it: the code throws.\<close>

definition addRootNode :: "string \<Rightarrow> string \<Rightarrow> string option \<Rightarrow> cell_model \<Rightarrow> cell_model option" where
  "addRootNode uuid path slug m =
     map_option (\<lambda>s. notifyDirty (on_cell (\<lambda>c. c\<lparr>ceNodes := ceNodes c @
         [\<lparr>nUuid = uuid, nPath = s @ path, nName = None, nSelection = True, nCellNode = False, nAppearsIn = []\<rparr>]\<rparr>) m))
       slug"

definition removeRootNode :: "string \<Rightarrow> cell_model \<Rightarrow> cell_model" where
  "removeRootNode uuid m =
     notifyDirty (on_cell (\<lambda>c. c\<lparr>ceNodes := filter (\<lambda>n. nUuid n \<noteq> uuid) (ceNodes c)\<rparr>) m)"

definition hasRootNode :: "string \<Rightarrow> cell_model \<Rightarrow> bool" where
  "hasRootNode uuid m = (filter (\<lambda>n. nUuid n = uuid) (ceNodes (cell m)) \<noteq> [])"

definition hasDirtyRootNodes :: "cell_model \<Rightarrow> bool" where
  "hasDirtyRootNodes m =
     (case originalCell m of
        None \<Rightarrow> False
      | Some orig \<Rightarrow>
          let missing = (\<lambda>others n. filter (\<lambda>r. nUuid r = nUuid n) others = []);
              newNodes = filter (missing (ceNodes orig)) (ceNodes (cell m));
              deletedNodes = filter (missing (ceNodes (cell m))) (ceNodes orig)
          in length newNodes > 0 \<or> length deletedNodes > 0)"

definition setLabel :: "string \<Rightarrow> cell_model \<Rightarrow> cell_model" where
  "setLabel l m = notifyDirty (on_cell (\<lambda>c. c\<lparr>ceLabel := l\<rparr>) m)"

definition setDescription :: "string \<Rightarrow> cell_model \<Rightarrow> cell_model" where
  "setDescription d m = notifyDirty (on_cell (\<lambda>c. c\<lparr>ceDescription := d\<rparr>) m)"

section \<open>Saving, loading, deleting\<close>

datatype cell_request = DeleteCell string | PutCell rest_cell bool

text \<open>\<open>save\<close>: the request and the model when it is sent.\<close>

definition saveCell :: "cell_model \<Rightarrow> cell_request \<times> cell_model" where
  "saveCell m =
     (if ceNodes (cell m) = [] \<and> ceUuid (cell m) \<noteq> [] then (DeleteCell (ceUuid (cell m)), m)
      else let m1 = on_cell (\<lambda>c. c\<lparr>ceNodes := map (\<lambda>n. n\<lparr>nSelection := False\<rparr>) (ceNodes c)\<rparr>) m
           in (PutCell (cell m1) (\<not> editMode m \<and> ceNodes (cell m) = []), m1))"

text \<open>The answer of \<open>putCell\<close>: without \<open>Uuid\<close> it is an error (\<open>None\<close>).\<close>

definition saveCell_done :: "rest_cell option \<Rightarrow> cell_model \<Rightarrow> cell_model option" where
  "saveCell_done answer m =
     (case answer of
        None \<Rightarrow> None
      | Some c \<Rightarrow>
          if ceUuid c = [] then None
          else if editMode m then Some (m\<lparr>cell := c, cellDirty := False, originalCell := Some c\<rparr>)
          else Some m)"

definition loadCell_done :: "rest_cell \<Rightarrow> cell_model \<Rightarrow> cell_model" where
  "loadCell_done c m = m\<lparr>cell := c, editMode := True, originalCell := Some c\<rparr>"

text \<open>
  \<open>deleteCell\<close>: nothing without the user's confirmation; an active cell is left for another
  repository first (the last gateway of the list, or else the first other one), and stays when
  there is no other.
\<close>

datatype cell_deletion = NotConfirmed | SwitchThenDelete string | DeleteNow | NothingLeft

definition switchToOther :: "string \<Rightarrow> (string \<times> string) list \<Rightarrow> string option" where
  "switchToOther uuid repos =
     foldl (\<lambda>acc (k, accessType).
        if k \<noteq> uuid \<and> (acc = None \<or> accessType = ''gateway'') then Some k else acc) None repos"

definition deleteCell :: "bool \<Rightarrow> string \<Rightarrow> (string \<times> string) list \<Rightarrow> cell_model \<Rightarrow> cell_deletion" where
  "deleteCell confirmed active repos m =
     (if \<not> confirmed then NotConfirmed
      else if active = ceUuid (cell m) then
        (case switchToOther (ceUuid (cell m)) repos of Some k \<Rightarrow> SwitchThenDelete k | None \<Rightarrow> NothingLeft)
      else DeleteNow)"

section \<open>Facts\<close>

lemma notifyDirty_sel [simp]:
  "cell (notifyDirty m) = cell m" "originalCell (notifyDirty m) = originalCell m"
  "editMode (notifyDirty m) = editMode m" "cellDirty (notifyDirty m)"
  by (simp_all add: notifyDirty_def)

lemma on_cell_sel [simp]:
  "cell (on_cell f m) = f (cell m)" "originalCell (on_cell f m) = originalCell m"
  "editMode (on_cell f m) = editMode m" "cellDirty (on_cell f m) = cellDirty m"
  by (simp_all add: on_cell_def)

inductive cell_edit :: "cell_model \<Rightarrow> cell_model \<Rightarrow> bool" where
  "cell_edit m (addUser r k m)"
| "cell_edit m (removeUser r m)"
| "updateUserRight r x v m = Some t \<Longrightarrow> cell_edit m t"
| "addRootNode u p s m = Some t \<Longrightarrow> cell_edit m t"
| "cell_edit m (removeRootNode u m)"
| "cell_edit m (setLabel l m)"
| "cell_edit m (setDescription l m)"

lemma cell_edit_original: "cell_edit s t \<Longrightarrow> originalCell t = originalCell s \<and> cellDirty t"
  by (cases rule: cell_edit.cases)
    (auto simp: addUser_def removeUser_def updateUserRight_def addRootNode_def removeRootNode_def setLabel_def
      setDescription_def Let_def split: option.splits if_splits)

definition cell_view :: "cell_model \<Rightarrow> rest_cell option" where
  "cell_view m = (case originalCell m of None \<Rightarrow> None | Some _ \<Rightarrow> Some (cell m))"

interpretation cell_snapshot: snapshot_model cell_view originalCell revertCell cell_edit
  by unfold_locales
    (auto simp: cell_edit_original cell_view_def revertCell_def split: option.split)

lemma hasDirtyRootNodes_iff:
  "originalCell m = Some orig \<Longrightarrow>
     hasDirtyRootNodes m \<longleftrightarrow> nUuid ` set (ceNodes (cell m)) \<noteq> nUuid ` set (ceNodes orig)"
  by (auto simp: hasDirtyRootNodes_def Let_def filter_empty_conv image_iff set_eq_iff) (metis+)

lemma filter_right_absent: "right \<notin> fst ` set xs \<Longrightarrow> filter (\<lambda>(n, _). n \<noteq> right) xs = xs"
  by (induction xs) auto

text \<open>A right given and taken back leaves the cell as it was.\<close>

lemma right_given_taken:
  assumes "map_of (ceAcls (cell m)) role = Some a" "right \<notin> fst ` set (caActions a)" "caActions a \<noteq> []"
  shows "\<exists>t u. updateUserRight role right True m = Some t \<and> updateUserRight role right False t = Some u \<and> cell u = cell m"
proof -
  have "a\<lparr>caActions := caActions a\<rparr> = a" by simp
  then show ?thesis
    using assms(1,3) by (simp add: updateUserRight_def Let_def filter_right_absent [OF assms(2)]
        obj_set_twice obj_set_same update_conv')
qed

text \<open>The right that is taken away is gone, with all its duplicates; the others stay.\<close>

lemma right_taken:
  assumes "updateUserRight role right False m = Some t"
  shows "case map_of (ceAcls (cell t)) role of None \<Rightarrow> True | Some a \<Rightarrow> right \<notin> fst ` set (caActions a)"
  using assms
  by (auto simp: updateUserRight_def removeUser_def Let_def update_conv' delete_conv' split: option.splits if_splits)

lemma switchToOther_other:
  assumes "switchToOther uuid repos = Some k"
  shows "k \<noteq> uuid \<and> k \<in> fst ` set repos"
proof -
  define f where "f = (\<lambda>acc (k, accessType). if k \<noteq> uuid \<and> (acc = None \<or> accessType = ''gateway'') then Some k else acc)"
  have "foldl f acc rs = Some k \<Longrightarrow> acc = Some k \<or> (k \<noteq> uuid \<and> k \<in> fst ` set rs)" for acc rs
  proof (induction rs arbitrary: acc)
    case (Cons r rs)
    obtain k' ty where r: "r = (k', ty)" by fastforce
    have "f acc r = Some k \<or> (k \<noteq> uuid \<and> k \<in> fst ` set rs)" using Cons by simp
    then show ?case by (auto simp: r f_def split: if_splits)
  qed simp
  from this [of None repos] show ?thesis using assms by (simp add: switchToOther_def f_def)
qed

lemma deleteCell_never_active:
  "deleteCell True active repos m = SwitchThenDelete k \<Longrightarrow> k \<noteq> ceUuid (cell m) \<and> k \<in> fst ` set repos"
  "deleteCell c active repos m = DeleteNow \<Longrightarrow> active \<noteq> ceUuid (cell m)"
  by (auto simp: deleteCell_def dest: switchToOther_other split: option.splits if_splits)

end
