(* ===== verification/ShareComposite.thy ===== *)
theory ShareComposite
  imports ShareCells ShareLinks
begin

text \<open>
  \<open>CompositeModel.js\<close>: the share dialog of one node, with the cells that hold it and its public
  links.

  The cells are objects compared by reference, so each has an identity beside its model. The
  dialog's calls to the server are returned as requests; their answers are \<open>cell_loaded\<close>,
  \<open>link_loaded\<close> and \<open>save_settled\<close>. \<open>reloads\<close> counts the reloads of the node asked for by
  \<open>updateUnderlyingNode\<close>; the notifications of \<open>update\<close> only redraw the dialog.
\<close>

section \<open>State\<close>

record share_node =
  sUuid :: string
  sLabel :: string
  sPath :: string
  sLeaf :: bool

record composite =
  cCells :: "(nat \<times> cell_model) list"
  cLinks :: "link_model list"
  cEdit :: bool
  cNode :: "share_node option"
  saving :: bool
  skipUpdate :: bool
  reloads :: nat
  nextRef :: nat

definition newComposite :: "bool \<Rightarrow> composite" where
  "newComposite edit =
     \<lparr>cCells = [], cLinks = [], cEdit = edit, cNode = None, saving = False, skipUpdate = False,
      reloads = 0, nextRef = 0\<rparr>"

text \<open>What the dialog reads around it: the site's rules, whether the node has a preview, the
  message with its date, the time in seconds and the active repository's slug.\<close>

record share_env =
  auth :: authorizations
  hasPreview :: bool
  message257 :: string
  today :: string
  now :: nat
  activeSlug :: "string option"

definition updateUnderlyingNode :: "composite \<Rightarrow> composite" where
  "updateUnderlyingNode c = (if skipUpdate c then c else c\<lparr>reloads := Suc (reloads c)\<rparr>)"

section \<open>New links and cells\<close>

text \<open>\<open>s > 0\<close> and the string of \<open>now + parseInt(s) * 86400\<close> for a configured string.\<close>

definition js_positive :: "string \<Rightarrow> bool" where
  "js_positive s \<longleftrightarrow> s \<noteq> [] \<and> list_all is_digit s \<and> 0 < digits_val s"

definition expiration :: "nat \<Rightarrow> string \<Rightarrow> string" where
  "expiration t s = (case parse_int s of Some k \<Rightarrow> print_int (int t + k * 60 * 60 * 24) | None \<Rightarrow> ''NaN'')"

definition emptyLink :: "share_env \<Rightarrow> share_node \<Rightarrow> link_model" where
  "emptyLink e n =
     (let a = auth e;
          strip = sLeaf n \<and> hasPreview e \<and> max_downloads a = [];
          l = (link newLink)\<lparr>lLabel := sLabel n, lDescription := js_replace (message257 e) ''%s'' (today e),
                 lRootNodes := [sUuid n],
                 maxDownloads := (if sLeaf n \<and> \<not> strip \<and> js_positive (max_downloads a) then max_downloads a else []),
                 viewTemplate := (if \<not> sLeaf n then ''pydio_shared_folder''
                                  else if strip then ''pydio_unique_strip'' else ''pydio_unique_dl''),
                 permissions := (if \<not> sLeaf n \<or> strip then [''Download'', ''Preview''] else [''Download'']),
                 accessEnd := (if max_expiration a \<noteq> [] then expiration (now e) (max_expiration a) else [])\<rparr>
      in newLink\<lparr>link := l\<rparr>)"

definition push_cell :: "cell_model \<Rightarrow> composite \<Rightarrow> composite" where
  "push_cell m c = c\<lparr>cCells := cCells c @ [(nextRef c, m)], nextRef := Suc (nextRef c)\<rparr>"

text \<open>\<open>createEmptyCell\<close> throws without node or when the repository is unknown.\<close>

definition createEmptyCell :: "share_env \<Rightarrow> composite \<Rightarrow> composite option" where
  "createEmptyCell e c =
     (case cNode c of
        None \<Rightarrow> None
      | Some n \<Rightarrow> map_option (\<lambda>m. push_cell (m\<lparr>cellDirty := False\<rparr>) c)
          (addRootNode (sUuid n) (sPath n) (activeSlug e) (setLabel (sLabel n) (newCell True))))"

definition at_cell :: "nat \<Rightarrow> (cell_model \<Rightarrow> cell_model) \<Rightarrow> composite \<Rightarrow> composite" where
  "at_cell r f c = c\<lparr>cCells := map (\<lambda>(q, m). if q = r then (q, f m) else (q, m)) (cCells c)\<rparr>"

definition cell_loaded :: "nat \<Rightarrow> rest_cell \<Rightarrow> composite \<Rightarrow> composite" where
  "cell_loaded r room = at_cell r (loadCell_done room)"

text \<open>The answer to \<open>addToExistingCell\<close>: the node is added to the cell that was loaded.\<close>

definition existing_loaded :: "share_env \<Rightarrow> nat \<Rightarrow> rest_cell \<Rightarrow> composite \<Rightarrow> composite" where
  "existing_loaded e r room c =
     at_cell r (\<lambda>m. let m1 = loadCell_done room m in
        case cNode c of
          None \<Rightarrow> m1
        | Some n \<Rightarrow> (case addRootNode (sUuid n) (sPath n) (activeSlug e) m1 of Some m2 \<Rightarrow> m2 | None \<Rightarrow> m1)) c"

section \<open>Loading\<close>

datatype load_request = LoadLink string | LoadCell nat string

definition addToExistingCell :: "string \<Rightarrow> composite \<Rightarrow> composite \<times> load_request list" where
  "addToExistingCell cellId c = (push_cell (newCell True) c, [LoadCell (nextRef c) cellId])"

text \<open>The shares of the node's metadata: scope 3 is a link, scope 2 a cell.\<close>

definition load_share :: "composite \<times> load_request list \<Rightarrow> int \<times> string \<Rightarrow> composite \<times> load_request list" where
  "load_share = (\<lambda>(c, rs) (scope, uuid).
     if scope = 3 then (c\<lparr>cLinks := cLinks c @ [newLink]\<rparr>, rs @ [LoadLink uuid])
     else if scope = 2 then (push_cell (newCell False) c, rs @ [LoadCell (nextRef c) uuid])
     else (c, rs))"

definition loadComposite :: "share_env \<Rightarrow> share_node \<Rightarrow> (int \<times> string) list \<Rightarrow> composite \<Rightarrow> composite \<times> load_request list" where
  "loadComposite e n shares c =
     (let (c1, rs) = foldl load_share (c\<lparr>cNode := Some n, cCells := [], cLinks := []\<rparr>, []) shares
      in (if cEdit c1 \<and> cLinks c1 = [] then c1\<lparr>cLinks := [emptyLink e n]\<rparr> else c1, rs))"

definition loadUniqueLink :: "string \<Rightarrow> share_node \<Rightarrow> composite \<Rightarrow> composite \<times> load_request list" where
  "loadUniqueLink uuid n c = (c\<lparr>cNode := Some n, cLinks := cLinks c @ [newLink]\<rparr>, [LoadLink uuid])"

section \<open>Saving\<close>

datatype save_request = SaveCell cell_request | SaveLink link_request | RemoveLink string

text \<open>The links are saved in order; one that throws ends the loop, after the requests already made.\<close>

fun save_links :: "share_env \<Rightarrow> link_model list \<Rightarrow> link_model list \<times> save_request list \<times> share_error option" where
  "save_links e [] = ([], [], None)"
| "save_links e (l # ls) =
     (if linkDirty l then
        (case saveLink (auth e) (now e) l of
           Inl err \<Rightarrow> (l # ls, [], Some err)
         | Inr (req, l1) \<Rightarrow>
             let (ls1, rs, err) = save_links e ls in (l1 # ls1, SaveLink req # rs, err))
      else let (ls1, rs, err) = save_links e ls in (l # ls1, rs, err))"

definition saveComposite :: "share_env \<Rightarrow> composite \<Rightarrow> composite \<times> save_request list \<times> share_error option" where
  "saveComposite e c =
     (let cells = map (\<lambda>(r, m). (r, if cellDirty m then snd (saveCell m) else m)) (cCells c);
          creqs = map (\<lambda>(r, m). SaveCell (fst (saveCell m))) (filter (\<lambda>(r, m). cellDirty m) (cCells c));
          (ls, lreqs, err) = save_links e (cLinks c)
      in (c\<lparr>saving := True, cCells := cells, cLinks := ls\<rparr>, creqs @ lreqs, err))"

text \<open>When all answers are there, or the first failure is.\<close>

definition getCells :: "composite \<Rightarrow> (nat \<times> cell_model) list" where
  "getCells c =
     (case cNode c of None \<Rightarrow> cCells c | Some n \<Rightarrow> filter (\<lambda>(r, m). hasRootNode (sUuid n) m) (cCells c))"

definition save_settled :: "bool \<Rightarrow> composite \<Rightarrow> composite" where
  "save_settled ok c =
     (updateUnderlyingNode (if ok then c\<lparr>cCells := getCells c\<rparr> else c))\<lparr>saving := False\<rparr>"

text \<open>\<open>deleteAll\<close> throws without a node. Its links are deleted without an empty link to show instead:
  once the server has answered, the dialog holds no link any more.\<close>

definition deleteAll :: "composite \<Rightarrow> (composite \<times> save_request list) option" where
  "deleteAll c =
     (case cNode c of
        None \<Rightarrow> None
      | Some n \<Rightarrow>
          let removed = map (\<lambda>(r, m). (r, removeRootNode (sUuid n) m)) (cCells c)
          in Some (c\<lparr>cCells := map (\<lambda>(r, m). (r, snd (saveCell m))) removed\<rparr>,
              map (\<lambda>(r, m). SaveCell (fst (saveCell m))) removed @ map (\<lambda>l. RemoveLink (lUuid (link l))) (cLinks c)))"

text \<open>\<open>deleteLink\<close> of one link: the request, and its answer, which leaves an empty link.\<close>

definition link_deleted :: "share_env \<Rightarrow> nat \<Rightarrow> composite \<Rightarrow> composite" where
  "link_deleted e i c =
     (case cNode c of
        None \<Rightarrow> c
      | Some n \<Rightarrow> updateUnderlyingNode
          (c\<lparr>cLinks := (cLinks c)[i := deleteLink_done (link (emptyLink e n)) (cLinks c ! i)]\<rparr>))"

definition removeNewCell :: "nat \<Rightarrow> composite \<Rightarrow> composite" where
  "removeNewCell r c = c\<lparr>cCells := filter (\<lambda>(q, m). q \<noteq> r) (cCells c)\<rparr>"

definition revertComposite :: "composite \<Rightarrow> composite" where
  "revertComposite c =
     c\<lparr>cCells := map (\<lambda>(r, m). (r, if cellDirty m then revertCell m else m))
           (filter (\<lambda>(r, m). ceUuid (cell m) \<noteq> []) (cCells c)),
       cLinks := map (\<lambda>l. if linkDirty l then revertLink l else l) (cLinks c)\<rparr>"

text \<open>\<open>&&\<close> binds tighter than \<open>||\<close>: saving only hides the cells.\<close>

definition compositeDirty :: "composite \<Rightarrow> bool" where
  "compositeDirty c \<longleftrightarrow>
     (\<not> saving c \<and> length (filter (\<lambda>(r, m). cellDirty m) (cCells c)) > 0) \<or>
     length (filter linkDirty (cLinks c)) > 0"

section \<open>Facts\<close>

text \<open>Loaded cells and links have an original; a new cell has no \<open>Uuid\<close>.\<close>

definition dialog_ok :: "composite \<Rightarrow> bool" where
  "dialog_ok c \<longleftrightarrow> (\<forall>(r, m) \<in> set (cCells c). ceUuid (cell m) \<noteq> [] \<longrightarrow> originalCell m \<noteq> None) \<and>
     (\<forall>l \<in> set (cLinks c). linkDirty l \<longrightarrow> originalLink l \<noteq> None)"

lemma revertCell_clean: "originalCell m \<noteq> None \<Longrightarrow> \<not> cellDirty (revertCell m)"
  by (auto simp: revertCell_def)

lemma revertLink_clean: "originalLink l \<noteq> None \<Longrightarrow> \<not> linkDirty (revertLink l)"
  by (auto simp: revertLink_def)

lemma revert_clean:
  assumes "dialog_ok c"
  shows "\<not> compositeDirty (revertComposite c)"
proof -
  have "\<not> cellDirty (if cellDirty m then revertCell m else m)"
    if "(r, m) \<in> set (cCells c)" "ceUuid (cell m) \<noteq> []" for r m
    using assms that revertCell_clean [of m] by (auto simp: dialog_ok_def)
  moreover have "\<not> linkDirty (if linkDirty l then revertLink l else l)" if "l \<in> set (cLinks c)" for l
    using assms that revertLink_clean [of l] by (auto simp: dialog_ok_def)
  ultimately show ?thesis
    by (auto simp: compositeDirty_def revertComposite_def filter_empty_conv)
qed

text \<open>A link that cannot be saved leaves the dialog in the saving state.\<close>

lemma save_links_error:
  assumes "save_links e ls = (ls1, rs, Some err)"
  shows "\<exists>l \<in> set ls. linkDirty l \<and> saveLink (auth e) (now e) l = Inl err"
  using assms
proof (induction ls arbitrary: ls1 rs)
  case (Cons l ls)
  obtain ls2 rs2 err2 where s: "save_links e ls = (ls2, rs2, err2)" by (metis prod_cases3)
  show ?case
  proof (cases "saveLink (auth e) (now e) l")
    case (Inl x)
    then show ?thesis using Cons s by (auto split: if_splits)
  next
    case (Inr y)
    then show ?thesis using Cons s by (cases y) (auto split: if_splits)
  qed
qed simp

lemma save_links_stops:
  assumes "l \<in> set ls" "linkDirty l" "saveLink (auth e) (now e) l = Inl err"
  shows "\<exists>ls1 rs err'. save_links e ls = (ls1, rs, Some err')"
  using assms
proof (induction ls)
  case (Cons k ls)
  obtain ls2 rs2 err2 where s: "save_links e ls = (ls2, rs2, err2)" by (metis prod_cases3)
  show ?case
  proof (cases "linkDirty k")
    case True
    then show ?thesis using Cons s
      by (cases "saveLink (auth e) (now e) k") auto
  next
    case False
    then show ?thesis using Cons s by auto
  qed
qed simp

lemma saveComposite_stuck:
  assumes "l \<in> set (cLinks c)" "linkDirty l" "saveLink (auth e) (now e) l = Inl err"
  shows "\<exists>c1 rs err'. saveComposite e c = (c1, rs, Some err') \<and> saving c1"
  using save_links_stops [OF assms] by (auto simp: saveComposite_def Let_def)

lemma save_settled_cells:
  "cNode c = Some n \<Longrightarrow> \<forall>(r, m) \<in> set (cCells (save_settled True c)). hasRootNode (sUuid n) m"
  by (auto simp: save_settled_def updateUnderlyingNode_def getCells_def)

lemma emptyLink_limits:
  "sLeaf n \<Longrightarrow> js_positive (max_downloads (auth e)) \<Longrightarrow> maxDownloads (link (emptyLink e n)) = max_downloads (auth e)"
  "originalLink (emptyLink e n) = None" "lRootNodes (link (emptyLink e n)) = [sUuid n]"
  "''Download'' \<in> set (permissions (link (emptyLink e n)))"
  by (auto simp: emptyLink_def Let_def newLink_def js_positive_def)

lemma addRootNode_has: "addRootNode u p s m = Some t \<Longrightarrow> hasRootNode u t"
  by (auto simp: addRootNode_def hasRootNode_def)

lemma createEmptyCell_shown:
  assumes "cNode c = Some n" "createEmptyCell e c = Some t"
  shows "\<exists>m. getCells t = getCells c @ [(nextRef c, m)] \<and> \<not> cellDirty m \<and> ceLabel (cell m) = sLabel n"
  using assms addRootNode_has
  by (auto simp: createEmptyCell_def getCells_def push_cell_def hasRootNode_def addRootNode_def setLabel_def)

end
