(* ===== verification/ShareProperties.thy ===== *)
theory ShareProperties
  imports ShareComposite
begin

text \<open>The properties of the cell editor and of the share dialog.\<close>

text \<open>C27. A right given to a member of a cell and taken back leaves the cell as it was, when the
  member did not have it and has another one.\<close>

theorem member_right_roundtrip:
  assumes "map_of (ceAcls (cell m)) role = Some a" "right \<notin> fst ` set (caActions a)" "caActions a \<noteq> []"
  shows "\<exists>t u. updateUserRight role right True m = Some t \<and> updateUserRight role right False t = Some u \<and> cell u = cell m"
  by (rule right_given_taken [OF assms])

definition team :: cell_model where
  "team = addUser ''role'' SGroup (setLabel ''team'' (newCell False))"

theorem member_right_roundtrip_witness:
  "\<exists>t u. updateUserRight ''role'' ''write'' True team = Some t \<and>
     updateUserRight ''role'' ''write'' False t = Some u \<and> cell u = cell team"
  by (rule member_right_roundtrip [of team "''role''" "\<lparr>caRole = ''role'', caSubject = SGroup, caActions = [(''read'', ''1'')]\<rparr>"])
    (simp_all add: team_def addUser_def on_cell_def newCell_def setLabel_def notifyDirty_def)

text \<open>Reverting the dialog leaves nothing to save, when its dirty links and its stored cells were
  loaded from the server before.\<close>

lemma revert_leaves_clean:
  assumes "dialog_ok c"
  shows "\<not> compositeDirty (revertComposite c)"
  by (rule revert_clean [OF assms])

definition folder_node :: share_node where
  "folder_node = \<lparr>sUuid = ''n1'', sLabel = ''docs'', sPath = ''/docs'', sLeaf = False\<rparr>"

definition loaded_link :: link_model where
  "loaded_link = loadLink_done (Some ((link newLink)\<lparr>lUuid := ''l1''\<rparr>)) newLink"

definition edited_dialog :: composite where
  "edited_dialog = (newComposite True)\<lparr>cNode := Some folder_node,
     cCells := [(0, setLabel ''x'' (loadCell_done (cell (on_cell (\<lambda>c. c\<lparr>ceUuid := ''c1''\<rparr>) team)) (newCell False))),
                (1, team)],
     cLinks := [notifyLinkDirty loaded_link]\<rparr>"

lemma edited_dialog_ok: "dialog_ok edited_dialog" "compositeDirty edited_dialog"
  by (simp_all add: dialog_ok_def compositeDirty_def edited_dialog_def newComposite_def team_def addUser_def
      on_cell_def newCell_def setLabel_def notifyDirty_def loadCell_done_def notifyLinkDirty_def link_notified_def
      loaded_link_def loadLink_done_def newLink_def)

text \<open>A link that cannot be saved (a weak password, or none where one is mandatory) makes the
  dialog's \<open>save\<close> throw in the middle of the loop: the flag \<open>saving\<close> stays set, and with it the
  changes of the cells are no longer shown as unsaved.\<close>

lemma unsaved_link_blocks_dialog:
  assumes "l \<in> set (cLinks c)" "linkDirty l" "saveLink (auth e) (now e) l = Inl err"
  shows "\<exists>c1 rs err'. saveComposite e c = (c1, rs, Some err') \<and> saving c1 \<and>
    (compositeDirty c1 \<longleftrightarrow> (\<exists>k \<in> set (cLinks c1). linkDirty k))"
  using saveComposite_stuck [OF assms]
  by (auto simp: compositeDirty_def filter_empty_conv)

definition plain_env :: share_env where
  "plain_env =
     \<lparr>auth = \<lparr>folder_public_link = True, folder_workspaces = True, file_public_link = True, file_workspaces = True,
        editable_hash = False, hash_min_length = 6, password_mandatory = True, max_expiration = [],
        max_downloads = [], password_placeholder = []\<rparr>,
      hasPreview = True, message257 = ''%s'', today = ''2020/01/01'', now = 0, activeSlug = Some ''ws''\<rparr>"

end
