(* ===== verification/ChatRooms.thy ===== *)
theory ChatRooms
  imports Systems Prelude
begin

text \<open>
  \<open>ChatClient.js\<close>: the chat rooms of the browser, over one web socket.

  A subscription holds the identity of its message handler and whether it has a room update
  handler. What the handlers receive is appended to \<open>calls\<close>, the frames sent to \<open>frames\<close>, the
  calls put off with a timer to \<open>timers\<close>. An exception in a handler is caught by the code. The
  socket itself, with its reconnections, is the environment: its \<open>open\<close> and \<open>close\<close> events are
  \<open>socket_ready\<close> and \<open>socket_closed\<close>.
\<close>

section \<open>State\<close>

record chat_room =
  rmType :: string
  rmObject :: string
  rmUuid :: string
  rmUsers :: "string list"

record subscription =
  handler :: nat
  hasUpdate :: bool

datatype frame = Join string string | Ping string string | Leave string string
  | History string string nat nat | Raw string

record chat_message =
  msgRoom :: string
  msgText :: string

datatype call = GotUpdate nat chat_room | GotMessage nat chat_message bool

datatype timer = RetryJoin string string nat bool nat | RetryHistory string string nat nat nat

record chat =
  currentRepo :: string
  subscriptions :: "(string, subscription list) obj"
  rooms :: "(string, string) obj"
  roomInfos :: "(string, chat_room) obj"
  hasSocket :: bool
  connecting :: bool
  connOpen :: bool
  heartbeatOn :: bool
  frames :: "frame list"
  timers :: "timer list"
  calls :: "call list"

section \<open>Identifiers and frames\<close>

definition getIdentifier :: "string \<Rightarrow> string \<Rightarrow> string" where
  "getIdentifier roomType objectId = roomType @ '':'' @ objectId"

text \<open>The first two parts; a missing one is \<open>undefined\<close>, which no identifier leads to.\<close>

definition getRoomInfoFromIdentifier :: "string \<Rightarrow> string \<times> string" where
  "getRoomInfoFromIdentifier identifier =
     (case js_split CHR '':'' identifier of
        t # o1 # _ \<Rightarrow> (t, o1) | [t] \<Rightarrow> (t, ''undefined'') | [] \<Rightarrow> ([], ''undefined''))"

definition sendFrame :: "frame \<Rightarrow> chat \<Rightarrow> chat" where
  "sendFrame f c = c\<lparr>frames := frames c @ [f]\<rparr>"

definition onRoomMessage :: "chat_room \<Rightarrow> chat \<Rightarrow> chat" where
  "onRoomMessage r c = c\<lparr>roomInfos := obj_set (getIdentifier (rmType r) (rmObject r)) r (roomInfos c)\<rparr>"

section \<open>Leaving, closing, opening\<close>

text \<open>\<open>leaveRoom\<close> for one handler, or for the whole room when none is given.\<close>

definition drop_subscription :: "string \<Rightarrow> nat option \<Rightarrow> chat \<Rightarrow> bool \<times> chat" where
  "drop_subscription identifier h c =
     (case map_of (subscriptions c) identifier of
        None \<Rightarrow> (False, c)
      | Some subs \<Rightarrow>
          (case h of
             None \<Rightarrow> (False, c\<lparr>subscriptions := obj_del identifier (subscriptions c)\<rparr>)
           | Some n \<Rightarrow>
               let left = filter (\<lambda>v. handler v \<noteq> n) subs
               in if left \<noteq> [] then (True, c\<lparr>subscriptions := obj_set identifier left (subscriptions c)\<rparr>)
                  else (False, c\<lparr>subscriptions := obj_del identifier (subscriptions c)\<rparr>)))"

definition leaveRoom :: "string \<Rightarrow> string \<Rightarrow> nat option \<Rightarrow> chat \<Rightarrow> chat" where
  "leaveRoom roomType objectId h c =
     (let identifier = getIdentifier roomType objectId;
          (keep, c1) = drop_subscription identifier h c
      in if keep then c1
         else let c2 = c1\<lparr>rooms := filter (\<lambda>(u, i). i \<noteq> identifier) (rooms c1)\<rparr>
              in if connOpen c2 then sendFrame (Leave roomType objectId) c2 else c2)"

definition closeChat :: "chat \<Rightarrow> chat" where
  "closeChat c =
     (if \<not> hasSocket c then c
      else (fold (\<lambda>k c. let (t, o1) = getRoomInfoFromIdentifier k in leaveRoom t o1 None c)
              (obj_keys (subscriptions c)) c)\<lparr>heartbeatOn := False\<rparr>)"

definition openChat :: "chat \<Rightarrow> chat" where
  "openChat c =
     (let c1 = closeChat c
      in if currentRepo c1 = [] then c1
         else c1\<lparr>hasSocket := True, connecting := True, heartbeatOn := True\<rparr>)"

text \<open>The address of the socket: the event endpoint with \<open>/chat\<close>, without its leading slash.\<close>

definition chat_url :: "string \<Rightarrow> string \<Rightarrow> string \<Rightarrow> string" where
  "chat_url endpoint protocol host =
     (let p = js_replace endpoint ''/event'' ''/chat'';
          wsPath = (if p \<noteq> [] \<and> hd p = CHR ''/'' then tl p else p)
      in (if protocol = ''https:'' then ''wss'' else ''ws'') @ ''://'' @ host @ ''/'' @ wsPath)"

definition newChat :: "string \<Rightarrow> chat" where
  "newChat repo =
     openChat \<lparr>currentRepo = repo, subscriptions = [], rooms = [], roomInfos = [], hasSocket = False,
       connecting = False, connOpen = False, heartbeatOn = False, frames = [], timers = [], calls = []\<rparr>"

definition socket_ready :: "bool \<Rightarrow> chat \<Rightarrow> chat" where
  "socket_ready authenticated c = c\<lparr>connecting := False, connOpen := authenticated\<rparr>"

definition socket_closed :: "chat \<Rightarrow> chat" where
  "socket_closed c = c\<lparr>connOpen := False, connecting := False\<rparr>"

section \<open>Joining\<close>

definition joinRoom :: "string \<Rightarrow> string \<Rightarrow> nat \<Rightarrow> bool \<Rightarrow> nat \<Rightarrow> chat \<Rightarrow> chat_room option \<times> chat" where
  "joinRoom roomType objectId h upd retry c =
     (let identifier = getIdentifier roomType objectId in
      case map_of (subscriptions c) identifier of
        Some subs \<Rightarrow>
          (map_of (roomInfos c) identifier,
           if h \<in> set (map handler subs) then c
           else c\<lparr>subscriptions := obj_set identifier (subs @ [\<lparr>handler = h, hasUpdate = upd\<rparr>]) (subscriptions c)\<rparr>)
      | None \<Rightarrow>
          if connecting c \<and> retry < 3 then
            (None, c\<lparr>timers := timers c @ [RetryJoin roomType objectId h upd (retry + 1)]\<rparr>)
          else if \<not> connecting c \<and> \<not> connOpen c then
            (None, (openChat c)\<lparr>timers := timers (openChat c) @ [RetryJoin roomType objectId h upd (retry + 1)]\<rparr>)
          else
            (map_of (roomInfos c) identifier,
             sendFrame (Join roomType objectId)
               (c\<lparr>subscriptions := obj_set identifier [\<lparr>handler = h, hasUpdate = upd\<rparr>] (subscriptions c)\<rparr>)))"

definition loadHistory :: "string \<Rightarrow> string \<Rightarrow> nat \<Rightarrow> nat \<Rightarrow> nat \<Rightarrow> chat \<Rightarrow> chat" where
  "loadHistory roomType objectId offset limit retry c =
     (if connecting c \<and> retry < 3 then
        c\<lparr>timers := timers c @ [RetryHistory roomType objectId offset limit (retry + 1)]\<rparr>
      else sendFrame (History roomType objectId offset limit) c)"

fun timer_due :: "timer \<Rightarrow> chat \<Rightarrow> chat" where
  "timer_due (RetryJoin t o1 h u n) c =
     snd (joinRoom t o1 h u n (c\<lparr>timers := remove1 (RetryJoin t o1 h u n) (timers c)\<rparr>))"
| "timer_due (RetryHistory t o1 off lmt n) c =
     loadHistory t o1 off lmt n (c\<lparr>timers := remove1 (RetryHistory t o1 off lmt n) (timers c)\<rparr>)"

definition heartbeat :: "chat \<Rightarrow> chat" where
  "heartbeat c =
     fold (\<lambda>k c. let (t, o1) = getRoomInfoFromIdentifier k in sendFrame (Ping t o1) c)
       (obj_keys (subscriptions c)) c"

definition sendRaw :: "string \<Rightarrow> chat \<Rightarrow> chat" where
  "sendRaw m = sendFrame (Raw m)"

section \<open>Receiving\<close>

datatype chat_event = RoomUpdate chat_room | DeleteMsg chat_message | Posted chat_message

definition room_updated :: "chat_room \<Rightarrow> chat \<Rightarrow> chat" where
  "room_updated r c =
     (let identifier = getIdentifier (rmType r) (rmObject r) in
      case map_of (subscriptions c) identifier of
        None \<Rightarrow> c
      | Some subs \<Rightarrow>
          let c1 = (if map_of (rooms c) (rmUuid r) = None then c\<lparr>rooms := obj_set (rmUuid r) identifier (rooms c)\<rparr> else c);
              c2 = onRoomMessage r c1
          in c2\<lparr>calls := calls c2 @ map (\<lambda>v. GotUpdate (handler v) r) (filter hasUpdate subs)\<rparr>)"

text \<open>A message of a known room goes to the subscribers with an update handler if there is one,
  else to all. A known room without subscription throws (\<open>None\<close>).\<close>

definition recipients :: "subscription list \<Rightarrow> subscription list" where
  "recipients subs = (if filter hasUpdate subs \<noteq> [] then filter hasUpdate subs else subs)"

definition message_received :: "chat_message \<Rightarrow> bool \<Rightarrow> chat \<Rightarrow> chat option" where
  "message_received m deleted c =
     (if msgRoom m = [] then Some c
      else case map_of (rooms c) (msgRoom m) of
        None \<Rightarrow> Some c
      | Some identifier \<Rightarrow>
          (case map_of (subscriptions c) identifier of
             None \<Rightarrow> None
           | Some subs \<Rightarrow> Some (c\<lparr>calls := calls c @ map (\<lambda>v. GotMessage (handler v) m deleted) (recipients subs)\<rparr>)))"

fun handleMessageReceived :: "chat_event \<Rightarrow> chat \<Rightarrow> chat option" where
  "handleMessageReceived (RoomUpdate r) c = Some (room_updated r c)"
| "handleMessageReceived (DeleteMsg m) c = message_received m True c"
| "handleMessageReceived (Posted m) c = message_received m False c"

section \<open>Reachable states\<close>

inductive chat_step :: "chat \<Rightarrow> chat \<Rightarrow> bool" where
  join: "chat_step c (snd (joinRoom t o1 h u 0 c))"
| history: "chat_step c (loadHistory t o1 off lmt 0 c)"
| leave: "chat_step c (leaveRoom t o1 h c)"
| timer: "x \<in> set (timers c) \<Longrightarrow> chat_step c (timer_due x c)"
| sent: "chat_step c (sendRaw m c)"
| beat: "chat_step c (heartbeat c)"
| ready: "chat_step c (socket_ready a c)"
| closed: "chat_step c (socket_closed c)"
| opened: "chat_step c (openChat c)"
| ended: "chat_step c (closeChat c)"
| received: "handleMessageReceived ev c = Some d \<Longrightarrow> chat_step c d"

definition chat_reachable :: "chat \<Rightarrow> bool" where
  "chat_reachable = reach (\<lambda>c. \<exists>repo. c = newChat repo) chat_step"

lemma chat_reachable_start: "chat_reachable (newChat repo)"
  by (auto simp: chat_reachable_def intro: reach.started)

lemma chat_reachable_step: "chat_reachable c \<Longrightarrow> chat_step c d \<Longrightarrow> chat_reachable d"
  unfolding chat_reachable_def by (rule reach.stepped)

text \<open>Every known room is subscribed, every subscription has a handler and each handler once.\<close>

definition subs_ok :: "(string, subscription list) obj \<Rightarrow> bool" where
  "subs_ok o1 \<longleftrightarrow> distinct (obj_keys o1) \<and>
     (\<forall>i subs. map_of o1 i = Some subs \<longrightarrow> subs \<noteq> [] \<and> distinct (map handler subs))"

definition chat_ok :: "chat \<Rightarrow> bool" where
  "chat_ok c \<longleftrightarrow> subs_ok (subscriptions c) \<and> (\<forall>(u, i) \<in> set (rooms c). i \<in> fst ` set (subscriptions c))"

lemma subs_okD: "subs_ok o1 \<Longrightarrow> map_of o1 i = Some subs \<Longrightarrow> subs \<noteq> [] \<and> distinct (map handler subs)"
  unfolding subs_ok_def by blast

lemma chat_ok_same:
  "chat_ok c \<Longrightarrow> rooms d = rooms c \<Longrightarrow> subscriptions d = subscriptions c \<Longrightarrow> chat_ok d"
  by (simp add: chat_ok_def)

lemma in_obj_set: "p \<in> set (obj_set k v o1) \<Longrightarrow> p = (k, v) \<or> p \<in> set o1"
  by (induction o1) (auto split: if_splits)

lemma obj_set_keys: "distinct (obj_keys o1) \<Longrightarrow> distinct (obj_keys (obj_set k v o1))"
  by (simp add: obj_keys_def distinct_update)

lemma obj_del_keys: "distinct (obj_keys o1) \<Longrightarrow> distinct (obj_keys (obj_del k o1))"
  by (simp add: obj_keys_def distinct_delete)

lemma sendFrame_sel [simp]:
  "rooms (sendFrame f c) = rooms c" "subscriptions (sendFrame f c) = subscriptions c"
  "connOpen (sendFrame f c) = connOpen c" "hasSocket (sendFrame f c) = hasSocket c"
  "calls (sendFrame f c) = calls c" "currentRepo (sendFrame f c) = currentRepo c"
  by (simp_all add: sendFrame_def)

lemma subs_ok_set: "subs_ok o1 \<Longrightarrow> subs \<noteq> [] \<Longrightarrow> distinct (map handler subs) \<Longrightarrow> subs_ok (obj_set i subs o1)"
  unfolding subs_ok_def by (simp add: update_conv' obj_set_keys)

lemma subs_ok_del: "subs_ok o1 \<Longrightarrow> subs_ok (obj_del i o1)"
  unfolding subs_ok_def by (simp add: delete_conv' obj_del_keys)

lemma keys_obj_set [simp]: "fst ` set (obj_set k v o1) = insert k (fst ` set o1)"
  by (induction o1) auto

lemma keys_obj_del [simp]: "fst ` set (obj_del k o1) = fst ` set o1 - {k}"
  by (simp add: delete_conv' flip: dom_map_of_conv_image_fst)

lemma subscribed_ok:
  assumes "chat_ok c" "subs \<noteq> []" "distinct (map handler subs)"
  shows "chat_ok (c\<lparr>subscriptions := obj_set i subs (subscriptions c)\<rparr>)"
  using assms by (auto simp: chat_ok_def subs_ok_set)

lemma leave_ok:
  assumes "chat_ok c"
  shows "chat_ok (leaveRoom t o1 h c)"
proof -
  define i where "i = getIdentifier t o1"
  have gone: "chat_ok (d\<lparr>rooms := filter (\<lambda>(u, j). j \<noteq> i) (rooms d)\<rparr>)"
    if "rooms d = rooms c" "subscriptions d = subscriptions c \<or> subscriptions d = obj_del i (subscriptions c)" for d
    using assms that by (auto simp: chat_ok_def subs_ok_del)
  have kept: "chat_ok (c\<lparr>subscriptions := obj_set i (filter (\<lambda>v. handler v \<noteq> n) subs) (subscriptions c)\<rparr>)"
    if "map_of (subscriptions c) i = Some subs" "filter (\<lambda>v. handler v \<noteq> n) subs \<noteq> []" for n subs
  proof (rule subscribed_ok [OF assms that(2)])
    have "distinct (map handler subs)" using assms that(1) subs_okD unfolding chat_ok_def by blast
    then show "distinct (map handler (filter (\<lambda>v. handler v \<noteq> n) subs))" by (rule distinct_map_filter)
  qed
  obtain k d where d: "drop_subscription i h c = (k, d)" by fastforce
  have "rooms d = rooms c"
    using d by (auto simp: drop_subscription_def Let_def split: option.splits if_splits)
  moreover have "k \<Longrightarrow> chat_ok d"
    using d kept by (auto simp: drop_subscription_def Let_def split: option.splits if_splits)
  moreover have "\<not> k \<Longrightarrow> subscriptions d = subscriptions c \<or> subscriptions d = obj_del i (subscriptions c)"
    using d by (auto simp: drop_subscription_def Let_def split: option.splits if_splits)
  ultimately show ?thesis
    using gone [of d] by (auto simp: leaveRoom_def d [unfolded i_def] Let_def i_def intro: chat_ok_same)
qed

lemma close_ok: "chat_ok c \<Longrightarrow> chat_ok (closeChat c)"
proof -
  have "chat_ok d \<Longrightarrow> chat_ok (fold (\<lambda>k c. let (t, o1) = getRoomInfoFromIdentifier k in leaveRoom t o1 None c) ks d)" for ks d
    by (induction ks arbitrary: d) (auto simp: leave_ok split: prod.split)
  note kept = this [of c "obj_keys (subscriptions c)"]
  show "chat_ok c \<Longrightarrow> ?thesis"
    unfolding closeChat_def by (auto intro!: chat_ok_same [OF kept])
qed

lemma open_ok: "chat_ok c \<Longrightarrow> chat_ok (openChat c)"
  using close_ok [of c] by (auto simp: openChat_def Let_def intro: chat_ok_same)

lemma join_ok:
  assumes "chat_ok c"
  shows "chat_ok (snd (joinRoom t o1 h u n c))"
proof (cases "map_of (subscriptions c) (getIdentifier t o1)")
  case (Some subs)
  then have "subs \<noteq> []" "distinct (map handler subs)" using assms subs_okD unfolding chat_ok_def by blast+
  then show ?thesis
    using Some subscribed_ok [OF assms, of "subs @ [\<lparr>handler = h, hasUpdate = u\<rparr>]" "getIdentifier t o1"] assms
    by (simp add: joinRoom_def Let_def)
next
  case None
  have "chat_ok (sendFrame (Join t o1) (c\<lparr>subscriptions := obj_set (getIdentifier t o1) [\<lparr>handler = h, hasUpdate = u\<rparr>] (subscriptions c)\<rparr>))"
    by (rule chat_ok_same [OF subscribed_ok [OF assms]]) simp_all
  then show ?thesis
    using None assms open_ok [OF assms] by (auto simp: joinRoom_def Let_def intro: chat_ok_same)
qed

lemma history_ok: "chat_ok c \<Longrightarrow> chat_ok (loadHistory t o1 off lmt n c)"
  by (auto simp: loadHistory_def intro: chat_ok_same)

lemma timer_ok: "chat_ok c \<Longrightarrow> chat_ok (timer_due x c)"
  by (cases x) (auto intro!: join_ok history_ok intro: chat_ok_same)

lemma heartbeat_ok: "chat_ok c \<Longrightarrow> chat_ok (heartbeat c)"
proof -
  have "rooms (fold (\<lambda>k c. let (t, o1) = getRoomInfoFromIdentifier k in sendFrame (Ping t o1) c) ks d) = rooms d
      \<and> subscriptions (fold (\<lambda>k c. let (t, o1) = getRoomInfoFromIdentifier k in sendFrame (Ping t o1) c) ks d) = subscriptions d"
    for ks d
    by (induction ks arbitrary: d) (auto split: prod.split)
  then show "chat_ok c \<Longrightarrow> ?thesis"
    unfolding heartbeat_def by (blast intro: chat_ok_same)
qed

lemma room_updated_ok:
  assumes "chat_ok c"
  shows "chat_ok (room_updated r c)"
proof (cases "map_of (subscriptions c) (getIdentifier (rmType r) (rmObject r))")
  case (Some subs)
  let ?i = "getIdentifier (rmType r) (rmObject r)"
  have "chat_ok (c\<lparr>rooms := obj_set (rmUuid r) ?i (rooms c)\<rparr>)"
    using assms map_of_SomeD [OF Some] unfolding chat_ok_def by (force dest: in_obj_set)
  then show ?thesis
    using Some assms by (auto simp: room_updated_def onRoomMessage_def Let_def intro: chat_ok_same)
qed (simp add: room_updated_def assms)

lemma received_ok: "chat_ok c \<Longrightarrow> handleMessageReceived ev c = Some d \<Longrightarrow> chat_ok d"
  by (cases ev) (auto simp: room_updated_ok message_received_def split: if_splits option.splits intro: chat_ok_same)

lemma newChat_ok: "chat_ok (newChat repo)"
  unfolding newChat_def by (rule open_ok) (simp add: chat_ok_def subs_ok_def)

lemma step_ok: "chat_step c d \<Longrightarrow> chat_ok c \<Longrightarrow> chat_ok d"
  by (cases rule: chat_step.cases)
    (auto simp: socket_ready_def socket_closed_def sendRaw_def
      intro: join_ok history_ok leave_ok timer_ok heartbeat_ok open_ok close_ok received_ok chat_ok_same)

interpretation chat_client: reactive_system "\<lambda>c. \<exists>repo. c = newChat repo" chat_step chat_ok
  by unfold_locales (auto intro: newChat_ok step_ok)

lemma chat_reachable_ok: "chat_reachable c \<Longrightarrow> chat_ok c"
  unfolding chat_reachable_def by (rule chat_client.reached)

end
