(* ===== verification/ChatProperties.thy ===== *)
theory ChatProperties
  imports ChatRooms
begin

text \<open>The properties of the chat client, and the histories they are checked on.\<close>

section \<open>Leaving every room\<close>

text \<open>Identifiers without further colons are read back.\<close>

definition plain_id :: "string \<Rightarrow> bool" where
  "plain_id k \<longleftrightarrow> (\<exists>a b. k = getIdentifier a b \<and> CHR '':'' \<notin> set a \<and> CHR '':'' \<notin> set b)"

lemma room_info_plain: "plain_id k \<Longrightarrow> getIdentifier (fst (getRoomInfoFromIdentifier k)) (snd (getRoomInfoFromIdentifier k)) = k"
  by (auto simp: plain_id_def getRoomInfoFromIdentifier_def getIdentifier_def js_split_append js_split_no_sep)

lemma leaveRoom_subscriptions:
  "subscriptions (leaveRoom t o1 None c) = obj_del (getIdentifier t o1) (subscriptions c)"
  by (auto simp: leaveRoom_def drop_subscription_def Let_def delete_id map_of_eq_None_iff split: option.split)

lemma leave_all:
  "(\<And>k. k \<in> set ks \<Longrightarrow> plain_id k) \<Longrightarrow> fst ` set (subscriptions c) \<subseteq> set ks \<Longrightarrow>
     subscriptions (fold (\<lambda>k c. let (t, o1) = getRoomInfoFromIdentifier k in leaveRoom t o1 None c) ks c) = []"
proof (induction ks arbitrary: c)
  case (Cons k ks)
  obtain t o1 where k: "getRoomInfoFromIdentifier k = (t, o1)" by fastforce
  have "getIdentifier t o1 = k" using room_info_plain [of k] Cons.prems(1) k by simp
  then have "fst ` set (subscriptions (leaveRoom t o1 None c)) \<subseteq> set ks"
    using Cons.prems(2) by (auto simp: leaveRoom_subscriptions)
  then show ?case using Cons k by simp
qed simp

text \<open>C28. A message never finds a known room without subscribers: in every state the client's
  events lead to, receiving a message or a room update does not throw.\<close>

theorem messages_never_throw:
  assumes "chat_reachable c"
  shows "handleMessageReceived ev c \<noteq> None"
proof -
  have k: "map_of (subscriptions c) i \<noteq> None" if "map_of (rooms c) u = Some i" for u i
    using chat_reachable_ok [OF assms] map_of_SomeD [OF that] by (auto simp: chat_ok_def map_of_eq_None_iff)
  then have "message_received m d c \<noteq> None" for m d
    using k by (fastforce simp: message_received_def split: option.split)
  then show ?thesis by (cases ev) simp_all
qed

text \<open>A user in two rooms, the second one announced by the server.\<close>

definition lobby :: chat_room where
  "lobby = \<lparr>rmType = ''WORKSPACE'', rmObject = ''w'', rmUuid = ''u1'', rmUsers = [''me'']\<rparr>"

definition two_rooms :: chat where
  "two_rooms = room_updated lobby (snd (joinRoom ''WORKSPACE'' ''w'' 1 True 0
     (snd (joinRoom ''NODE'' ''n'' 2 False 0 (socket_ready True (newChat ''r''))))))"

lemma two_rooms_reachable: "chat_reachable two_rooms"
proof -
  let ?a = "socket_ready True (newChat ''r'')"
  let ?b = "snd (joinRoom ''NODE'' ''n'' 2 False 0 ?a)"
  let ?c = "snd (joinRoom ''WORKSPACE'' ''w'' 1 True 0 ?b)"
  have "chat_reachable ?a" by (rule chat_reachable_step [OF chat_reachable_start chat_step.ready])
  then have "chat_reachable ?b" by (rule chat_reachable_step [OF _ chat_step.join])
  then have "chat_reachable ?c" by (rule chat_reachable_step [OF _ chat_step.join])
  moreover have "chat_step ?c two_rooms"
    by (rule chat_step.received [of "RoomUpdate lobby"]) (simp add: two_rooms_def)
  ultimately show ?thesis by (rule chat_reachable_step)
qed

lemma two_rooms_state:
  "rooms two_rooms = [(''u1'', ''WORKSPACE:w'')]" "hasSocket two_rooms" "\<not> connecting two_rooms"
  "obj_keys (subscriptions two_rooms) = [''NODE:n'', ''WORKSPACE:w'']"
  by code_simp+

theorem messages_never_throw_witness:
  "rooms two_rooms = [(''u1'', ''WORKSPACE:w'')] \<and>
     handleMessageReceived (Posted \<lparr>msgRoom = ''u1'', msgText = ''hello''\<rparr>) two_rooms \<noteq> None"
  using messages_never_throw [OF two_rooms_reachable] two_rooms_state(1) by blast

text \<open>C29. Joining a room while the connection is down reopens the socket, and opening starts with
  closing: every room joined before loses its subscriptions and is not joined again.\<close>

theorem join_while_down_forgets_rooms:
  assumes "hasSocket c" "\<not> connecting c" "\<not> connOpen c"
    "map_of (subscriptions c) (getIdentifier t o1) = None" "list_all plain_id (obj_keys (subscriptions c))"
  shows "subscriptions (snd (joinRoom t o1 h u n c)) = []"
  using assms leave_all [of "obj_keys (subscriptions c)" c]
  by (auto simp: joinRoom_def openChat_def closeChat_def Let_def list_all_iff)

lemma plain_idI: "k = a @ '':'' @ b \<Longrightarrow> CHR '':'' \<notin> set a \<Longrightarrow> CHR '':'' \<notin> set b \<Longrightarrow> plain_id k"
  unfolding plain_id_def getIdentifier_def by blast

lemma two_rooms_closed:
  "connOpen (socket_closed two_rooms) = False" "connecting (socket_closed two_rooms) = False"
  "hasSocket (socket_closed two_rooms)"
  "subscriptions (socket_closed two_rooms) = subscriptions two_rooms"
  "map_of (subscriptions two_rooms) (getIdentifier ''NODE'' ''m'') = None"
  by (simp_all add: socket_closed_def two_rooms_state) code_simp

theorem join_while_down_forgets_rooms_witness:
  "obj_keys (subscriptions (socket_closed two_rooms)) = [''NODE:n'', ''WORKSPACE:w''] \<and>
     subscriptions (snd (joinRoom ''NODE'' ''m'' 3 True 0 (socket_closed two_rooms))) = []"
proof -
  have "list_all plain_id (obj_keys (subscriptions (socket_closed two_rooms)))"
    using plain_idI [of "''NODE:n''" "''NODE''" "''n''"] plain_idI [of "''WORKSPACE:w''" "''WORKSPACE''" "''w''"]
    by (simp add: two_rooms_closed two_rooms_state)
  then show ?thesis
    using join_while_down_forgets_rooms [of "socket_closed two_rooms" "''NODE''" "''m''" 3 True 0]
    by (simp add: two_rooms_closed two_rooms_state)
qed

end
