(* ===== verification/FormManager.thy ===== *)
theory FormManager
  imports Json "HOL-Library.Char_ord" "HOL-Library.List_Lexorder"
begin

text \<open>
  \<open>Form/manager/Manager.js\<close>: the definitions of a form read from its XML parameters, the two
  notations of its values (nested objects, or keys with slashes) and the values posted.

  Form values are strings, numbers, booleans and objects; \<open>FNaN\<close> is what \<open>parseInt\<close> gives on
  anything else than a number, \<open>FUndef\<close> an attribute set to \<open>undefined\<close>. A throw is \<open>None\<close>: the
  sources are modules, hence strict, so writing a property of a string or number throws. Keys are
  not array indices, so objects keep the order in which their keys were added.
\<close>

section \<open>Values\<close>

datatype formval = FUndef | FStr string | FBool bool | FNum int | FNaN | FObj "(string \<times> formval) list"

fun truthy :: "formval \<Rightarrow> bool" where
  "truthy FUndef = False"
| "truthy (FStr s) = (s \<noteq> [])"
| "truthy (FBool b) = b"
| "truthy (FNum n) = (n \<noteq> 0)"
| "truthy FNaN = False"
| "truthy (FObj o1) = True"

text \<open>\<open>JSON.stringify\<close> leaves undefined properties out and writes \<open>NaN\<close> as null.\<close>

fun to_json :: "formval \<Rightarrow> json" where
  "to_json FUndef = JNull"
| "to_json (FStr s) = JStr s"
| "to_json (FBool b) = JBool b"
| "to_json (FNum n) = JNum n"
| "to_json FNaN = JNull"
| "to_json (FObj o1) = JObj (map (\<lambda>(k, v). (k, to_json v)) (filter (\<lambda>(k, v). v \<noteq> FUndef) o1))"

definition stringify :: "formval \<Rightarrow> string" where
  "stringify v = print_json (to_json v)"

section \<open>Definitions\<close>

record param_node =
  attributes :: "(string \<times> string) list"
  grandParentId :: "string option"           \<comment> \<open>the plugin's id, when the node has such an ancestor\<close>

definition translated :: "string \<Rightarrow> bool" where
  "translated attName \<longleftrightarrow> attName = ''label'' \<or> attName = ''description'' \<or> attName = ''group'' \<or>
     starts_with ''group_switch_'' attName"

definition read_attribute :: "(string \<Rightarrow> string option) \<Rightarrow> string \<times> string \<Rightarrow> (string, formval) obj \<Rightarrow> (string, formval) obj" where
  "read_attribute messageHash = (\<lambda>(attName, v) params.
     if attName = ''cdatavalue'' then params
     else obj_set attName (FStr (if translated attName
            then (case messageHash v of Some m \<Rightarrow> if m \<noteq> [] then m else v | None \<Rightarrow> v) else v)) params)"

text \<open>The text of a node is not its \<open>value\<close>: a parameter with \<open>cdatavalue\<close> gets \<open>undefined\<close>.\<close>

definition parse_field :: "(formval \<Rightarrow> formval) \<Rightarrow> string \<Rightarrow> (string, formval) obj \<Rightarrow> (string, formval) obj" where
  "parse_field f k params =
     (case map_of params k of None \<Rightarrow> params | Some FUndef \<Rightarrow> params | Some v \<Rightarrow> obj_set k (f v) params)"

definition parseInt :: "formval \<Rightarrow> formval" where
  "parseInt v = (case v of
     FStr s \<Rightarrow> (case parse_int s of Some n \<Rightarrow> FNum n | None \<Rightarrow> FNaN) | FNum n \<Rightarrow> FNum n | _ \<Rightarrow> FNaN)"

definition parameterNodeToHash :: "(string \<Rightarrow> string option) \<Rightarrow> param_node \<Rightarrow> (string, formval) obj" where
  "parameterNodeToHash messageHash n =
     (let p0 = (case grandParentId n of None \<Rightarrow> [] | Some i \<Rightarrow> [(''pluginId'', FStr i)]);
          p1 = fold (read_attribute messageHash) (attributes n) p0;
          p2 = (if ''cdatavalue'' \<in> fst ` set (attributes n) then obj_set ''value'' FUndef p1 else p1);
          ty = map_of p2 ''type''
      in if ty = Some (FStr ''boolean'') then
           parse_field (\<lambda>v. FBool (v = FStr ''true'')) ''default''
             (parse_field (\<lambda>v. FBool (v = FStr ''true'')) ''value'' p2)
         else if ty = Some (FStr ''integer'') \<or> ty = Some (FStr ''integer-bytes'') then
           parse_field parseInt ''default'' (parse_field parseInt ''value'' p2)
         else p2)"

section \<open>From slashes to objects\<close>

text \<open>One key: with a slash that is not its first character, it goes into the object of its first
  part; the keys whose object is to be treated in turn are collected.\<close>

definition has_inner_slash :: "string \<Rightarrow> bool" where
  "has_inner_slash k \<longleftrightarrow> CHR ''/'' \<in> set k \<and> hd k \<noteq> CHR ''/''"

definition split_key :: "string \<Rightarrow> string \<times> string" where
  "split_key k = (let parts = js_split CHR ''/'' k in (hd parts, js_join ''/'' (tl parts)))"

definition sub_object :: "formval option \<Rightarrow> (string, formval) obj option" where
  "sub_object r = (case r of
     None \<Rightarrow> Some []
   | Some (FObj o1) \<Rightarrow> Some o1
   | Some (FStr s) \<Rightarrow> Some (if s \<noteq> [] then [(''@value'', FStr s)] else [])
   | Some v \<Rightarrow> if truthy v then None else Some [])"

definition slash_step ::
    "string \<times> formval \<Rightarrow> ((string, formval) obj \<times> string list) option \<Rightarrow> ((string, formval) obj \<times> string list) option" where
  "slash_step = (\<lambda>(k, data) acc.
     case acc of None \<Rightarrow> None | Some (nv, again) \<Rightarrow>
     if has_inner_slash k then
       let (first, last) = split_key k
       in (case sub_object (map_of nv first) of
             None \<Rightarrow> None
           | Some o1 \<Rightarrow> Some (obj_set first (FObj (obj_set last data o1)) nv, if first \<in> set again then again else again @ [first]))
     else (case map_of nv k of
             Some (FObj o1) \<Rightarrow> Some (obj_set k (FObj (obj_set ''@value'' data o1)) nv, again)
           | _ \<Rightarrow> Some (obj_set k data nv, again)))"

definition slash_loop :: "(string, formval) obj \<Rightarrow> ((string, formval) obj \<times> string list) option" where
  "slash_loop values = fold slash_step values (Some ([], []))"

text \<open>The slashes in the keys of a value: each round takes one from a key that is treated again.\<close>

definition slashes :: "string \<Rightarrow> nat" where
  "slashes k = length (filter (\<lambda>c. c = CHR ''/'') k)"

fun key_slashes :: "formval \<Rightarrow> nat" where
  "key_slashes (FObj o1) = sum_list (map (\<lambda>(k, v). slashes k + key_slashes v) o1)"
| "key_slashes _ = 0"

definition obj_slashes :: "(string, formval) obj \<Rightarrow> nat" where
  "obj_slashes o1 = sum_list (map (\<lambda>(k, v). slashes k + key_slashes v) o1)"

lemma obj_slashes_simps [simp]:
  "obj_slashes [] = 0" "obj_slashes ((k, v) # o1) = slashes k + key_slashes v + obj_slashes o1"
  "key_slashes (FObj o1) = obj_slashes o1"
  by (simp_all add: obj_slashes_def)

declare key_slashes.simps(1) [simp del]

lemma obj_slashes_set: "obj_slashes (obj_set k v o1) \<le> obj_slashes o1 + slashes k + key_slashes v"
  by (induction o1) auto

lemma obj_slashes_replace:
  "map_of o1 k = Some w \<Longrightarrow> obj_slashes (obj_set k v o1) + key_slashes w = obj_slashes o1 + key_slashes v"
  by (induction o1) (auto split: if_splits)

lemma obj_slashes_member: "map_of o1 k = Some v \<Longrightarrow> key_slashes v \<le> obj_slashes o1"
  by (induction o1) (auto split: if_splits)

lemma slashes_append [simp]: "slashes (a @ b) = slashes a + slashes b"
  by (simp add: slashes_def)

lemma slashes_Cons [simp]: "slashes (c # s) = (if c = CHR ''/'' then Suc (slashes s) else slashes s)"
  by (simp add: slashes_def)

lemma slashes_Nil [simp]: "slashes [] = 0"
  by (simp add: slashes_def)

lemma slashes_zero: "CHR ''/'' \<notin> set k \<Longrightarrow> slashes k = 0"
  by (auto simp: slashes_def filter_empty_conv)

lemma split_key_parts:
  assumes "has_inner_slash k"
  shows "k = fst (split_key k) @ ''/'' @ snd (split_key k)" "CHR ''/'' \<notin> set (fst (split_key k))"
proof -
  obtain w ws where s: "js_split CHR ''/'' k = w # ws" by (cases "js_split CHR ''/'' k") auto
  have "ws \<noteq> []"
    using assms js_join_split [of "CHR ''/''" k] js_split_parts [of w "CHR ''/''" k] s
    by (auto simp: has_inner_slash_def)
  then show "k = fst (split_key k) @ ''/'' @ snd (split_key k)"
    using js_join_split [of "CHR ''/''" k] s by (simp add: split_key_def js_join_Cons)
  show "CHR ''/'' \<notin> set (fst (split_key k))"
    using js_split_parts [of w "CHR ''/''" k] s by (simp add: split_key_def)
qed

lemma sub_object_cases:
  "sub_object r = Some o1 \<Longrightarrow> r = Some (FObj o1) \<or> obj_slashes o1 = 0"
  by (auto simp: sub_object_def slashes_zero split: option.splits formval.splits if_splits)

definition pending :: "string list \<Rightarrow> nat" where
  "pending again = (if again = [] then 0 else 1)"

lemma slash_step_measure:
  assumes "slash_step (k, data) (Some (nv, again)) = Some (nv', again')"
  shows "obj_slashes nv' + pending again' \<le> obj_slashes nv + pending again + slashes k + key_slashes data"
proof (cases "has_inner_slash k")
  case True
  obtain first last where sp: "split_key k = (first, last)" by fastforce
  have k: "slashes k = Suc (slashes last)" "slashes first = 0"
    using split_key_parts [OF True] slashes_zero [of first] sp arg_cong [of k _ slashes] by auto
  obtain o1 where o1: "sub_object (map_of nv first) = Some o1" "nv' = obj_set first (FObj (obj_set last data o1)) nv"
    using assms True sp by (auto simp: slash_step_def split: option.splits)
  have le: "obj_slashes (obj_set last data o1) \<le> obj_slashes o1 + slashes last + key_slashes data"
    by (rule obj_slashes_set)
  from sub_object_cases [OF o1(1)] have "obj_slashes nv' \<le> obj_slashes nv + slashes last + key_slashes data"
  proof
    assume "map_of nv first = Some (FObj o1)"
    from obj_slashes_replace [OF this, of "FObj (obj_set last data o1)"] show ?thesis using le o1(2) by simp
  next
    assume "obj_slashes o1 = 0"
    then show ?thesis using obj_slashes_set [of first "FObj (obj_set last data o1)" nv] le k o1(2) by simp
  qed
  then show ?thesis using k by (simp add: pending_def)
next
  case False
  show ?thesis
  proof (cases "\<exists>o1. map_of nv k = Some (FObj o1)")
    case True
    then obtain o1 where o1: "map_of nv k = Some (FObj o1)" by blast
    have "nv' = obj_set k (FObj (obj_set ''@value'' data o1)) nv" "again' = again"
      using assms False o1 by (auto simp: slash_step_def)
    then show ?thesis
      using obj_slashes_replace [OF o1, of "FObj (obj_set ''@value'' data o1)"]
        obj_slashes_set [of "''@value''" data o1] by simp
  next
    case no: False
    then have "nv' = obj_set k data nv" "again' = again"
      using assms False by (auto simp: slash_step_def split: option.splits formval.splits)
    then show ?thesis using obj_slashes_set [of k data nv] by simp
  qed
qed

lemma slash_step_None [simp]: "slash_step x None = None"
  by (simp add: slash_step_def split: prod.split)

lemma slash_fold_None [simp]: "fold slash_step values None = None"
  by (induction "values") simp_all

lemma slash_fold_measure:
  "fold slash_step values (Some (nv, again)) = Some (nv', again') \<Longrightarrow>
     obj_slashes nv' + pending again' \<le> obj_slashes nv + pending again + obj_slashes values"
proof (induction "values" arbitrary: nv again)
  case (Cons x vs)
  obtain k data where x: "x = (k, data)" by fastforce
  show ?case
  proof (cases "slash_step x (Some (nv, again))")
    case (Some r)
    obtain nv1 again1 where r: "r = (nv1, again1)" by fastforce
    show ?thesis
      using slash_step_measure [of k data nv again nv1 again1] Cons.IH [of nv1 again1] Cons.prems Some r x by simp
  qed (use Cons.prems in simp)
qed simp

lemma slash_loop_less:
  assumes "slash_loop values = Some (nv, again)" "key \<in> set again" "map_of nv key = Some v"
  shows "key_slashes v < obj_slashes values"
  using slash_fold_measure [of "values" "[]" "[]" nv again] assms obj_slashes_member [OF assms(3)]
  by (auto simp: slash_loop_def pending_def split: if_splits)

text \<open>\<open>SlashesToJson\<close>: the loop, then the objects it filled. Anything but an object is returned.\<close>

function SlashesToJson :: "formval \<Rightarrow> formval option" where
  "SlashesToJson v =
     (case v of
        FObj values \<Rightarrow>
          (case slash_loop values of
             None \<Rightarrow> None
           | Some (nv, again) \<Rightarrow>
               let subs = map (\<lambda>key. (key, case map_of nv key of None \<Rightarrow> None | Some w \<Rightarrow> SlashesToJson w)) again
               in if None \<in> snd ` set subs then None
                  else Some (FObj (fold (\<lambda>(key, r). obj_set key (the r)) subs nv)))
      | _ \<Rightarrow> Some v)"
  by auto

termination
  by (relation "measure key_slashes") (auto simp: slash_loop_less)

declare SlashesToJson.simps [simp del]

section \<open>From objects to slashes\<close>

definition merge :: "(string, formval) obj \<Rightarrow> (string, formval) obj \<Rightarrow> (string, formval) obj" where
  "merge o1 o2 = fold (\<lambda>(k, v). obj_set k v) o2 o1"

definition at_value :: "string \<Rightarrow> (string \<times> formval) list \<Rightarrow> (string, formval) obj" where
  "at_value k o1 = (case map_of o1 ''@value'' of Some w \<Rightarrow> if truthy w then [(k, w)] else [] | None \<Rightarrow> [])"

fun to_slashes :: "string \<Rightarrow> (string \<times> formval) list \<Rightarrow> (string, formval) obj \<Rightarrow> (string, formval) obj" where
  "to_slashes prefix [] acc = acc"
| "to_slashes prefix ((k, v) # kvs) acc =
     to_slashes prefix kvs
       (case v of
          FObj o1 \<Rightarrow> merge (merge acc (to_slashes (prefix @ k @ ''/'') o1 [])) (at_value (prefix @ k) o1)
        | _ \<Rightarrow> obj_set (prefix @ k) v acc)"

definition JsonToSlashes :: "(string, formval) obj \<Rightarrow> string \<Rightarrow> (string, formval) obj" where
  "JsonToSlashes values prefix = to_slashes prefix values []"

text \<open>Without clashes between keys it is a plain traversal.\<close>

fun flat :: "string \<Rightarrow> (string \<times> formval) list \<Rightarrow> (string, formval) obj" where
  "flat prefix [] = []"
| "flat prefix ((k, v) # kvs) =
     (case v of FObj o1 \<Rightarrow> flat (prefix @ k @ ''/'') o1 @ at_value (prefix @ k) o1 | _ \<Rightarrow> [(prefix @ k, v)])
     @ flat prefix kvs"

text \<open>Objects the two notations agree on: distinct keys without slash, no empty object inside, and
  \<open>@value\<close> not an object.\<close>

fun is_obj :: "formval \<Rightarrow> bool" where
  "is_obj (FObj o1) = True"
| "is_obj _ = False"

lemma is_obj_iff: "is_obj v \<longleftrightarrow> (\<exists>o1. v = FObj o1)"
  by (cases v) simp_all

fun nice :: "formval \<Rightarrow> bool" where
  "nice (FObj o1) \<longleftrightarrow> distinct (map fst o1) \<and>
     list_all (\<lambda>(k, v). k \<noteq> [] \<and> CHR ''/'' \<notin> set k \<and> v \<noteq> FObj [] \<and> \<not> (k = ''@value'' \<and> is_obj v) \<and> nice v) o1"
| "nice _ = True"

lemma nice_Cons:
  "nice (FObj ((k, v) # kvs)) \<longleftrightarrow> k \<notin> fst ` set kvs \<and> k \<noteq> [] \<and> CHR ''/'' \<notin> set k \<and> v \<noteq> FObj [] \<and>
     \<not> (k = ''@value'' \<and> is_obj v) \<and> nice v \<and> nice (FObj kvs)"
  by auto

declare nice.simps(1) [simp del]

lemma nice_Nil [simp]: "nice (FObj [])"
  by (simp add: nice.simps)

lemma nice_member: "nice (FObj o1) \<Longrightarrow> (k, v) \<in> set o1 \<Longrightarrow> nice v"
  unfolding nice.simps(1) [of o1] list_all_iff by blast

lemma flat_prefix: "flat (p @ q) kvs = map (\<lambda>(k, v). (p @ k, v)) (flat q kvs)"
proof (induction q kvs rule: flat.induct)
  case (2 prefix k v kvs)
  then show ?case by (cases v) (auto simp: at_value_def split: option.split)
qed simp

lemma flat_shift: "flat p kvs = map (\<lambda>(k, v). (p @ k, v)) (flat [] kvs)"
  using flat_prefix [of p "[]" kvs] by simp

lemma in_flat_shift: "x \<in> set (flat p kvs) \<Longrightarrow> \<exists>q. fst x = p @ q"
  by (subst (asm) flat_shift) auto

lemma in_at_value: "x \<in> set (at_value k o1) \<Longrightarrow> fst x = k"
  by (auto simp: at_value_def split: option.splits if_splits)

abbreviation first_part :: "string \<Rightarrow> string" where
  "first_part \<equiv> takeWhile (\<lambda>c. c \<noteq> CHR ''/'')"

lemma first_part_append: "CHR ''/'' \<notin> set k \<Longrightarrow> first_part (k @ s) = k @ first_part s"
  by (induction k) auto

lemma first_part_slash: "CHR ''/'' \<notin> set k \<Longrightarrow> first_part ((k @ ''/'') @ q) = k"
  by (simp add: first_part_append)

lemma first_part_id: "CHR ''/'' \<notin> set k \<Longrightarrow> first_part k = k"
  by (induction k) auto

lemma flat_first: "nice (FObj kvs) \<Longrightarrow> x \<in> set (flat [] kvs) \<Longrightarrow> first_part (fst x) \<in> fst ` set kvs"
proof (induction kvs)
  case (Cons kv kvs)
  obtain k v where kv: "kv = (k, v)" by fastforce
  have k: "CHR ''/'' \<notin> set k" "nice (FObj kvs)" using Cons.prems(1) kv by (auto simp: nice_Cons)
  note tk = first_part_id [OF k(1)]
  show ?case
  proof (cases "x \<in> set (flat [] kvs)")
    case True
    then show ?thesis using Cons.IH k by auto
  next
    case False
    then have "fst x = k \<or> (\<exists>q. fst x = (k @ ''/'') @ q)"
    proof (cases v)
      case (FObj o1)
      then have "x \<in> set (flat (k @ ''/'') o1) \<or> x \<in> set (at_value k o1)"
        using False Cons.prems(2) kv by simp
      then show ?thesis by (metis in_flat_shift in_at_value)
    qed (use False Cons.prems(2) kv in simp_all)
    then have "first_part (fst x) = k"
    proof (elim disjE exE)
      assume "fst x = k"
      then show ?thesis by (simp only: tk)
    next
      fix q assume "fst x = (k @ ''/'') @ q"
      then show ?thesis by (simp only: first_part_slash [OF k(1)])
    qed
    then show ?thesis using kv by simp
  qed
qed simp

lemma flat_distinct: "nice (FObj kvs) \<Longrightarrow> distinct (map fst (flat [] kvs))"
proof (induction kvs rule: measure_induct_rule [of "\<lambda>kvs. size (FObj kvs)"])
  case (less kvs)
  show ?case
  proof (cases kvs)
    case (Cons kv rest)
    obtain k v where kv: "kv = (k, v)" by fastforce
    have n: "k \<notin> fst ` set rest" "CHR ''/'' \<notin> set k" "nice v" "nice (FObj rest)"
      using less.prems Cons kv by (auto simp: nice_Cons)
    have rest: "distinct (map fst (flat [] rest))" by (rule less.IH) (use Cons n in auto)
    note tk = first_part_id [OF n(2)]
    have out: "first_part (fst x) \<noteq> k" if "x \<in> set (flat [] rest)" for x
      using flat_first [OF n(4) that] n(1) by auto
    show ?thesis
    proof (cases v)
      case (FObj o1)
      have o1: "distinct (map fst (flat [] o1))"
        by (rule less.IH) (use Cons kv n FObj in auto)
      have "map fst (flat (k @ ''/'') o1) = map (\<lambda>q. k @ ''/'' @ q) (map fst (flat [] o1))"
        by (subst flat_shift) (simp add: case_prod_unfold)
      moreover have "distinct (map (\<lambda>q. k @ ''/'' @ q) (map fst (flat [] o1)))"
        using o1 by (simp only: distinct_map) (auto simp: inj_on_def)
      moreover have "k \<notin> fst ` set (flat (k @ ''/'') o1)" using in_flat_shift by fastforce
      ultimately have d: "distinct (map fst (flat (k @ ''/'') o1 @ at_value k o1))"
        using in_at_value [of _ k o1] by (auto simp: at_value_def split: option.split)
      have "first_part (fst x) = k" if "x \<in> set (flat (k @ ''/'') o1 @ at_value k o1)" for x
      proof (cases "x \<in> set (at_value k o1)")
        case True
        then show ?thesis using in_at_value tk by simp
      next
        case False
        with that have "x \<in> set (flat (k @ ''/'') o1)" by simp
        then obtain q where "fst x = (k @ ''/'') @ q" using in_flat_shift by blast
        then show ?thesis by (simp only: first_part_slash [OF n(2)])
      qed
      then have "fst ` set (flat (k @ ''/'') o1 @ at_value k o1) \<inter> fst ` set (flat [] rest) = {}"
        using out by fastforce
      then show ?thesis using rest Cons kv FObj d by (simp add: image_Un Int_Un_distrib Int_Un_distrib2)
    qed (use rest out tk Cons kv in force)+
  qed simp
qed

lemma merge_fresh:
  "distinct (map fst o2) \<Longrightarrow> fst ` set o1 \<inter> fst ` set o2 = {} \<Longrightarrow> merge o1 o2 = o1 @ o2"
proof (induction o2 arbitrary: o1)
  case (Cons x o2)
  obtain k v where x: "x = (k, v)" by fastforce
  have "obj_set k v o1 = o1 @ [(k, v)]" by (rule obj_set_fresh) (use Cons.prems x in auto)
  then have "merge o1 (x # o2) = merge (o1 @ [(k, v)]) o2" by (simp add: merge_def x)
  also have "\<dots> = (o1 @ [(k, v)]) @ o2" by (rule Cons.IH) (use Cons.prems x in auto)
  finally show ?case by (simp add: x)
qed (simp add: merge_def)

lemma flat_distinct_prefix:
  assumes "nice (FObj kvs)"
  shows "distinct (map fst (flat p kvs))"
proof -
  have "distinct (map (\<lambda>q. p @ q) (map fst (flat [] kvs)))"
    using flat_distinct [OF assms] by (simp only: distinct_map) (auto simp: inj_on_def)
  moreover have "map fst (flat p kvs) = map (\<lambda>q. p @ q) (map fst (flat [] kvs))"
    by (subst flat_shift) (simp add: case_prod_unfold)
  ultimately show ?thesis by simp
qed

lemma flat_parts_distinct:
  assumes "nice (FObj ((k, FObj o1) # kvs))"
  shows "distinct (map fst (flat p o1))" "distinct (map fst (at_value k' o1))"
    "fst ` set (flat (p @ k @ ''/'') o1) \<inter> fst ` set (at_value (p @ k) o1) = {}"
proof -
  show "distinct (map fst (flat p o1))" by (rule flat_distinct_prefix) (use assms in \<open>simp add: nice_Cons\<close>)
  show "distinct (map fst (at_value k' o1))" by (auto simp: at_value_def split: option.split)
  show "fst ` set (flat (p @ k @ ''/'') o1) \<inter> fst ` set (at_value (p @ k) o1) = {}"
    using in_flat_shift in_at_value by fastforce
qed

lemma to_slashes_flat:
  "nice (FObj kvs) \<Longrightarrow> fst ` set acc \<inter> fst ` set (flat p kvs) = {} \<Longrightarrow> to_slashes p kvs acc = acc @ flat p kvs"
proof (induction p kvs acc rule: to_slashes.induct)
  case (2 prefix k v kvs acc)
  have n: "nice v" "nice (FObj kvs)" using 2(3) by (simp_all add: nice_Cons)
  note d = flat_distinct_prefix [OF 2(3), of prefix]
  show ?case
  proof (cases v)
    case (FObj o1)
    note parts = flat_parts_distinct [OF 2(3) [unfolded FObj]]
    have sub: "to_slashes (prefix @ k @ ''/'') o1 [] = flat (prefix @ k @ ''/'') o1"
      using 2(1) [OF FObj] n FObj by simp
    have "merge acc (flat (prefix @ k @ ''/'') o1) = acc @ flat (prefix @ k @ ''/'') o1"
      by (rule merge_fresh [OF parts(1)]) (use 2(4) FObj in auto)
    moreover have "merge (acc @ flat (prefix @ k @ ''/'') o1) (at_value (prefix @ k) o1) =
        (acc @ flat (prefix @ k @ ''/'') o1) @ at_value (prefix @ k) o1"
      by (rule merge_fresh [OF parts(2)]) (use 2(4) FObj parts(3) [of prefix] in auto)
    ultimately show ?thesis
      using 2(2) [OF n(2)] 2(4) d FObj sub
      by (simp add: image_Un Int_Un_distrib Int_Un_distrib2)
  qed (use 2(2) [OF n(2)] 2(4) d in \<open>auto simp: obj_set_fresh\<close>)
qed simp

lemma JsonToSlashes_flat: "nice (FObj o1) \<Longrightarrow> JsonToSlashes o1 [] = flat [] o1"
  using to_slashes_flat [of o1 "[]" "[]"] by (simp add: JsonToSlashes_def)

section \<open>The round trip\<close>

text \<open>The loop of \<open>SlashesToJson\<close> on a flattened object: one entry per key, objects one level up.\<close>

definition level :: "string \<times> formval \<Rightarrow> string \<times> formval" where
  "level = (\<lambda>(k, v). (k, case v of FObj o1 \<Rightarrow> FObj (flat [] o1) | _ \<Rightarrow> v))"

definition object_keys :: "(string \<times> formval) list \<Rightarrow> string list" where
  "object_keys kvs = map fst (filter (\<lambda>(k, v). is_obj v) kvs)"

lemma split_key_append: "CHR ''/'' \<notin> set k \<Longrightarrow> split_key (k @ ''/'' @ q) = (k, q)"
  using js_split_append [of "CHR ''/''" k q] js_join_split [of "CHR ''/''" q] by (simp add: split_key_def)

lemma inner_slash_append: "k \<noteq> [] \<Longrightarrow> CHR ''/'' \<notin> set k \<Longrightarrow> has_inner_slash (k @ ''/'' @ q)"
  by (cases k) (auto simp: has_inner_slash_def)

lemma map_of_last: "k \<notin> fst ` set nv \<Longrightarrow> map_of (nv @ [(k, v)]) k = Some v"
  by (induction nv) auto

lemma obj_set_last: "k \<notin> fst ` set nv \<Longrightarrow> obj_set k v (nv @ [(k, w)]) = nv @ [(k, v)]"
  by (induction nv) auto

text \<open>The keys below one object, after the first of them.\<close>

lemma slash_fold_below:
  assumes k: "k \<noteq> []" "CHR ''/'' \<notin> set k" "k \<notin> fst ` set nv" "k \<in> set again"
  shows "distinct (map fst (o1 @ o2)) \<Longrightarrow>
    fold slash_step (map (\<lambda>(q, v). (k @ ''/'' @ q, v)) o2) (Some (nv @ [(k, FObj o1)], again)) =
      Some (nv @ [(k, FObj (o1 @ o2))], again)"
proof (induction o2 arbitrary: o1)
  case (Cons x o2)
  obtain q v where x: "x = (q, v)" by fastforce
  have "slash_step (k @ ''/'' @ q, v) (Some (nv @ [(k, FObj o1)], again)) =
      Some (nv @ [(k, FObj (o1 @ [(q, v)]))], again)"
    using k Cons.prems x inner_slash_append [OF k(1,2), of q] split_key_append [OF k(2), of q]
      map_of_last [OF k(3), of "FObj o1"]
    by (auto simp: slash_step_def sub_object_def obj_set_last obj_set_fresh simp del: map_of_append)
  then show ?case using Cons.IH [of "o1 @ [(q, v)]"] Cons.prems x by simp
qed simp

lemma slash_fold_object:
  assumes k: "k \<noteq> []" "CHR ''/'' \<notin> set k" "k \<notin> fst ` set nv" "k \<notin> set again"
    and o1: "o1 \<noteq> []" "distinct (map fst o1)"
  shows "fold slash_step (map (\<lambda>(q, v). (k @ ''/'' @ q, v)) o1) (Some (nv, again)) =
      Some (nv @ [(k, FObj o1)], again @ [k])"
proof -
  obtain q v o2 where x: "o1 = (q, v) # o2" using o1(1) by (cases o1) auto
  have "map_of nv k = None" using k(3) by (simp add: map_of_eq_None_iff)
  then have "slash_step (k @ ''/'' @ q, v) (Some (nv, again)) = Some (nv @ [(k, FObj [(q, v)])], again @ [k])"
    using k inner_slash_append [OF k(1,2), of q] split_key_append [OF k(2), of q]
    by (auto simp: slash_step_def sub_object_def obj_set_fresh)
  then show ?thesis
    using slash_fold_below [OF k(1-3), of "again @ [k]" "[(q, v)]" o2] o1(2) x by simp
qed

lemma flat_nonempty: "nice (FObj kvs) \<Longrightarrow> kvs \<noteq> [] \<Longrightarrow> flat p kvs \<noteq> []"
proof (induction p kvs rule: flat.induct)
  case (2 prefix k v kvs)
  show ?case
  proof (cases v)
    case (FObj o1)
    then have "flat (prefix @ k @ ''/'') o1 \<noteq> []" using 2 by (auto simp: nice_Cons)
    then show ?thesis using FObj by simp
  qed simp_all
qed simp

lemma flat_leaf: "(k, v) \<in> set kvs \<Longrightarrow> \<not> is_obj v \<Longrightarrow> (k, v) \<in> set (flat [] kvs)"
proof (induction kvs)
  case (Cons x kvs)
  then show ?case by (cases x; cases "snd x") auto
qed simp

lemma flat_at_value:
  assumes "nice (FObj o1)" "map_of o1 ''@value'' = Some w"
  shows "map_of (flat [] o1) ''@value'' = Some w"
proof -
  have m: "(''@value'', w) \<in> set o1" using assms(2) by (rule map_of_SomeD)
  then have "\<not> is_obj w" using assms(1) by (auto simp: nice.simps list_all_iff)
  then show ?thesis using flat_leaf [OF m] flat_distinct [OF assms(1)] by simp
qed

lemma object_keys_Cons:
  "object_keys ((k, v) # kvs) = (if is_obj v then [k] else []) @ object_keys kvs"
  by (simp add: object_keys_def)

lemma slash_step_leaf:
  "\<not> has_inner_slash k \<Longrightarrow> k \<notin> fst ` set nv \<Longrightarrow>
     slash_step (k, v) (Some (nv, again)) = Some (nv @ [(k, v)], again)"
  by (auto simp: slash_step_def obj_set_fresh map_of_eq_None_iff [THEN iffD2])

lemma slash_fold_level:
  "nice (FObj kvs) \<Longrightarrow> fst ` set kvs \<inter> (fst ` set nv \<union> set again) = {} \<Longrightarrow>
     fold slash_step (flat [] kvs) (Some (nv, again)) = Some (nv @ map level kvs, again @ object_keys kvs)"
proof (induction kvs arbitrary: nv again)
  case (Cons x kvs)
  obtain k v where x: "x = (k, v)" by fastforce
  have n: "k \<notin> fst ` set kvs" "k \<noteq> []" "CHR ''/'' \<notin> set k" "nice v" "nice (FObj kvs)" "v \<noteq> FObj []"
    using Cons.prems(1) x by (simp_all add: nice_Cons)
  have fresh: "k \<notin> fst ` set nv" "k \<notin> set again" using Cons.prems(2) x by auto
  have flatk: "\<not> has_inner_slash k" using n(3) by (simp add: has_inner_slash_def)
  have lv: "fst ` set (nv @ [level x]) = insert k (fst ` set nv)" by (auto simp: level_def x)
  show ?case
  proof (cases "is_obj v")
    case True
    then obtain o1 where FObj: "v = FObj o1" by (auto simp: is_obj_iff)
    let ?F = "flat [] o1"
    have o1: "nice (FObj o1)" "?F \<noteq> []" using n FObj flat_nonempty by auto
    have "fold slash_step (flat (k @ ''/'') o1) (Some (nv, again)) = Some (nv @ [(k, FObj ?F)], again @ [k])"
      using slash_fold_object [OF n(2,3) fresh o1(2) flat_distinct [OF o1(1)]]
      by (subst flat_shift) simp
    moreover have "fold slash_step (at_value k o1) (Some (nv @ [(k, FObj ?F)], again @ [k])) =
        Some (nv @ [(k, FObj ?F)], again @ [k])"
      using flatk map_of_last [OF fresh(1), of "FObj ?F"] flat_at_value [OF o1(1)]
      by (auto simp: at_value_def slash_step_def obj_set_last [OF fresh(1)] obj_set_same split: option.split
          simp del: map_of_append)
    moreover have "fold slash_step (flat [] kvs) (Some (nv @ [(k, FObj ?F)], again @ [k])) =
        Some ((nv @ [(k, FObj ?F)]) @ map level kvs, (again @ [k]) @ object_keys kvs)"
      by (rule Cons.IH) (use n Cons.prems(2) x in auto)
    ultimately show ?thesis using x FObj by (simp add: level_def object_keys_Cons)
  next
    case False
    then have "flat [] (x # kvs) = (k, v) # flat [] kvs" "level x = (k, v)" using x by (cases v; simp add: level_def)+
    then show ?thesis
      using Cons.IH [of "nv @ [level x]" again] Cons.prems(2) n fresh False x lv
      by (simp add: slash_step_leaf [OF flatk fresh(1)] object_keys_Cons)
  qed
qed (simp add: object_keys_def)

text \<open>Restoring the objects one key at a time.\<close>

lemma restore_objects:
  assumes "distinct (map fst kvs)" "set ks \<subseteq> set (object_keys kvs)"
  shows "fold (\<lambda>key. obj_set key (the (map_of kvs key))) ks (map (\<lambda>(k, v). if k \<in> don then (k, v) else level (k, v)) kvs) =
    map (\<lambda>(k, v). if k \<in> don \<union> set ks then (k, v) else level (k, v)) kvs"
  using assms(2)
proof (induction ks arbitrary: don)
  case (Cons key ks)
  have "key \<in> fst ` set kvs" using Cons.prems by (auto simp: object_keys_def)
  have "obj_set key (the (map_of kvs key)) (map (\<lambda>(k, v). if k \<in> don then (k, v) else level (k, v)) kvs) =
      map (\<lambda>(k, v). if k \<in> insert key don then (k, v) else level (k, v)) kvs"
    using assms(1) \<open>key \<in> fst ` set kvs\<close>
  proof (induction kvs)
    case (Cons x kvs)
    obtain k v where x: "x = (k, v)" by fastforce
    show ?case
    proof (cases "k = key")
      case True
      then have "map (\<lambda>(k, v). if k \<in> don then (k, v) else level (k, v)) kvs =
          map (\<lambda>(k, v). if k \<in> insert key don then (k, v) else level (k, v)) kvs"
        using Cons.prems x by (intro map_cong refl) (auto simp: image_iff)
      then show ?thesis using True x by (simp add: level_def)
    next
      case False
      then show ?thesis using Cons x by (auto simp: level_def)
    qed
  qed simp
  then show ?case using Cons.IH [of "insert key don"] Cons.prems by simp
qed simp

lemma slashes_roundtrip: "nice (FObj o1) \<Longrightarrow> SlashesToJson (FObj (flat [] o1)) = Some (FObj o1)"
proof (induction o1 rule: measure_induct_rule [of "\<lambda>o1. size (FObj o1)"])
  case (less o1)
  let ?ks = "object_keys o1"
  have loop: "slash_loop (flat [] o1) = Some (map level o1, ?ks)"
    using slash_fold_level [OF less.prems, of "[]" "[]"] by (simp add: slash_loop_def)
  have d: "distinct (map fst o1)" using less.prems by (simp add: nice.simps)
  have sub: "(case map_of (map level o1) key of None \<Rightarrow> None | Some w \<Rightarrow> SlashesToJson w) = Some (the (map_of o1 key))"
    if "key \<in> set ?ks" for key
  proof -
    note key = that
    obtain o2 where o2: "(key, FObj o2) \<in> set o1"
      using key by (auto simp: object_keys_def is_obj_iff)
    then have "(key, FObj (flat [] o2)) \<in> set (map level o1)" by (force simp: level_def)
    moreover have "distinct (map fst (map level o1))"
      using d by (simp add: level_def case_prod_unfold comp_def)
    ultimately have "map_of (map level o1) key = Some (FObj (flat [] o2))" by (rule map_of_is_SomeI [rotated])
    moreover have "map_of o1 key = Some (FObj o2)" using d o2 by (rule map_of_is_SomeI)
    moreover have "nice (FObj o2)" using nice_member [OF less.prems o2] .
    moreover have "size (FObj o2) < size (FObj o1)"
      using size_list_estimation [OF o2, of "size (FObj o2)" "size_prod (\<lambda>_. 0) size"] by simp
    ultimately show ?thesis using less.IH [of o2] by simp
  qed
  have subs: "map (\<lambda>key. (key, case map_of (map level o1) key of None \<Rightarrow> None | Some w \<Rightarrow> SlashesToJson w)) ?ks =
      map (\<lambda>key. (key, Some (the (map_of o1 key)))) ?ks"
    using sub by simp
  have "fold (\<lambda>(key, r). obj_set key (the r)) (map (\<lambda>key. (key, Some (the (map_of o1 key)))) ?ks) (map level o1) = o1"
  proof -
    have "fold (\<lambda>key. obj_set key (the (map_of o1 key))) ?ks (map level o1) =
        map (\<lambda>(k, v). if k \<in> set ?ks then (k, v) else level (k, v)) o1"
      using restore_objects [OF d subset_refl, of "{}"] by simp
    also have "\<dots> = o1"
    proof (rule map_idI)
      fix x assume x: "x \<in> set o1"
      obtain k v where kv: "x = (k, v)" by fastforce
      have "is_obj v \<Longrightarrow> k \<in> set ?ks" using x kv by (force simp: object_keys_def)
      then show "(case x of (k, v) \<Rightarrow> if k \<in> set ?ks then (k, v) else level (k, v)) = x"
        using kv by (cases v) (auto simp: level_def)
    qed
    finally show ?thesis by (simp add: fold_map comp_def)
  qed
  moreover have "None \<notin> snd ` set (map (\<lambda>key. (key, Some (the (map_of o1 key)))) ?ks)" by auto
  ultimately show ?case
    by (subst SlashesToJson.simps) (simp only: formval.case loop option.case prod.case subs Let_def if_False)
qed

section \<open>The values posted\<close>

record field_def =
  fdName :: string
  fdType :: string                \<comment> \<open>empty when there is none\<close>
  fdSwitch :: string              \<comment> \<open>\<open>group_switch_name\<close>\<close>

definition type_of_first :: "(field_def \<Rightarrow> bool) \<Rightarrow> field_def list \<Rightarrow> string" where
  "type_of_first P ds = (case find P ds of None \<Rightarrow> [] | Some d \<Rightarrow> fdType d)"

text \<open>The type of a key: that of its name, else of the field of its group, given by its last two parts.\<close>

definition def_type :: "field_def list \<Rightarrow> string \<Rightarrow> string" where
  "def_type ds key =
     (let ty = type_of_first (\<lambda>d. fdName d = key) ds;
          parts = js_split CHR ''/'' key
      in if ty \<noteq> [] then ty
         else if length parts > 1 then
           type_of_first (\<lambda>d. fdName d = last parts \<and> fdSwitch d \<noteq> [] \<and> fdSwitch d = last (butlast parts)) ds
         else ty)"

definition post_value ::
    "field_def list \<Rightarrow> string \<Rightarrow> (string, (string, formval) obj) obj \<Rightarrow> string \<times> formval \<Rightarrow> (string, formval) obj \<Rightarrow> (string, formval) obj" where
  "post_value ds prefix metadata = (\<lambda>(key, v) params.
     let p1 = obj_set (prefix @ key) v params;
         ty = def_type ds key;
         p2 = (if ty \<noteq> [] then
                 obj_set (prefix @ key @ ''_ajxptype'') (FStr (if ty = ''image'' then ''binary'' else ty)) p1
               else p1)
     in (case map_of metadata key of
           None \<Rightarrow> p2
         | Some ms \<Rightarrow> fold (\<lambda>(meta, w). obj_set (prefix @ key @ ''_'' @ meta) w) ms p2))"

definition ends_with :: "string \<Rightarrow> string \<Rightarrow> bool" where
  "ends_with p s \<longleftrightarrow> length p \<le> length s \<and> drop (length s - length p) s = p"

definition text_of :: "formval option \<Rightarrow> string" where
  "text_of v = (case v of Some (FStr s) \<Rightarrow> s | _ \<Rightarrow> [])"

definition is_switch :: "string \<Rightarrow> bool" where
  "is_switch ty \<longleftrightarrow> starts_with ''group_switch:'' ty"

text \<open>The value at the end of a path; a value that is there already (an object, from the deeper
  keys treated before) only receives the switch.\<close>

definition typed_value :: "string \<Rightarrow> formval \<Rightarrow> formval" where
  "typed_value ty v =
     (if ty = ''boolean'' then FBool (v = FStr ''true'' \<or> v = FNum 1 \<or> v = FBool True)
      else if ty = ''integer'' \<or> ty = ''integer-bytes'' then parseInt v
      else if is_switch ty \<and> (\<exists>s. v = FStr s) then FObj [(''group_switch_value'', v)]
      else v)"

definition leaf_value :: "string \<Rightarrow> formval \<Rightarrow> formval option \<Rightarrow> formval option" where
  "leaf_value ty v old =
     (case old of
        Some w \<Rightarrow>
          if \<not> truthy w then Some (typed_value ty v)
          else if is_switch ty then
            (case w of FObj o1 \<Rightarrow> Some (FObj (obj_set ''group_switch_value'' v o1)) | _ \<Rightarrow> None)
          else Some w
      | None \<Rightarrow> Some (typed_value ty v))"

fun place :: "(formval option \<Rightarrow> formval option) \<Rightarrow> string list \<Rightarrow> (string, formval) obj \<Rightarrow> (string, formval) obj option" where
  "place f [] t = Some t"
| "place f [p] t = map_option (\<lambda>w. obj_set p w t) (f (map_of t p))"
| "place f (p # q # ps) t =
     (case map_of t p of
        Some (FObj o1) \<Rightarrow> map_option (\<lambda>o2. obj_set p (FObj o2) t) (place f (q # ps) o1)
      | Some w \<Rightarrow> if truthy w then None
                  else map_option (\<lambda>o2. obj_set p (FObj o2) t) (place f (q # ps) [])
      | None \<Rightarrow> map_option (\<lambda>o2. obj_set p (FObj o2) t) (place f (q # ps) []))"

text \<open>The keys with slashes, the deeper ones first, move into a tree. A value the loop no longer
  finds (it was the type of a key treated before) is \<open>undefined\<close>.\<close>

definition move_key ::
    "string \<Rightarrow> ((string, formval) obj \<times> (string, formval) obj) option \<Rightarrow> ((string, formval) obj \<times> (string, formval) obj) option" where
  "move_key key acc =
     (case acc of None \<Rightarrow> None | Some (params, tree) \<Rightarrow>
      if CHR ''/'' \<notin> set key \<or> ends_with ''_ajxptype'' key then acc
      else
        let ty = text_of (map_of params (key @ ''_ajxptype''));
            v = (case map_of params key of None \<Rightarrow> FUndef | Some v \<Rightarrow> v);
            p1 = obj_del (key @ ''_ajxptype'') params
        in map_option (\<lambda>t. (obj_del key p1, t)) (place (leaf_value ty v) (js_split CHR ''/'' key) tree))"

definition store_tree :: "string \<times> formval \<Rightarrow> (string, formval) obj \<Rightarrow> (string, formval) obj" where
  "store_tree = (\<lambda>(key, w) params.
     let o1 = (case w of FObj o1 \<Rightarrow> o1 | _ \<Rightarrow> []);
         switch = is_switch (text_of (map_of params (key @ ''_ajxptype'')));
         set = (case map_of o1 ''group_switch_value'' of None \<Rightarrow> False | Some x \<Rightarrow> truthy x);
         v = (case map_of params key of None \<Rightarrow> FUndef | Some v \<Rightarrow> v);
         o2 = (if switch \<and> \<not> set then obj_set ''group_switch_value'' v o1 else o1)
     in obj_set (key @ ''_ajxptype'') (FStr ''text/json'') (obj_set key (FStr (stringify (FObj o2))) params))"

definition clean_switch :: "string \<Rightarrow> (string, formval) obj \<Rightarrow> (string, formval) obj" where
  "clean_switch key params =
     (case map_of params key of
        None \<Rightarrow> params
      | Some v \<Rightarrow>
          let p1 = (case v of
                      FStr s \<Rightarrow>
                        if CHR ''/'' \<notin> set key \<and> s \<noteq> [] \<and> is_switch (text_of (map_of params (key @ ''_ajxptype''))) then
                          obj_set (key @ ''_ajxptype'') (FStr ''text/json'')
                            (obj_set key (FStr (stringify (FObj [(''group_switch_value'', v)]))) params)
                        else params
                    | _ \<Rightarrow> params)
          in if ends_with ''_group_switch'' key then obj_del key p1 else p1)"

definition getValuesForPOST ::
    "field_def list \<Rightarrow> (string, formval) obj \<Rightarrow> string \<Rightarrow> (string, (string, formval) obj) obj \<Rightarrow> (string, formval) obj option" where
  "getValuesForPOST ds values prefix metadata =
     (let params = fold (post_value ds prefix metadata) values [];
          moved = fold move_key (rev (sort (obj_keys params))) (Some (params, []))
      in case moved of
           None \<Rightarrow> None
         | Some (p1, tree) \<Rightarrow>
             let p2 = fold store_tree tree p1
             in Some (fold clean_switch (obj_keys p2) p2))"

end
