(* ===== verification/FormProperties.thy ===== *)
theory FormProperties
  imports FormManager
begin

text \<open>The properties of the form values.\<close>

text \<open>C30. A nested object written with slashes and read back is itself, for every object without empty
  objects inside whose keys are distinct and have no slash; a value \<open>@value\<close> beside other keys, which
  is written at the object's own key too, is among them.\<close>

theorem slash_notation_roundtrip:
  assumes "nice (FObj o1)"
  shows "SlashesToJson (FObj (JsonToSlashes o1 [])) = Some (FObj o1)"
  using slashes_roundtrip [OF assms] JsonToSlashes_flat [OF assms] by simp

definition mail_form :: "(string, formval) obj" where
  "mail_form =
     [(''MAILER'', FObj [(''@value'', FStr ''smtp''), (''host'', FStr ''localhost''), (''auth'', FObj [(''user'', FBool True)])]),
      (''retries'', FNum 3)]"

theorem slash_notation_roundtrip_witness:
  "map fst (JsonToSlashes mail_form []) =
     [''MAILER/@value'', ''MAILER/host'', ''MAILER/auth/user'', ''MAILER'', ''retries''] \<and>
   SlashesToJson (FObj (JsonToSlashes mail_form [])) = Some (FObj mail_form)"
proof
  show "map fst (JsonToSlashes mail_form []) =
     [''MAILER/@value'', ''MAILER/host'', ''MAILER/auth/user'', ''MAILER'', ''retries'']" by code_simp
  have "nice (FObj mail_form)" by code_simp
  then show "SlashesToJson (FObj (JsonToSlashes mail_form [])) = Some (FObj mail_form)"
    by (rule slash_notation_roundtrip)
qed

end
