(* ===== verification/MigrationTree.thy ===== *)
theory MigrationTree
  imports Paths
begin

text \<open>
  \<open>action.migration/res/js/workspaces/PathTree.js\<close>: the paths of the workspaces to migrate arranged
  into a tree, and the roots found in it: the data sources to create, and for each workspace its
  template path with the data source it is under.

  The separator is one character. A workspace is its index in the list of paths. An optional field
  is a property the code sets on some of the roots only.
\<close>

section \<open>The tree\<close>

datatype branch = Branch (bname: string) (bchildren: "branch list") (bworkspaces: "nat list")

definition absolute :: "char \<Rightarrow> string \<Rightarrow> string" where
  "absolute sep p = (if p \<noteq> [] \<and> hd p = sep then p else sep # p)"

fun insert_parts :: "nat \<Rightarrow> string list \<Rightarrow> branch list \<Rightarrow> branch list" where
  "insert_parts i [] level = level"
| "insert_parts i (p # ps) [] = [Branch p (insert_parts i ps []) (if ps = [] then [i] else [])]"
| "insert_parts i (p # ps) (b # bs) =
     (if bname b = p then
        Branch p (insert_parts i ps (bchildren b)) (bworkspaces b @ (if ps = [] then [i] else [])) # bs
      else b # insert_parts i (p # ps) bs)"

definition arrangeIntoTree :: "char \<Rightarrow> string list \<Rightarrow> branch list" where
  "arrangeIntoTree sep paths =
     foldl (\<lambda>tree (i, path). insert_parts i (tl (js_split sep path)) tree) [] (enumerate 0 paths)"

section \<open>The roots\<close>

record tree_root =
  rDs :: "string option"
  rTemplate :: "string option"
  rParentDs :: "string option"
  rWs :: "nat option"

record tree_link =
  lnkLeft :: nat
  lnkRight :: nat
  lnkColor :: string
  lnkType :: string
  lnkWeak :: bool

definition ds_root :: "string \<Rightarrow> tree_root" where
  "ds_root d = \<lparr>rDs = Some d, rTemplate = None, rParentDs = None, rWs = None\<rparr>"

definition ws_root :: "string \<Rightarrow> string option \<Rightarrow> nat \<Rightarrow> tree_root" where
  "ws_root t d i = \<lparr>rDs = None, rTemplate = Some t, rParentDs = d, rWs = Some i\<rparr>"

definition path_name :: "char \<Rightarrow> string list \<Rightarrow> string" where
  "path_name sep parts =
     (let p = js_join [sep] parts in if starts_with ''AJXP_'' p then p else sep # p)"

text \<open>A branch opens a data source when it forks, or when it is a leaf under none; below a user's
  directory it is the parent directory. \<open>parents.join('/')\<close> does not use the separator, and does not
  put the leading one back.\<close>

definition opens_root :: "nat option \<Rightarrow> branch list \<Rightarrow> bool" where
  "opens_root hasParentRoot cs \<longleftrightarrow> length cs > 1 \<or> (hasParentRoot = None \<and> cs = [])"

definition new_root :: "char \<Rightarrow> string list \<Rightarrow> tree_root" where
  "new_root sep parts =
     (let p = path_name sep parts in
      if contains_sub ''AJXP_USER'' p then ds_root (js_join ''/'' (butlast parts)) else ds_root p)"

definition root_workspace ::
    "string \<Rightarrow> nat \<Rightarrow> nat \<Rightarrow> tree_root list \<times> tree_link list \<Rightarrow> tree_root list \<times> tree_link list" where
  "root_workspace pathName r i = (\<lambda>(roots, links).
     let t = ws_root pathName (rDs (roots ! r)) i in
     if contains_sub ''AJXP_USER'' pathName then
       (roots @ [t],
        links @ [\<lparr>lnkLeft = i, lnkRight = r, lnkColor = ''#e0e0e0'', lnkType = ''ds'', lnkWeak = True\<rparr>,
                 \<lparr>lnkLeft = i, lnkRight = length roots, lnkColor = ''#1565c0'', lnkType = ''tp'', lnkWeak = False\<rparr>])
     else
       (roots @ [t],
        links @ [\<lparr>lnkLeft = i, lnkRight = r, lnkColor = ''#78909c'', lnkType = ''ds'', lnkWeak = False\<rparr>]))"

fun flattenTree ::
    "char \<Rightarrow> branch list \<Rightarrow> string list \<Rightarrow> nat option \<Rightarrow> tree_root list \<times> tree_link list \<Rightarrow>
     tree_root list \<times> tree_link list" where
  "flattenTree sep [] parentPath hasParentRoot acc = acc"
| "flattenTree sep (Branch nm cs ws # bs) parentPath hasParentRoot acc =
     (let parts = parentPath @ [nm];
          opened = opens_root hasParentRoot cs;
          branchHasRoot = (if opened then Some (length (fst acc)) else hasParentRoot);
          acc1 = (if opened then (fst acc @ [new_root sep parts], snd acc) else acc);
          acc2 = (case branchHasRoot of
                    None \<Rightarrow> acc1
                  | Some r \<Rightarrow> fold (root_workspace (path_name sep parts) r) ws acc1)
      in flattenTree sep bs parentPath hasParentRoot
           (flattenTree sep cs parts branchHasRoot acc2))"

text \<open>\<open>flatten\<close>: every branch, each before its children.\<close>

fun flatten_branches :: "branch list \<Rightarrow> branch list" where
  "flatten_branches [] = []"
| "flatten_branches (Branch nm cs ws # bs) = Branch nm cs ws # flatten_branches cs @ flatten_branches bs"

record path_tree =
  paths :: "string list"
  newRoots :: "tree_root list"
  treeLinks :: "tree_link list"

definition newPathTree :: "string list \<Rightarrow> char \<Rightarrow> path_tree" where
  "newPathTree ps sep =
     (let paths1 = map (absolute sep) ps;
          (roots, links) = flattenTree sep (arrangeIntoTree sep paths1) [] None ([], [])
      in \<lparr>paths = paths1, newRoots = roots, treeLinks = links\<rparr>)"

definition getNewRoots :: "(tree_root \<Rightarrow> bool) \<Rightarrow> path_tree \<Rightarrow> tree_root list" where
  "getNewRoots f t = filter f (newRoots t)"

text \<open>A root without data source is compared as the text \<open>undefined\<close>.\<close>

definition ds_text :: "tree_root \<Rightarrow> string" where
  "ds_text r = (case rDs r of Some d \<Rightarrow> d | None \<Rightarrow> ''undefined'')"

definition getTreeLinks :: "(tree_root \<Rightarrow> bool) \<Rightarrow> path_tree \<Rightarrow> tree_link list" where
  "getTreeLinks f t =
     concat (map (\<lambda>(rootIdx, r).
       map (\<lambda>(i, p). \<lparr>lnkLeft = i, lnkRight = rootIdx, lnkColor = ''#e0e0e0'', lnkType = ''ds'', lnkWeak = False\<rparr>)
         (filter (\<lambda>(i, p). starts_with (ds_text r) p \<or> starts_with (ds_text r) (drop 1 p)) (enumerate 0 (paths t))))
       (enumerate 0 (filter f (newRoots t))))"

section \<open>Every path is in the tree\<close>

fun under_path :: "string list \<Rightarrow> branch list \<Rightarrow> nat set" where
  "under_path [] bs = {}"
| "under_path (p # ps) [] = {}"
| "under_path (p # ps) (b # bs) =
     (if bname b = p then (if ps = [] then set (bworkspaces b) else under_path ps (bchildren b))
      else under_path (p # ps) bs)"

lemma under_path_Nil [simp]: "under_path qs [] = {}"
  by (cases qs) simp_all

lemma under_insert:
  "under_path qs (insert_parts i ps bs) = under_path qs bs \<union> (if qs = ps \<and> ps \<noteq> [] then {i} else {})"
proof (induction i ps bs arbitrary: qs rule: insert_parts.induct)
  case (1 i level)
  then show ?case by simp
next
  case (2 i p ps)
  show ?case
  proof (cases qs)
    case (Cons q qs')
    then show ?thesis using 2 [of qs'] by (cases "p = q"; cases "ps = []"; cases "qs' = []") simp_all
  qed simp
next
  case (3 i p ps b bs)
  show ?case
  proof (cases qs)
    case (Cons q qs')
    show ?thesis
    proof (cases "bname b = p")
      case True
      then show ?thesis using 3(1) [OF True, of qs'] Cons by (cases "qs' = []"; cases "ps = []") auto
    next
      case False
      then show ?thesis using 3(2) [OF False, of qs] Cons by (cases "bname b = q") simp_all
    qed
  qed simp
qed

text \<open>The tree is a refinement of the list of paths: a workspace is at its path and nowhere else.\<close>

lemma under_arrange:
  "under_path qs (arrangeIntoTree sep ps) = {i. i < length ps \<and> qs \<noteq> [] \<and> qs = tl (js_split sep (ps ! i))}"
proof -
  have "under_path qs (foldl (\<lambda>tree (i, path). insert_parts i (tl (js_split sep path)) tree) t (enumerate n ps)) =
      under_path qs t \<union> {n + i |i. i < length ps \<and> qs \<noteq> [] \<and> qs = tl (js_split sep (ps ! i))}" for t n
  proof (induction ps arbitrary: t n)
    case (Cons p ps)
    have "{n + i |i. i < length (p # ps) \<and> qs \<noteq> [] \<and> qs = tl (js_split sep ((p # ps) ! i))} =
        (if qs \<noteq> [] \<and> qs = tl (js_split sep p) then {n} else {}) \<union>
        {Suc n + i |i. i < length ps \<and> qs \<noteq> [] \<and> qs = tl (js_split sep (ps ! i))}"
      (is "?L = ?R")
    proof (intro set_eqI iffI)
      fix x assume "x \<in> ?L"
      then obtain i where i: "x = n + i" "i < length (p # ps)" "qs \<noteq> []" "qs = tl (js_split sep ((p # ps) ! i))"
        by blast
      then show "x \<in> ?R" by (cases i) auto
    next
      fix x assume "x \<in> ?R"
      then show "x \<in> ?L" by (force split: if_splits intro: exI [of _ 0] exI [of _ "Suc _"])
    qed
    then show ?case using Cons [of "insert_parts n (tl (js_split sep p)) t" "Suc n"]
      by (auto simp: under_insert split: if_splits)
  qed simp
  from this [of "[]" 0] show ?thesis by (simp add: arrangeIntoTree_def)
qed

section \<open>Which workspaces have a root\<close>

fun rooted :: "bool \<Rightarrow> branch list \<Rightarrow> nat set" where
  "rooted h [] = {}"
| "rooted h (Branch nm cs ws # bs) =
     (let r = h \<or> length cs \<noteq> 1 in (if r then set ws else {}) \<union> rooted r cs \<union> rooted h bs)"

definition root_workspaces :: "tree_root list \<Rightarrow> nat set" where
  "root_workspaces roots = {i. \<exists>r \<in> set roots. rWs r = Some i}"

lemma root_workspaces_append [simp]: "root_workspaces (xs @ ys) = root_workspaces xs \<union> root_workspaces ys"
  by (auto simp: root_workspaces_def)

lemma root_workspaces_single [simp]:
  "root_workspaces [r] = (case rWs r of None \<Rightarrow> {} | Some i \<Rightarrow> {i})"
  by (auto simp: root_workspaces_def split: option.split)

lemma new_root_ws [simp]: "rWs (new_root sep parts) = None" "rWs (ws_root t d i) = Some i"
  by (simp_all add: new_root_def ds_root_def ws_root_def Let_def)

lemma fold_root_workspace:
  "\<exists>more. fst (fold (root_workspace pn r) ws acc) = fst acc @ more \<and> root_workspaces more = set ws"
proof (induction ws arbitrary: acc)
  case (Cons i ws)
  obtain roots links where acc: "acc = (roots, links)" by fastforce
  obtain t where t: "fst (root_workspace pn r i acc) = roots @ [t]" "rWs t = Some i"
    by (auto simp: root_workspace_def acc Let_def)
  obtain more where "fst (fold (root_workspace pn r) ws (root_workspace pn r i acc)) = (roots @ [t]) @ more"
    "root_workspaces more = set ws" using Cons [of "root_workspace pn r i acc"] t(1) by auto
  then show ?case using t(2) acc by (intro exI [of _ "t # more"]) (auto simp: root_workspaces_def)
qed (simp add: root_workspaces_def)

lemma flattenTree_rooted:
  "\<exists>more. fst (flattenTree sep bs pp h acc) = fst acc @ more \<and> root_workspaces more = rooted (h \<noteq> None) bs"
proof (induction sep bs pp h acc rule: flattenTree.induct)
  case (2 sep nm cs ws bs pp h acc)
  let ?parts = "pp @ [nm]"
  define opened where "opened = opens_root h cs"
  define h1 where "h1 = (if opened then Some (length (fst acc)) else h)"
  define acc1 where "acc1 = (if opened then (fst acc @ [new_root sep ?parts], snd acc) else acc)"
  define acc2 where "acc2 = (case h1 of None \<Rightarrow> acc1 | Some r \<Rightarrow> fold (root_workspace (path_name sep ?parts) r) ws acc1)"
  have r: "(h1 \<noteq> None) = (h \<noteq> None \<or> length cs \<noteq> 1)"
    by (cases cs) (auto simp: h1_def opened_def opens_root_def)
  have "\<exists>m1. fst acc1 = fst acc @ m1 \<and> root_workspaces m1 = {}"
    by (cases opened) (simp_all add: acc1_def root_workspaces_def)
  then obtain m1 where m1: "fst acc1 = fst acc @ m1" "root_workspaces m1 = {}" by blast
  obtain m2 where m2: "fst acc2 = fst acc1 @ m2" "root_workspaces m2 = (if h1 \<noteq> None then set ws else {})"
  proof (cases h1)
    case None
    then show ?thesis using that [of "[]"] by (simp add: acc2_def root_workspaces_def)
  next
    case (Some r)
    then show ?thesis using fold_root_workspace [of "path_name sep ?parts" r ws acc1] that by (auto simp: acc2_def)
  qed
  note IH = 2 [OF refl opened_def h1_def acc1_def acc2_def]
  obtain m3 where m3: "fst (flattenTree sep cs ?parts h1 acc2) = fst acc2 @ m3" "root_workspaces m3 = rooted (h1 \<noteq> None) cs"
    using IH(1) by auto
  obtain m4 where m4: "fst (flattenTree sep bs pp h (flattenTree sep cs ?parts h1 acc2)) =
      fst (flattenTree sep cs ?parts h1 acc2) @ m4" "root_workspaces m4 = rooted (h \<noteq> None) bs"
    using IH(2) by auto
  have e: "flattenTree sep (Branch nm cs ws # bs) pp h acc =
      flattenTree sep bs pp h (flattenTree sep cs ?parts h1 acc2)"
    by (simp only: flattenTree.simps Let_def opened_def h1_def acc1_def acc2_def)
  have "fst (flattenTree sep (Branch nm cs ws # bs) pp h acc) = fst acc @ (m1 @ m2 @ m3 @ m4)"
    unfolding e m4(1) m3(1) m2(1) m1(1) by simp
  moreover have "root_workspaces (m1 @ m2 @ m3 @ m4) = rooted (h \<noteq> None) (Branch nm cs ws # bs)"
    unfolding rooted.simps Let_def r [symmetric] root_workspaces_append m1(2) m2(2) m3(2) m4(2)
    by (simp add: Un_assoc)
  ultimately show ?case by blast
qed (simp add: root_workspaces_def)

text \<open>The names that follow a path.\<close>

fun kids :: "string list \<Rightarrow> branch list \<Rightarrow> branch list" where
  "kids [] bs = bs"
| "kids (p # ps) [] = []"
| "kids (p # ps) (b # bs) = (if bname b = p then kids ps (bchildren b) else kids (p # ps) bs)"

fun clean_branches :: "branch list \<Rightarrow> bool" where
  "clean_branches [] = True"
| "clean_branches (Branch nm cs ws # bs) \<longleftrightarrow> nm \<notin> bname ` set bs \<and> clean_branches cs \<and> clean_branches bs"

lemma kids_Nil [simp]: "kids qs [] = []"
  by (cases qs) simp_all

lemma insert_names: "bname ` set (insert_parts i ps bs) = bname ` set bs \<union> (if ps = [] then {} else {hd ps})"
  by (induction i ps bs rule: insert_parts.induct) auto

lemma clean_insert: "clean_branches bs \<Longrightarrow> clean_branches (insert_parts i ps bs)"
proof (induction i ps bs rule: insert_parts.induct)
  case (3 i p ps b bs)
  then show ?case by (cases b) (auto simp: insert_names [of i "p # ps" bs, simplified])
qed simp_all

lemma clean_arrange: "clean_branches (arrangeIntoTree sep ps)"
proof -
  have "clean_branches t \<Longrightarrow> clean_branches (foldl (\<lambda>tree (i, path). insert_parts i (tl (js_split sep path)) tree) t xs)" for t xs
    by (induction xs arbitrary: t) (auto simp: clean_insert)
  then show ?thesis by (simp add: arrangeIntoTree_def)
qed

lemma clean_kids: "clean_branches bs \<Longrightarrow> clean_branches (kids qs bs)"
proof (induction qs bs rule: kids.induct)
  case (3 p ps b bs)
  then show ?case by (cases b) auto
qed simp_all

lemma clean_distinct: "clean_branches bs \<Longrightarrow> distinct (map bname bs)"
  by (induction bs rule: clean_branches.induct) auto

lemma kids_insert:
  "bname ` set (kids qs (insert_parts i ps bs)) = bname ` set (kids qs bs) \<union> {c. \<exists>rest. ps = qs @ c # rest}"
proof (induction i ps bs arbitrary: qs rule: insert_parts.induct)
  case (1 i level)
  then show ?case by simp
next
  case (2 i p ps)
  show ?case
  proof (cases qs)
    case (Cons q qs')
    then show ?thesis using 2 [of qs'] by (cases "p = q") auto
  qed simp
next
  case (3 i p ps b bs)
  show ?case
  proof (cases qs)
    case Nil
    then show ?thesis using insert_names [of i "p # ps" "b # bs"] by auto
  next
    case (Cons q qs')
    show ?thesis
    proof (cases "bname b = p")
      case True
      then show ?thesis using 3(1) [OF True, of qs'] Cons by (cases "p = q") simp_all
    next
      case False
      then show ?thesis using 3(2) [OF False, of qs] Cons by (cases "bname b = q") auto
    qed
  qed
qed

lemma kids_arrange:
  "bname ` set (kids qs (arrangeIntoTree sep ps)) = {c. \<exists>p \<in> set ps. \<exists>rest. tl (js_split sep p) = qs @ c # rest}"
proof -
  have "bname ` set (kids qs (foldl (\<lambda>tree (i, path). insert_parts i (tl (js_split sep path)) tree) t (enumerate n ps))) =
      bname ` set (kids qs t) \<union> {c. \<exists>p \<in> set ps. \<exists>rest. tl (js_split sep p) = qs @ c # rest}" for t n
    by (induction ps arbitrary: t n) (auto simp: kids_insert)
  then show ?thesis by (simp add: arrangeIntoTree_def)
qed

fun forks :: "string list \<Rightarrow> branch list \<Rightarrow> bool" where
  "forks [] bs = False"
| "forks (p # ps) bs \<longleftrightarrow> length (kids [p] bs) \<noteq> 1 \<or> forks ps (kids [p] bs)"

lemma kids_append: "kids (q @ r) bs = kids r (kids q bs)"
  by (induction q bs rule: kids.induct) simp_all

lemma forks_iff: "forks qs bs \<longleftrightarrow> (\<exists>q r. qs = q @ r \<and> q \<noteq> [] \<and> length (kids q bs) \<noteq> 1)"
proof (induction qs bs rule: forks.induct)
  case (2 p ps bs)
  define K where "K = kids [p] bs"
  have k: "kids (p # q) bs = kids q K" for q
    using kids_append [of "[p]" q bs] unfolding K_def by (simp only: append_Cons append_Nil)
  have "(\<exists>q r. p # ps = q @ r \<and> q \<noteq> [] \<and> length (kids q bs) \<noteq> 1) \<longleftrightarrow>
      (\<exists>q r. ps = q @ r \<and> length (kids q K) \<noteq> 1)"
  proof
    assume "\<exists>q r. p # ps = q @ r \<and> q \<noteq> [] \<and> length (kids q bs) \<noteq> 1"
    then obtain q r where q: "p # ps = q @ r" "q \<noteq> []" "length (kids q bs) \<noteq> 1" by blast
    obtain c q' where c: "q = c # q'" using q(2) by (meson neq_Nil_conv)
    with q(1) have e: "q = p # q'" "ps = q' @ r" by simp_all
    then have "length (kids q' K) \<noteq> 1" using q(3) unfolding e(1) k by blast
    then show "\<exists>q r. ps = q @ r \<and> length (kids q K) \<noteq> 1" using e(2) by blast
  next
    assume "\<exists>q r. ps = q @ r \<and> length (kids q K) \<noteq> 1"
    then obtain q r where "ps = q @ r" "length (kids q K) \<noteq> 1" by blast
    then have "p # ps = (p # q) @ r" "length (kids (p # q) bs) \<noteq> 1" unfolding k by auto
    then show "\<exists>q r. p # ps = q @ r \<and> q \<noteq> [] \<and> length (kids q bs) \<noteq> 1" by blast
  qed
  also have "\<dots> \<longleftrightarrow> length K \<noteq> 1 \<or> (\<exists>q r. ps = q @ r \<and> q \<noteq> [] \<and> length (kids q K) \<noteq> 1)"
    by (metis append_Nil kids.simps(1))
  finally show ?case using 2 [folded K_def] by (simp add: K_def [symmetric] del: kids.simps)
qed simp

lemma under_absent: "p \<notin> bname ` set bs \<Longrightarrow> under_path (p # ps) bs = {}"
  by (induction bs) auto

lemma rooted_at:
  "clean_branches bs \<Longrightarrow> i \<in> rooted h bs \<longleftrightarrow> (\<exists>qs. i \<in> under_path qs bs \<and> (h \<or> forks qs bs))"
proof (induction h bs rule: rooted.induct)
  case (2 h nm cs ws bs)
  let ?b = "Branch nm cs ws"
  define r where "r \<longleftrightarrow> h \<or> length cs \<noteq> 1"
  have cl: "nm \<notin> bname ` set bs" "clean_branches cs" "clean_branches bs" using 2(3) by auto
  have below: "(\<exists>ps. i \<in> under_path (nm # ps) (?b # bs) \<and> (h \<or> forks (nm # ps) (?b # bs)))
      \<longleftrightarrow> (i \<in> set ws \<and> r) \<or> i \<in> rooted r cs" (is "?below \<longleftrightarrow> _")
  proof -
    have u: "i \<in> under_path (nm # ps) (?b # bs) \<longleftrightarrow> (ps = [] \<and> i \<in> set ws) \<or> i \<in> under_path ps cs" for ps
      by (cases ps) simp_all
    have "(h \<or> forks (nm # ps) (?b # bs)) \<longleftrightarrow> r \<or> forks ps cs" for ps by (auto simp: r_def)
    then have "?below \<longleftrightarrow> (i \<in> set ws \<and> r) \<or> (\<exists>ps. i \<in> under_path ps cs \<and> (r \<or> forks ps cs))"
      unfolding u by (metis forks.simps(1))
    then show ?thesis using 2(1) [OF r_def cl(2)] by simp
  qed
  have "(\<exists>p ps. p \<noteq> nm \<and> i \<in> under_path (p # ps) (?b # bs) \<and> (h \<or> forks (p # ps) (?b # bs)))
      \<longleftrightarrow> i \<in> rooted h bs" (is "?beside \<longleftrightarrow> _")
  proof -
    have "?beside \<longleftrightarrow> (\<exists>p ps. p \<noteq> nm \<and> i \<in> under_path (p # ps) bs \<and> (h \<or> forks (p # ps) bs))" by auto
    also have "\<dots> \<longleftrightarrow> (\<exists>qs. i \<in> under_path qs bs \<and> (h \<or> forks qs bs))"
      by (metis under_absent [OF cl(1)] under_path.simps(1) empty_iff neq_Nil_conv)
    finally show ?thesis using 2(2) [OF r_def cl(3)] by simp
  qed
  then have "i \<in> rooted h (?b # bs) \<longleftrightarrow> ?below \<or> ?beside"
    unfolding below by (auto simp: r_def Let_def)
  also have "\<dots> \<longleftrightarrow> (\<exists>qs. i \<in> under_path qs (?b # bs) \<and> (h \<or> forks qs (?b # bs)))"
    by (metis under_path.simps(1) empty_iff neq_Nil_conv)
  finally show ?case .
qed simp

text \<open>A workspace has a root when some part of its path, possibly all of it, is not followed by exactly
  one name in the paths.\<close>

definition followers :: "string list list \<Rightarrow> string list \<Rightarrow> string set" where
  "followers pss q = {c. \<exists>ps \<in> set pss. \<exists>rest. ps = q @ c # rest}"

lemma kids_followers:
  "length (kids q (arrangeIntoTree sep ps)) = card (followers (map (\<lambda>p. tl (js_split sep p)) ps) q)"
proof -
  let ?k = "kids q (arrangeIntoTree sep ps)"
  have "distinct (map bname ?k)" by (rule clean_distinct [OF clean_kids [OF clean_arrange]])
  then have "length ?k = card (bname ` set ?k)" using distinct_card [of "map bname ?k"] by simp
  then show ?thesis by (simp add: kids_arrange followers_def)
qed

lemma roots_of_paths:
  "root_workspaces (newRoots (newPathTree ps sep)) =
     {i. i < length ps \<and> (let pss = map (\<lambda>p. tl (js_split sep (absolute sep p))) ps in
        \<exists>q r. pss ! i = q @ r \<and> q \<noteq> [] \<and> card (followers pss q) \<noteq> 1)}"
proof -
  let ?paths = "map (absolute sep) ps"
  let ?tree = "arrangeIntoTree sep ?paths"
  obtain roots links where f: "flattenTree sep ?tree [] None ([], []) = (roots, links)" by fastforce
  have "newRoots (newPathTree ps sep) = roots" by (simp add: newPathTree_def Let_def f)
  moreover have "root_workspaces roots = rooted False ?tree"
    using flattenTree_rooted [of sep ?tree "[]" None "([], [])", unfolded f] by auto
  ultimately have "root_workspaces (newRoots (newPathTree ps sep)) = rooted False ?tree" by simp
  also have "rooted False ?tree = {i. i < length ps \<and> forks (tl (js_split sep (?paths ! i))) ?tree}"
    by (intro set_eqI) (simp add: rooted_at [OF clean_arrange], auto simp: under_arrange)
  also have "\<dots> = {i. i < length ps \<and> (\<exists>q r. tl (js_split sep (?paths ! i)) = q @ r \<and> q \<noteq> [] \<and>
      card (followers (map (\<lambda>p. tl (js_split sep p)) ?paths) q) \<noteq> 1)}"
    unfolding forks_iff kids_followers ..
  finally have r: "root_workspaces (newRoots (newPathTree ps sep)) = \<dots>" .
  show ?thesis unfolding r by (intro Collect_cong conj_cong refl) (simp add: comp_def Let_def)
qed

section \<open>The template and the data source of a workspace\<close>

lemma starts_with_extend:
  assumes "c \<notin> set w"
  shows "starts_with w (a @ c # b) \<longleftrightarrow> starts_with w a"
proof
  assume "starts_with w (a @ c # b)"
  then obtain t where t: "a @ c # b = w @ t" by (auto simp: starts_with_iff)
  then have "(\<exists>u. a = w @ u) \<or> (\<exists>u. w = a @ u \<and> c # b = u @ t)" by (auto simp: append_eq_append_conv2)
  then show "starts_with w a"
    using assms by (auto simp: starts_with_iff Cons_eq_append_conv)
qed (auto simp: starts_with_iff)

lemma path_name_extends:
  assumes "q \<noteq> []" "sep \<notin> set ''AJXP_''"
  shows "\<exists>t. path_name sep (q @ s) = path_name sep q @ t"
proof (cases "s = []")
  case False
  then show ?thesis
    using js_join_append [OF assms(1) False, of "[sep]"] starts_with_extend [OF assms(2), of "js_join [sep] q"]
    by (simp add: path_name_def Let_def)
qed simp

definition user_part :: "string \<Rightarrow> bool" where
  "user_part p \<longleftrightarrow> contains_sub ''AJXP_USER'' p"

definition source_above :: "char \<Rightarrow> string list \<Rightarrow> nat option \<Rightarrow> tree_root list \<Rightarrow> bool" where
  "source_above sep pp h roots \<longleftrightarrow> (\<forall>k. h = Some k \<longrightarrow> k < length roots \<and>
     (\<exists>q s d. pp = q @ s \<and> q \<noteq> [] \<and> rDs (roots ! k) = Some d \<and> (d = path_name sep q \<or> user_part (path_name sep q))))"

definition good_root :: "char \<Rightarrow> string list \<Rightarrow> branch list \<Rightarrow> tree_root \<Rightarrow> bool" where
  "good_root sep pp bs r \<longleftrightarrow> (\<forall>i. rWs r = Some i \<longrightarrow>
     (\<exists>qs d. i \<in> under_path qs bs \<and> rTemplate r = Some (path_name sep (pp @ qs)) \<and> rParentDs r = Some d \<and>
       (user_part (path_name sep (pp @ qs)) \<or> starts_with d (path_name sep (pp @ qs)))))"

lemma source_above_append:
  assumes "source_above sep pp h roots"
  shows "source_above sep (pp @ s) h (roots @ xs)"
  unfolding source_above_def
proof (intro allI impI)
  fix k assume "h = Some k"
  then obtain q t d where "k < length roots" "pp = q @ t" "q \<noteq> []" "rDs (roots ! k) = Some d"
    "d = path_name sep q \<or> user_part (path_name sep q)"
    using assms unfolding source_above_def by blast
  then show "k < length (roots @ xs) \<and> (\<exists>q t d. pp @ s = q @ t \<and> q \<noteq> [] \<and> rDs ((roots @ xs) ! k) = Some d \<and>
      (d = path_name sep q \<or> user_part (path_name sep q)))"
    by (auto simp: nth_append)
qed

lemma source_above_starts:
  assumes "source_above sep pp (Some k) roots" "sep \<notin> set ''AJXP_''"
  shows "\<exists>d. rDs (roots ! k) = Some d \<and> (user_part (path_name sep pp) \<or> starts_with d (path_name sep pp))"
proof -
  obtain q s d where d: "pp = q @ s" "q \<noteq> []" "rDs (roots ! k) = Some d"
    "d = path_name sep q \<or> user_part (path_name sep q)"
    using assms(1) unfolding source_above_def by blast
  obtain t where "path_name sep pp = path_name sep q @ t" using path_name_extends [OF d(2) assms(2)] d(1) by blast
  then show ?thesis using d(3,4) contains_sub_append by (auto simp: starts_with_iff user_part_def)
qed

lemma new_root_above:
  "source_above sep (pp @ [nm]) (Some (length roots)) (roots @ [new_root sep (pp @ [nm])])"
proof -
  have "\<exists>d. rDs (new_root sep (pp @ [nm])) = Some d \<and>
      (d = path_name sep (pp @ [nm]) \<or> user_part (path_name sep (pp @ [nm])))"
    by (simp add: new_root_def ds_root_def user_part_def Let_def)
  then obtain d where d: "rDs (new_root sep (pp @ [nm])) = Some d"
    "d = path_name sep (pp @ [nm]) \<or> user_part (path_name sep (pp @ [nm]))" by blast
  have "pp @ [nm] = (pp @ [nm]) @ [] \<and> pp @ [nm] \<noteq> []" by simp
  then show ?thesis unfolding source_above_def using d by (metis length_append_singleton lessI nth_append_length option.inject)
qed

lemma fold_root_good:
  assumes above: "source_above sep pp (Some r) (fst acc)" and sep: "sep \<notin> set ''AJXP_''"
  shows "\<exists>ts. fst (fold (root_workspace (path_name sep pp) r) ws acc) = fst acc @ ts \<and>
    (\<forall>t \<in> set ts. \<exists>i \<in> set ws. \<exists>d. rWs t = Some i \<and> rTemplate t = Some (path_name sep pp) \<and> rParentDs t = Some d \<and>
       (user_part (path_name sep pp) \<or> starts_with d (path_name sep pp)))"
  using above
proof (induction ws arbitrary: acc)
  case (Cons i ws)
  obtain roots links where acc: "acc = (roots, links)" by fastforce
  obtain d where d: "rDs (roots ! r) = Some d" "user_part (path_name sep pp) \<or> starts_with d (path_name sep pp)"
    using source_above_starts [OF Cons.prems sep] acc by auto
  define t where "t = ws_root (path_name sep pp) (Some d) i"
  have t: "fst (root_workspace (path_name sep pp) r i acc) = roots @ [t]"
    by (auto simp: root_workspace_def acc Let_def t_def d(1))
  have "source_above sep pp (Some r) (fst (root_workspace (path_name sep pp) r i acc))"
    using source_above_append [OF Cons.prems, of "[]" "[t]"] acc t by simp
  from Cons.IH [OF this] obtain ts where ts:
    "fst (fold (root_workspace (path_name sep pp) r) ws (root_workspace (path_name sep pp) r i acc)) = (roots @ [t]) @ ts"
    "\<forall>u \<in> set ts. \<exists>i \<in> set ws. \<exists>d. rWs u = Some i \<and> rTemplate u = Some (path_name sep pp) \<and> rParentDs u = Some d \<and>
       (user_part (path_name sep pp) \<or> starts_with d (path_name sep pp))"
    using t by auto
  then show ?case using d(2) acc by (intro exI [of _ "t # ts"]) (auto simp: t_def ws_root_def)
qed simp

lemma good_root_child:
  assumes "good_root sep (pp @ [nm]) cs r" "rWs r = Some i"
  shows "good_root sep pp (Branch nm cs ws # bs) r"
proof -
  obtain qs d where q: "i \<in> under_path qs cs" "rTemplate r = Some (path_name sep ((pp @ [nm]) @ qs))" "rParentDs r = Some d"
    "user_part (path_name sep ((pp @ [nm]) @ qs)) \<or> starts_with d (path_name sep ((pp @ [nm]) @ qs))"
    using assms unfolding good_root_def by blast
  then have "i \<in> under_path (nm # qs) (Branch nm cs ws # bs)" by (cases qs) auto
  then show ?thesis
    unfolding good_root_def using q assms(2) by (auto intro!: exI [of _ "nm # qs"])
qed

lemma good_root_sibling:
  assumes "good_root sep pp bs r" "nm \<notin> bname ` set bs"
  shows "good_root sep pp (Branch nm cs ws # bs) r"
proof -
  have "i \<in> under_path qs (Branch nm cs ws # bs)" if "i \<in> under_path qs bs" for i qs
    using that under_absent [OF assms(2)] by (cases qs) auto
  then show ?thesis using assms(1) unfolding good_root_def by blast
qed

lemma root_workspaces_good:
  assumes "\<And>k. h = Some k \<Longrightarrow> source_above sep (pp @ [nm]) (Some k) (fst acc)" "sep \<notin> set ''AJXP_''"
  shows "\<exists>ts. fst (case h of None \<Rightarrow> acc | Some r \<Rightarrow> fold (root_workspace (path_name sep (pp @ [nm])) r) ws acc) = fst acc @ ts \<and>
    (\<forall>r \<in> set ts. good_root sep pp (Branch nm cs ws # bs) r)"
proof (cases h)
  case (Some k)
  let ?parts = "pp @ [nm]"
  obtain ts where ts: "fst (fold (root_workspace (path_name sep ?parts) k) ws acc) = fst acc @ ts"
    "\<forall>t \<in> set ts. \<exists>i \<in> set ws. \<exists>d. rWs t = Some i \<and> rTemplate t = Some (path_name sep ?parts) \<and> rParentDs t = Some d \<and>
     (user_part (path_name sep ?parts) \<or> starts_with d (path_name sep ?parts))"
    using fold_root_good [OF assms(1) [OF Some] assms(2), of ws] by blast
  have "\<forall>r \<in> set ts. good_root sep pp (Branch nm cs ws # bs) r"
    using ts(2) unfolding good_root_def by (fastforce intro!: exI [of _ "[nm]"])
  then show ?thesis using ts(1) Some by auto
qed simp

lemma good_root_branch:
  assumes "rWs r = None \<or> good_root sep pp (Branch nm cs ws # bs) r \<or> good_root sep (pp @ [nm]) cs r \<or> good_root sep pp bs r"
    and "nm \<notin> bname ` set bs"
  shows "good_root sep pp (Branch nm cs ws # bs) r"
proof (cases "rWs r")
  case None
  then show ?thesis by (simp add: good_root_def)
next
  case (Some i)
  then show ?thesis using assms good_root_child good_root_sibling by auto
qed

lemma flattenTree_good:
  "clean_branches bs \<Longrightarrow> source_above sep pp h (fst acc) \<Longrightarrow> sep \<notin> set ''AJXP_'' \<Longrightarrow>
     \<exists>ts. fst (flattenTree sep bs pp h acc) = fst acc @ ts \<and> (\<forall>r \<in> set ts. good_root sep pp bs r)"
proof (induction sep bs pp h acc rule: flattenTree.induct)
  case (2 sep nm cs ws bs pp h acc)
  let ?parts = "pp @ [nm]" and ?b = "Branch nm cs ws"
  define opened where "opened = opens_root h cs"
  define h1 where "h1 = (if opened then Some (length (fst acc)) else h)"
  define acc1 where "acc1 = (if opened then (fst acc @ [new_root sep ?parts], snd acc) else acc)"
  define acc2 where "acc2 = (case h1 of None \<Rightarrow> acc1 | Some r \<Rightarrow> fold (root_workspace (path_name sep ?parts) r) ws acc1)"
  have cl: "nm \<notin> bname ` set bs" "clean_branches cs" "clean_branches bs" using 2(3) by auto
  have a1: "source_above sep ?parts h1 (fst acc1)"
    using source_above_append [OF 2(4), of "[nm]" "[]"] new_root_above [of sep pp nm "fst acc"]
    by (simp add: h1_def acc1_def)
  obtain m1 where m1: "fst acc1 = fst acc @ m1" "\<forall>r \<in> set m1. rWs r = None"
    by (cases opened) (simp_all add: acc1_def)
  obtain m2 where m2: "fst acc2 = fst acc1 @ m2" "\<forall>r \<in> set m2. good_root sep pp (?b # bs) r"
    using root_workspaces_good [of h1 sep pp nm acc1 ws cs bs] a1 2(5) unfolding acc2_def by auto
  have a2: "source_above sep ?parts h1 (fst acc2)"
    using source_above_append [OF a1, of "[]" m2] m2(1) by simp
  note IH = 2(1,2) [OF refl opened_def h1_def acc1_def acc2_def]
  let ?mid = "flattenTree sep cs ?parts h1 acc2"
  obtain m3 where m3: "fst ?mid = fst acc2 @ m3" "\<forall>r \<in> set m3. good_root sep ?parts cs r"
    using IH(1) [OF cl(2) a2 2(5)] by blast
  have "source_above sep pp h (fst ?mid)"
    using source_above_append [OF 2(4), of "[]" "m1 @ m2 @ m3"] m1 m2 m3 by simp
  then obtain m4 where m4: "fst (flattenTree sep bs pp h ?mid) = fst ?mid @ m4" "\<forall>r \<in> set m4. good_root sep pp bs r"
    using IH(2) [OF cl(3) _ 2(5)] by blast
  have e: "flattenTree sep (?b # bs) pp h acc = flattenTree sep bs pp h ?mid"
    by (simp only: flattenTree.simps Let_def opened_def h1_def acc1_def acc2_def)
  have "fst (flattenTree sep (?b # bs) pp h acc) = fst acc @ (m1 @ m2 @ m3 @ m4)"
    unfolding e m4(1) m3(1) m2(1) m1(1) by simp
  moreover have "good_root sep pp (?b # bs) r" if "r \<in> set (m1 @ m2 @ m3 @ m4)" for r
    by (rule good_root_branch [OF _ cl(1)]) (use that m1(2) m2(2) m3(2) m4(2) in auto)
  ultimately show ?case by blast
qed simp

text \<open>A workspace's template is its path, and its data source is the beginning of it.\<close>

lemma root_of_workspace:
  assumes "r \<in> set (newRoots (newPathTree ps sep))" "rWs r = Some i" "sep \<notin> set ''AJXP_''"
  shows "i < length ps \<and> (let t = path_name sep (tl (js_split sep (absolute sep (ps ! i)))) in
    rTemplate r = Some t \<and> (\<exists>d. rParentDs r = Some d \<and> (user_part t \<or> starts_with d t)))"
proof -
  let ?tree = "arrangeIntoTree sep (map (absolute sep) ps)"
  obtain roots links where f: "flattenTree sep ?tree [] None ([], []) = (roots, links)" by fastforce
  have r: "r \<in> set roots" using assms(1) by (simp add: newPathTree_def Let_def f)
  have "source_above sep [] None (fst ([], []))" by (simp add: source_above_def)
  from flattenTree_good [OF clean_arrange this assms(3)] have "good_root sep [] ?tree r"
    using r f by auto
  then show ?thesis
    using assms(2) unfolding good_root_def by (auto simp: under_arrange Let_def)
qed

end
