(* ===== verification/Migration.thy ===== *)
theory Migration
  imports MigrationTree
begin

text \<open>
  The migration of workspaces (\<open>action.migration/res/js/workspaces\<close>): \<open>Mapper.js\<close>, which pairs the
  workspaces of the old server with data sources and template paths, \<open>Loader.js\<close>, which gathers
  them and their metadata fields, and the paths they are known by.

  Workspaces, sources and templates are compared by reference in the code, by value here; their
  identifiers are distinct. A throw is \<open>None\<close>. \<open>base64\<close> (\<open>HasherUtils\<close>) is a parameter.
\<close>

section \<open>Data\<close>

record old_workspace =
  owId :: string
  owDisplay :: string
  owSlug :: string
  owAccess :: string
  owParams :: "(string, string) obj"
  owFeatures :: "(string, (string, string) obj) obj"

record source =
  sName :: string
  sType :: "string option"
  sFolder :: "string option"
  sEndpoint :: "string option"
  sKeys :: "string \<times> string"
  sBucket :: string
  sBaseFolder :: string

record template =
  tpPath :: string
  tpResolution :: string

text \<open>A parameter that is absent or empty is falsy; joining an absent one gives nothing.\<close>

definition param :: "string \<Rightarrow> (string, string) obj \<Rightarrow> string" where
  "param k ps = (case map_of ps k of Some v \<Rightarrow> v | None \<Rightarrow> [])"

definition storage_path :: "(string \<Rightarrow> string) \<Rightarrow> string \<Rightarrow> string \<times> string \<Rightarrow> string \<Rightarrow> string \<Rightarrow> string" where
  "storage_path base64 endpoint keys bucket folder =
     js_join ''/'' ([if endpoint \<noteq> [] then ''custom:'' @ base64 endpoint else ''s3'', fst keys, snd keys, bucket]
       @ (if folder \<noteq> [] then js_split CHR ''/'' (trim folder CHR ''/'') else []))"

text \<open>\<open>Pydio8Workspaces.extractPath\<close> and \<open>Ws2Datasources.extractPath\<close>.\<close>

definition extractPath :: "(string \<Rightarrow> string) \<Rightarrow> old_workspace \<Rightarrow> string option" where
  "extractPath base64 w =
     (let ps = owParams w in
      if owAccess w = ''fs'' then map_of ps ''PATH''
      else Some (storage_path base64 (param ''STORAGE_URL'' ps) (param ''API_KEY'' ps, param ''SECRET_KEY'' ps)
             (param ''CONTAINER'' ps) (param ''PATH'' ps)))"

definition source_path :: "(string \<Rightarrow> string) \<Rightarrow> source \<Rightarrow> string option" where
  "source_path base64 s =
     (if sType s = Some ''S3'' then
        Some (storage_path base64 (case sEndpoint s of Some e \<Rightarrow> e | None \<Rightarrow> []) (sKeys s) (sBucket s) (sBaseFolder s))
      else sFolder s)"

section \<open>The loader\<close>

text \<open>The answers for each workspace: a failure is caught and becomes \<open>undefined\<close>, which the filter
  against \<open>null\<close> lets through; an answer without identifier becomes \<open>null\<close>.\<close>

datatype 'a answer = Got 'a | NoId | Failed

definition loadWorkspaces :: "'a answer list \<Rightarrow> 'a option list" where
  "loadWorkspaces answers =
     map (\<lambda>a. case a of Got w \<Rightarrow> Some w | _ \<Rightarrow> None) (filter (\<lambda>a. a \<noteq> NoId) answers)"

record user_meta =
  umName :: string
  umLabel :: string
  umType :: string
  umAdditional :: "string option"
  umWs :: string                \<comment> \<open>the workspace's identifier\<close>
  umNamespace :: string         \<comment> \<open>set on factorized metadata only\<close>

record meta_state =
  metas :: "user_meta list"
  factorized :: "user_meta list"
  metaLinks :: "(nat \<times> nat) list"

fun first_index :: "('a \<Rightarrow> bool) \<Rightarrow> 'a list \<Rightarrow> nat option" where
  "first_index P [] = None"
| "first_index P (x # xs) = (if P x then Some 0 else map_option Suc (first_index P xs))"

definition same_meta :: "user_meta \<Rightarrow> user_meta \<Rightarrow> bool" where
  "same_meta new m \<longleftrightarrow> umType m = umType new \<and> umWs m \<noteq> umWs new \<and>
     (umType new \<noteq> ''choice'' \<or> umAdditional new = umAdditional m)"

definition add_meta :: "user_meta \<Rightarrow> meta_state \<Rightarrow> meta_state" where
  "add_meta new st =
     (let ms = metas st @ [new];
          (fs, right) = (case first_index (same_meta new) (factorized st) of
             Some r \<Rightarrow> (factorized st, r)
           | None \<Rightarrow> (factorized st @ [new\<lparr>umNamespace := ''usermeta-'' @ computeStringSlug (umName new)\<rparr>],
                      length (factorized st)))
      in \<lparr>metas = ms, factorized = fs, metaLinks = metaLinks st @ [(length ms - 1, right)]\<rparr>)"

text \<open>The fields \<open>meta_fields\<close>, \<open>meta_fields_1\<close>, ... up to the first missing one: with the number of
  keys as fuel the loop ends by itself.\<close>

fun parse_fields :: "nat \<Rightarrow> nat \<Rightarrow> string \<Rightarrow> (string, string) obj \<Rightarrow> meta_state \<Rightarrow> meta_state option" where
  "parse_fields 0 i ws meta st = None"
| "parse_fields (Suc n) i ws meta st =
     (let suffix = (if i = 0 then [] else ''_'' @ nat_str i) in
      if param (''meta_fields'' @ suffix) meta = [] then Some st
      else
        let ty = (if param (''meta_types'' @ suffix) meta \<noteq> [] then param (''meta_types'' @ suffix) meta else ''string'');
            lab = param (''meta_labels'' @ suffix) meta;
            new = \<lparr>umName = param (''meta_fields'' @ suffix) meta, umLabel = lab, umType = ty,
                   umAdditional = map_of meta (''meta_additional'' @ suffix), umWs = ws, umNamespace = []\<rparr>
        in parse_fields n (Suc i) ws meta
             (if lab \<noteq> [] \<and> ty \<noteq> ''creator'' \<and> ty \<noteq> ''updater'' then add_meta new st else st))"

definition parseUserMetaDefinitions :: "old_workspace list \<Rightarrow> meta_state option" where
  "parseUserMetaDefinitions wss =
     fold (\<lambda>w acc. case acc of None \<Rightarrow> None | Some st \<Rightarrow>
         (case map_of (owFeatures w) ''meta.user'' of
            None \<Rightarrow> Some st
          | Some meta \<Rightarrow> parse_fields (Suc (length meta)) 0 (owId w) meta st))
       wss (Some \<lparr>metas = [], factorized = [], metaLinks = []\<rparr>)"

section \<open>Template texts\<close>

definition newline :: "char \<Rightarrow> bool" where
  "newline c \<longleftrightarrow> (of_char c :: nat) = 10 \<or> (of_char c :: nat) = 13"

text \<open>\<open>removeComments\<close>: block comments, then the rest of a line from \<open>//\<close> on with the character before
  it, unless that is a colon; at last the line ends. The flag says that a line starts here.\<close>

function strip_comments :: "bool \<Rightarrow> string \<Rightarrow> string" where
  "strip_comments bol [] = []"
| "strip_comments bol (c # s) =
     (case (if starts_with ''/*'' (c # s) then find_sub ''*/'' (tl s) else None) of
        Some i \<Rightarrow> strip_comments False (drop (i + 2) (tl s))
      | None \<Rightarrow>
          if (c \<noteq> CHR '':'' \<and> starts_with ''//'' s) \<or> (bol \<and> starts_with ''//'' (c # s)) then
            strip_comments False (dropWhile (\<lambda>d. \<not> newline d) s)
          else c # strip_comments (newline c) s)"
  by pat_completeness auto

termination
  by (relation "measure (\<lambda>(bol, s). length s)")
    (auto simp: less_Suc_eq_le length_dropWhile_le intro: le_trans [OF diff_le_self])

definition removeComments :: "string \<Rightarrow> string" where
  "removeComments s = filter (\<lambda>c. \<not> newline c) (strip_comments True s)"

lemma find_sub_bound: "find_sub p s = Some i \<Longrightarrow> i + length p \<le> length s"
proof (induction s arbitrary: i)
  case (Cons c s)
  show ?case
  proof (cases "starts_with p (c # s)")
    case True
    then obtain t where "c # s = p @ t" unfolding starts_with_iff by blast
    then have "length (c # s) = length (p @ t)" by (rule arg_cong)
    then show ?thesis using Cons.prems True by simp
  qed (use Cons in auto)
qed (auto split: if_splits)

function replace_all :: "string \<Rightarrow> string \<Rightarrow> string \<Rightarrow> string" where
  "replace_all p r s =
     (if p = [] then s
      else case find_sub p s of None \<Rightarrow> s
           | Some i \<Rightarrow> take i s @ r @ replace_all p r (drop (i + length p) s))"
  by auto

termination
  by (relation "measure (\<lambda>(p, r, s). length s)") (auto dest!: find_sub_bound simp flip: length_greater_0_conv)

declare replace_all.simps [simp del]

definition quoted :: "string \<Rightarrow> string" where
  "quoted s = CHR 34 # s @ [CHR 34]"

text \<open>The text of a template path: the user's name is spliced in, an empty string at the end dropped.\<close>

definition strip_end :: "string \<Rightarrow> string" where
  "strip_end v =
     (let e = '' + '' @ quoted [] @ '';'' in
      if length e \<le> length v \<and> drop (length v - length e) v = e then take (length v - length e) v @ '';'' else v)"

definition splice_user :: "string \<Rightarrow> string" where
  "splice_user s = replace_all ''AJXP_USER'' ([CHR 34] @ '' + User.Name + '' @ [CHR 34]) s"

definition template_text :: "string \<Rightarrow> string \<Rightarrow> string" where
  "template_text name rest =
     strip_end (splice_user (''Path = DataSources.'' @ name @ '' + '' @ quoted rest @ '';''))"

text \<open>\<open>getDatasource\<close>: the name after \<open>DataSources.\<close>, or the whole text.\<close>

definition getDatasource :: "string \<Rightarrow> string" where
  "getDatasource s =
     (let pre = ''Path = DataSources.''; t = drop (length pre) s; nm = takeWhile (\<lambda>c. c \<noteq> CHR '' '') t in
      if starts_with pre s \<and> starts_with '' + '' (drop (length nm) t) then nm else s)"

end
