(* ===== verification/MigrationMapper.thy ===== *)
theory MigrationMapper
  imports Migration
begin

text \<open>
  The pairing of the workspaces of an old server with data sources and template paths
  (\<open>action.migration/res/js/workspaces/Mapper.js\<close>): the state of the component, its handlers, the
  mapping it derives and what it hands on.

  The mapping is derived again at every reading until a handler stores it, so each handler and each
  link list is an option: \<open>None\<close> is the throw of a destructured \<open>undefined\<close>.
\<close>

section \<open>State\<close>

text \<open>A data source is missing, the empty object of the first mapping, or a loaded one; a template path
  is missing (removed by a handler), \<open>null\<close> or a loaded one.\<close>

datatype entry_source = NoSource | EmptySource | Chosen source

datatype entry_template = Removed | Null | Picked template

record mapping_entry =
  meWs :: old_workspace
  meDsPath :: string
  meDs :: entry_source
  meTp :: entry_template
  meRootPath :: string
  meRootNode :: "(string, string) obj option"     \<comment> \<open>the nodes by path, each its identifier\<close>
  meValid :: "bool option"

record mapper =
  mCells :: "string list"                          \<comment> \<open>identifiers of the new server's workspaces\<close>
  mWorkspaces :: "old_workspace list"
  mMapped :: "old_workspace list"
  mShowSources :: bool
  mShowTemplates :: bool
  mSources :: "source list"
  mTemplates :: "template option list"
  mMapping :: "mapping_entry list option"
  mSelected :: "old_workspace option"
  mHighlight :: "old_workspace option"
  mOffset :: int
  mLimit :: int

definition newMapper :: "old_workspace list \<Rightarrow> string list \<Rightarrow> mapper" where
  "newMapper workspaces cells =
     \<lparr>mCells = filter (\<lambda>u. filter (\<lambda>w. owId w = u) workspaces \<noteq> []) cells,
      mWorkspaces = filter (\<lambda>w. filter (\<lambda>u. u = owId w) cells = []) workspaces,
      mMapped = filter (\<lambda>w. filter (\<lambda>u. u = owId w) cells \<noteq> []) workspaces,
      mShowSources = True, mShowTemplates = True, mSources = [], mTemplates = [],
      mMapping = None, mSelected = None, mHighlight = None, mOffset = 0, mLimit = 10\<rparr>"

definition loadDatasources :: "source list \<Rightarrow> mapper \<Rightarrow> mapper" where
  "loadDatasources loaded m = m\<lparr>mSources := loaded\<rparr>"

definition loadTemplatePaths :: "template list \<Rightarrow> mapper \<Rightarrow> mapper" where
  "loadTemplatePaths loaded m = m\<lparr>mTemplates := None # map Some loaded\<rparr>"

text \<open>The box of a workspace both servers have. A workspace the properties do not hold would be
  \<open>undefined\<close> in the lists; the boxes are those of \<open>mCells\<close>, which all have one.\<close>

definition toggleRemap :: "old_workspace list \<Rightarrow> bool \<Rightarrow> string \<Rightarrow> mapper \<Rightarrow> mapper option" where
  "toggleRemap propsWorkspaces check uuid m =
     (case filter (\<lambda>w. owId w = uuid) propsWorkspaces of
        [] \<Rightarrow> None
      | w # _ \<Rightarrow> Some
          (if check then
             m\<lparr>mWorkspaces := filter (\<lambda>v. owId v \<noteq> uuid) (mWorkspaces m), mMapped := mMapped m @ [w]\<rparr>
           else
             m\<lparr>mWorkspaces := mWorkspaces m @ [w], mMapped := filter (\<lambda>v. owId v \<noteq> uuid) (mMapped m)\<rparr>))"

section \<open>The mapping\<close>

fun all_some :: "'a option list \<Rightarrow> 'a list option" where
  "all_some [] = Some []"
| "all_some (x # xs) = (case x of None \<Rightarrow> None | Some y \<Rightarrow> map_option ((#) y) (all_some xs))"

definition find_template :: "string \<Rightarrow> template option list \<Rightarrow> entry_template" where
  "find_template value tps =
     (case filter (\<lambda>tp. case tp of None \<Rightarrow> False | Some t \<Rightarrow> removeComments (tpResolution t) = value) tps of
        Some t # _ \<Rightarrow> Picked t
      | _ \<Rightarrow> Null)"

text \<open>The source of a first mapping is the empty object, whose name is \<open>undefined\<close>.\<close>

definition first_entry :: "path_tree \<Rightarrow> template option list \<Rightarrow> nat \<Rightarrow> old_workspace \<Rightarrow> mapping_entry option" where
  "first_entry tree tps i w =
     (case getNewRoots (\<lambda>r. rWs r = Some i) tree of
        [] \<Rightarrow> None
      | r # _ \<Rightarrow>
          (case (rParentDs r, getNewRoots (\<lambda>r. rTemplate r \<notin> {None, Some []} \<and> rWs r = Some i) tree) of
             (Some d, t # _) \<Rightarrow>
               (case (rParentDs t, rTemplate t) of
                  (Some p, Some path) \<Rightarrow>
                    (let rest = drop (length p) path in
                     Some \<lparr>meWs = w, meDsPath = d, meDs = EmptySource,
                           meTp = find_template (template_text ''undefined'' rest) tps,
                           meRootPath = rest, meRootNode = None, meValid = None\<rparr>)
                | _ \<Rightarrow> None)
           | _ \<Rightarrow> None))"

definition initialMapping ::
    "(string \<Rightarrow> string) \<Rightarrow> template option list \<Rightarrow> old_workspace list \<Rightarrow> mapping_entry list option" where
  "initialMapping base64 tps wss =
     (case all_some (map (extractPath base64) wss) of
        None \<Rightarrow> None
      | Some ps \<Rightarrow> all_some (map (\<lambda>(i, w). first_entry (newPathTree ps CHR ''/'') tps i w) (enumerate 0 wss)))"

definition mapping :: "(string \<Rightarrow> string) \<Rightarrow> mapper \<Rightarrow> mapping_entry list option" where
  "mapping base64 m =
     (case mMapping m of
        Some es \<Rightarrow> Some es
      | None \<Rightarrow> initialMapping base64 (mTemplates m) (mWorkspaces m))"

section \<open>Handlers\<close>

definition handleSelectWorkspace :: "old_workspace \<Rightarrow> mapper \<Rightarrow> mapper" where
  "handleSelectWorkspace w m = m\<lparr>mSelected := Some w\<rparr>"

definition change_entries ::
    "(string \<Rightarrow> string) \<Rightarrow> old_workspace option \<Rightarrow> (mapping_entry \<Rightarrow> mapping_entry) \<Rightarrow> mapper \<Rightarrow> mapper option" where
  "change_entries base64 w f m =
     map_option (\<lambda>es. m\<lparr>mMapping := Some (map (\<lambda>e. if Some (meWs e) = w then f e else e) es)\<rparr>) (mapping base64 m)"

definition handleSelectDatasource :: "(string \<Rightarrow> string) \<Rightarrow> source \<Rightarrow> mapper \<Rightarrow> mapper option" where
  "handleSelectDatasource base64 ds m =
     change_entries base64 (mSelected m) (\<lambda>e. e\<lparr>meDs := Chosen ds, meTp := Removed\<rparr>) m"

definition handleSelectTemplatePath :: "(string \<Rightarrow> string) \<Rightarrow> template \<Rightarrow> mapper \<Rightarrow> mapper option" where
  "handleSelectTemplatePath base64 tp m =
     (let ds = (case filter (\<lambda>d. sName d = getDatasource (removeComments (tpResolution tp))) (mSources m) of
                  [] \<Rightarrow> NoSource | d # _ \<Rightarrow> Chosen d)
      in map_option (\<lambda>m'. m'\<lparr>mSelected := None\<rparr>)
           (change_entries base64 (mSelected m) (\<lambda>e. e\<lparr>meDs := ds, meTp := Picked tp\<rparr>) m))"

definition handleSelectRootNode ::
    "(string \<Rightarrow> string) \<Rightarrow> old_workspace \<Rightarrow> (string, string) obj \<Rightarrow> mapper \<Rightarrow> mapper option" where
  "handleSelectRootNode base64 w node m =
     change_entries base64 (Some w) (\<lambda>e. e\<lparr>meRootNode := Some node, meValid := Some True\<rparr>) m"

definition handleInvalidRootNode :: "(string \<Rightarrow> string) \<Rightarrow> old_workspace \<Rightarrow> mapper \<Rightarrow> mapper option" where
  "handleInvalidRootNode base64 w m = change_entries base64 (Some w) (\<lambda>e. e\<lparr>meValid := Some False\<rparr>) m"

definition handleShowPath :: "old_workspace \<Rightarrow> mapper \<Rightarrow> mapper" where
  "handleShowPath w m = m\<lparr>mHighlight := Some w\<rparr>"

definition handleHidePath :: "mapper \<Rightarrow> mapper" where
  "handleHidePath m = m\<lparr>mHighlight := None\<rparr>"

definition handleShowDatasources :: "mapper \<Rightarrow> mapper" where
  "handleShowDatasources m = m\<lparr>mShowSources := True\<rparr>"

definition handleHideDatasources :: "mapper \<Rightarrow> mapper" where
  "handleHideDatasources m = m\<lparr>mShowSources := False\<rparr>"

definition handleShowTemplatePaths :: "mapper \<Rightarrow> mapper" where
  "handleShowTemplatePaths m = m\<lparr>mShowTemplates := True\<rparr>"

definition handleHideTemplatePaths :: "mapper \<Rightarrow> mapper" where
  "handleHideTemplatePaths m = m\<lparr>mShowTemplates := False\<rparr>"

section \<open>Drafts of a source and of a template path\<close>

record source_draft =
  sdName :: string
  sdType :: "string option"
  sdConfig :: "(string, string) obj"
  sdKeys :: "string option \<times> string option"
  sdBucket :: "string option"
  sdBaseFolder :: "string option"

text \<open>Without a selected workspace the handler throws; for other access types nothing is preset.\<close>

definition draft_name :: "string \<Rightarrow> string" where
  "draft_name s = filter (\<lambda>c. c \<noteq> CHR ''-'') (computeStringSlug s)"

definition handleCreateDatasource :: "(string \<Rightarrow> string) \<Rightarrow> mapper \<Rightarrow> source_draft option option" where
  "handleCreateDatasource base64 m =
     (case mSelected m of
        None \<Rightarrow> None
      | Some w \<Rightarrow>
          (let ps = owParams w in
           if owAccess w = ''s3'' then
             Some (Some \<lparr>sdName = draft_name (owDisplay w), sdType = Some ''S3'',
               sdConfig = (if param ''STORAGE_URL'' ps \<noteq> [] then [(''customEndpoint'', param ''STORAGE_URL'' ps)] else []),
               sdKeys = (map_of ps ''API_KEY'', map_of ps ''SECRET_KEY''),
               sdBucket = map_of ps ''CONTAINER'',
               sdBaseFolder = (if param ''PATH'' ps \<noteq> [] then Some (param ''PATH'' ps) else None)\<rparr>)
           else if owAccess w = ''fs'' then
             (case mapping base64 m of
                None \<Rightarrow> None
              | Some es \<Rightarrow>
                  (case filter (\<lambda>e. meWs e = w) es of
                     [] \<Rightarrow> None
                   | e # _ \<Rightarrow> Some (Some \<lparr>sdName = draft_name (drop 1 (meDsPath e)), sdType = None,
                       sdConfig = [(''folder'', meDsPath e)], sdKeys = (None, None), sdBucket = None,
                       sdBaseFolder = None\<rparr>)))
           else Some None))"

definition source_name :: "entry_source \<Rightarrow> string option" where
  "source_name d = (case d of NoSource \<Rightarrow> None | EmptySource \<Rightarrow> Some ''undefined'' | Chosen s \<Rightarrow> Some (sName s))"

text \<open>The name and text of a new template path.\<close>

definition handleCreateTemplatePath :: "(string \<Rightarrow> string) \<Rightarrow> mapper \<Rightarrow> (string \<times> string) option" where
  "handleCreateTemplatePath base64 m =
     (case (mSelected m, mapping base64 m) of
        (Some w, Some es) \<Rightarrow>
          (case filter (\<lambda>e. meWs e = w) es of
             [] \<Rightarrow> None
           | e # _ \<Rightarrow> map_option
               (\<lambda>nm. (owSlug w, ''Path = DataSources.'' @ nm @
                  strip_end (splice_user ('' + '' @ quoted (meRootPath e) @ '';''))))
               (source_name (meDs e)))
      | _ \<Rightarrow> None)"

section \<open>Queries\<close>

definition isInvalid :: "(string \<Rightarrow> string) \<Rightarrow> mapper \<Rightarrow> old_workspace \<Rightarrow> bool option" where
  "isInvalid base64 m w =
     map_option (\<lambda>es. filter (\<lambda>e. meWs e = w \<and> meValid e = Some False) es \<noteq> []) (mapping base64 m)"

definition isValid :: "(string \<Rightarrow> string) \<Rightarrow> mapper \<Rightarrow> old_workspace \<Rightarrow> bool option" where
  "isValid base64 m w =
     map_option (\<lambda>es. filter (\<lambda>e. meWs e = w \<and> meValid e = Some True) es \<noteq> []) (mapping base64 m)"

definition isDatasourceSelectable :: "mapper \<Rightarrow> source \<Rightarrow> bool" where
  "isDatasourceSelectable m ds =
     (case mSelected m of None \<Rightarrow> False
      | Some w \<Rightarrow> owAccess w = (case sType ds of Some t \<Rightarrow> if t = [] then ''fs'' else js_lower t | None \<Rightarrow> ''fs''))"

definition isDatasourceHighlighted :: "(string \<Rightarrow> string) \<Rightarrow> mapper \<Rightarrow> source \<Rightarrow> bool option" where
  "isDatasourceHighlighted base64 m ds =
     map_option (\<lambda>es. filter (\<lambda>e. mHighlight m = Some (meWs e) \<and> meDs e = Chosen ds) es \<noteq> []) (mapping base64 m)"

definition isTemplatePathSelectable :: "mapper \<Rightarrow> template option \<Rightarrow> bool" where
  "isTemplatePathSelectable m tp \<longleftrightarrow> mSelected m \<noteq> None \<and> tp \<noteq> None"

definition named_source :: "entry_source \<Rightarrow> bool" where
  "named_source d = (case d of Chosen s \<Rightarrow> sName s \<noteq> [] | _ \<Rightarrow> False)"

definition isTemplatePathHighlighted :: "(string \<Rightarrow> string) \<Rightarrow> mapper \<Rightarrow> template option \<Rightarrow> bool option" where
  "isTemplatePathHighlighted base64 m tp =
     map_option (\<lambda>es. filter (\<lambda>e. mHighlight m = Some (meWs e) \<and> named_source (meDs e) \<and>
        meTp e = (case tp of None \<Rightarrow> Null | Some t \<Rightarrow> Picked t)) es \<noteq> []) (mapping base64 m)"

section \<open>Links\<close>

record map_link =
  mlLeft :: nat
  mlRight :: nat
  mlColor :: string

definition getLinks :: "'a list \<Rightarrow> 'b list \<Rightarrow> ('a \<Rightarrow> 'b \<Rightarrow> mapping_entry option) \<Rightarrow>
    (mapping_entry \<Rightarrow> string) \<Rightarrow> map_link list" where
  "getLinks arr1 arr2 compare color =
     foldl (\<lambda>res1 (i, v1). res1 @ foldl (\<lambda>res2 (j, v2).
         case compare v1 v2 of None \<Rightarrow> res2
         | Some e \<Rightarrow> res2 @ [\<lparr>mlLeft = i, mlRight = j, mlColor = color e\<rparr>]) [] (enumerate 0 arr2))
       [] (enumerate 0 arr1)"

definition link_color :: "mapper \<Rightarrow> mapping_entry \<Rightarrow> string" where
  "link_color m e =
     (if Some (meWs e) = mSelected m then ''#7C0A02''
      else if Some (meWs e) = mHighlight m then ''#000000'' else ''#cccccc'')"

text \<open>The page shown: the counts may be negative once workspaces were moved away.\<close>

definition page :: "mapper \<Rightarrow> old_workspace list" where
  "page m =
     (let count = min (int (length (mWorkspaces m)) - mOffset m) (mLimit m)
      in js_slice (mWorkspaces m) (mOffset m) (mOffset m + count))"

definition first_with :: "(mapping_entry \<Rightarrow> bool) \<Rightarrow> mapping_entry list \<Rightarrow> mapping_entry option" where
  "first_with P es = (case filter P es of [] \<Rightarrow> None | e # _ \<Rightarrow> Some e)"

text \<open>\<open>==\<close> takes the missing template for \<open>null\<close>.\<close>

definition same_template :: "entry_template \<Rightarrow> template option \<Rightarrow> bool" where
  "same_template e tp = (case tp of None \<Rightarrow> e = Null \<or> e = Removed | Some t \<Rightarrow> e = Picked t)"

definition linkWorkspacesToDatasources :: "(string \<Rightarrow> string) \<Rightarrow> mapper \<Rightarrow> map_link list option" where
  "linkWorkspacesToDatasources base64 m =
     map_option (\<lambda>es. getLinks (page m) (mSources m)
       (\<lambda>w d. first_with (\<lambda>e. meWs e = w \<and> meDs e = Chosen d) es) (link_color m)) (mapping base64 m)"

definition linkWorkspacesToTemplatePaths :: "(string \<Rightarrow> string) \<Rightarrow> mapper \<Rightarrow> map_link list option" where
  "linkWorkspacesToTemplatePaths base64 m =
     map_option (\<lambda>es. getLinks (page m) (mTemplates m)
       (\<lambda>w tp. first_with (\<lambda>e. meWs e = w \<and> same_template (meTp e) tp \<and> named_source (meDs e)) es)
       (link_color m)) (mapping base64 m)"

definition linkDatasourcesToTemplatePaths :: "(string \<Rightarrow> string) \<Rightarrow> mapper \<Rightarrow> map_link list option" where
  "linkDatasourcesToTemplatePaths base64 m =
     map_option (\<lambda>es. getLinks (mSources m) (mTemplates m)
       (\<lambda>d tp. first_with (\<lambda>e. same_template (meTp e) tp) (filter (\<lambda>e. meDs e = Chosen d) es))
       (link_color m)) (mapping base64 m)"

definition linkDatasourcesToWorkspaces :: "(string \<Rightarrow> string) \<Rightarrow> mapper \<Rightarrow> map_link list option" where
  "linkDatasourcesToWorkspaces base64 m =
     map_option (\<lambda>es. getLinks (mSources m) (page m)
       (\<lambda>d w. first_with (\<lambda>e. meWs e = w \<and> meDs e = Chosen d) es) (link_color m)) (mapping base64 m)"

text \<open>Here the name of the source is read without a guard: a missing source throws.\<close>

definition linkTemplatePathsToWorkspaces :: "(string \<Rightarrow> string) \<Rightarrow> mapper \<Rightarrow> map_link list option" where
  "linkTemplatePathsToWorkspaces base64 m =
     (case mapping base64 m of
        None \<Rightarrow> None
      | Some es \<Rightarrow>
          let hits = (\<lambda>tp w. filter (\<lambda>e. meWs e = w) (filter (\<lambda>e. same_template (meTp e) tp) es)) in
          if \<exists>tp \<in> set (mTemplates m). \<exists>w \<in> set (page m). \<exists>e \<in> set (hits tp w). meDs e = NoSource then None
          else Some (getLinks (mTemplates m) (page m)
            (\<lambda>tp w. first_with (\<lambda>e. named_source (meDs e)) (hits tp w)) (link_color m)))"

definition linkWorkspacesToWorkspaces :: "(string \<Rightarrow> string) \<Rightarrow> mapper \<Rightarrow> map_link list option" where
  "linkWorkspacesToWorkspaces base64 m =
     map_option (\<lambda>es. getLinks (page m) (page m)
       (\<lambda>w1 w2. first_with (\<lambda>e. meWs e = w1 \<and> meWs e = w2) es) (link_color m)) (mapping base64 m)"

section \<open>Paging and the result\<close>

definition prev_page :: "mapper \<Rightarrow> int option" where
  "prev_page m =
     (if int (length (mWorkspaces m)) \<le> mLimit m then None
      else if mOffset m > 0 then Some (mOffset m - mLimit m) else None)"

definition next_page :: "mapper \<Rightarrow> int option" where
  "next_page m =
     (if int (length (mWorkspaces m)) \<le> mLimit m then None
      else if int (length (mWorkspaces m)) - mOffset m > mLimit m then Some (mOffset m + mLimit m) else None)"

record new_workspace =
  nwUuid :: string
  nwLabel :: string
  nwDescription :: string
  nwSlug :: string
  nwAttributes :: "(string, string) obj"
  nwRootNodes :: "(string, string) obj"         \<comment> \<open>the nodes by identifier, each its path\<close>

record mapped_workspaces =
  rMapping :: "(string, string) obj"
  rCreate :: "(string, new_workspace) obj"
  rExisting :: "(string, old_workspace) obj"

definition syncable :: "old_workspace \<Rightarrow> bool" where
  "syncable w = (case map_of (owFeatures w) ''meta.syncable'' of
     None \<Rightarrow> False | Some f \<Rightarrow> map_of f ''REPO_SYNCABLE'' = Some ''true'')"

definition created :: "old_workspace \<Rightarrow> (string, string) obj \<Rightarrow> new_workspace" where
  "created w node =
     \<lparr>nwUuid = owId w, nwLabel = owDisplay w, nwDescription = owDisplay w, nwSlug = owSlug w,
      nwAttributes = (''DEFAULT_RIGHTS'', []) # (if syncable w then [(''ALLOW_SYNC'', ''true'')] else []),
      nwRootNodes = fold (\<lambda>(path, uuid). obj_set uuid path) node []\<rparr>"

definition mark_existing :: "old_workspace \<Rightarrow> mapped_workspaces \<Rightarrow> mapped_workspaces" where
  "mark_existing w ret =
     ret\<lparr>rMapping := obj_set (owId w) (owId w) (rMapping ret), rExisting := obj_set (owId w) w (rExisting ret)\<rparr>"

definition mark_created :: "mapping_entry \<Rightarrow> mapped_workspaces \<Rightarrow> mapped_workspaces" where
  "mark_created e ret =
     (case meRootNode e of
        None \<Rightarrow> ret
      | Some node \<Rightarrow>
          ret\<lparr>rMapping := obj_set (owId (meWs e)) (nwUuid (created (meWs e) node)) (rMapping ret),
              rCreate := obj_set (owId (meWs e)) (created (meWs e) node) (rCreate ret)\<rparr>)"

definition handleNext :: "(string \<Rightarrow> string) \<Rightarrow> mapper \<Rightarrow> mapped_workspaces option" where
  "handleNext base64 m =
     map_option (\<lambda>es. fold mark_created es
       (fold mark_existing (mMapped m) \<lparr>rMapping = [], rCreate = [], rExisting = []\<rparr>)) (mapping base64 m)"

end
