(* ===== verification/MigrationFacts.thy ===== *)
theory MigrationFacts
  imports MigrationMapper Systems "HOL-Library.Multiset"
begin

text \<open>
  Lemmas on the migration page: the entries of the first mapping, the states its handlers reach, what
  it hands on, and the text it compares template paths with.
\<close>

section \<open>Roots and entries\<close>

lemma all_some_map: "all_some xs = Some ys \<longleftrightarrow> xs = map Some ys"
  by (induction xs arbitrary: ys) (auto split: option.splits simp: Cons_eq_map_conv)

lemma all_some_None: "all_some xs = None \<longleftrightarrow> None \<in> set xs"
  by (induction xs) (auto split: option.splits)

definition parts_of :: "string \<Rightarrow> string list" where
  "parts_of p = tl (js_split CHR ''/'' (absolute CHR ''/'' p))"

lemma path_name_nonempty: "path_name sep q \<noteq> []"
  by (auto simp: path_name_def Let_def starts_with_def)

lemma user_sep: "CHR ''/'' \<notin> set ''AJXP_''" by simp

lemma root_facts:
  assumes "r \<in> set (newRoots (newPathTree ps CHR ''/''))" "rWs r = Some i"
  shows "i < length ps" "rTemplate r = Some (path_name CHR ''/'' (parts_of (ps ! i)))"
    "\<exists>d. rParentDs r = Some d \<and> (user_part (path_name CHR ''/'' (parts_of (ps ! i))) \<or>
        starts_with d (path_name CHR ''/'' (parts_of (ps ! i))))"
  using root_of_workspace [OF assms user_sep] by (auto simp: Let_def parts_of_def)

lemma first_entry_None:
  "first_entry (newPathTree ps CHR ''/'') tps i w = None \<longleftrightarrow> i \<notin> root_workspaces (newRoots (newPathTree ps CHR ''/''))"
  (is "?e = None \<longleftrightarrow> _")
  and first_entry_Some:
  "first_entry (newPathTree ps CHR ''/'') tps i w = Some e \<Longrightarrow> meWs e = w \<and> meRootNode e = None \<and>
     (let t = path_name CHR ''/'' (parts_of (ps ! i)) in user_part t \<or> meDsPath e @ meRootPath e = t)"
proof -
  let ?tree = "newPathTree ps CHR ''/''"
  have same: "getNewRoots (\<lambda>r. rTemplate r \<notin> {None, Some []} \<and> rWs r = Some i) ?tree = getNewRoots (\<lambda>r. rWs r = Some i) ?tree"
    unfolding getNewRoots_def by (rule filter_cong) (auto simp: root_facts(2) path_name_nonempty)
  note e = first_entry_def [of ?tree tps i w, unfolded same]
  show "?e = None \<longleftrightarrow> i \<notin> root_workspaces (newRoots ?tree)"
    and "?e = Some e \<Longrightarrow> meWs e = w \<and> meRootNode e = None \<and>
     (let t = path_name CHR ''/'' (parts_of (ps ! i)) in user_part t \<or> meDsPath e @ meRootPath e = t)"
  proof (atomize (full), cases "getNewRoots (\<lambda>r. rWs r = Some i) ?tree")
    case Nil
    then show "(?e = None \<longleftrightarrow> i \<notin> root_workspaces (newRoots ?tree)) \<and> (?e = Some e \<longrightarrow> meWs e = w \<and> meRootNode e = None \<and>
      (let t = path_name CHR ''/'' (parts_of (ps ! i)) in user_part t \<or> meDsPath e @ meRootPath e = t))"
      unfolding e by (auto simp: getNewRoots_def root_workspaces_def filter_empty_conv)
  next
    case (Cons r rs)
    then have "r \<in> set (getNewRoots (\<lambda>r. rWs r = Some i) ?tree)" by simp
    then have r: "r \<in> set (newRoots ?tree)" "rWs r = Some i" by (auto simp: getNewRoots_def)
    from root_facts(3) [OF r] obtain d where d: "rParentDs r = Some d"
      "user_part (path_name CHR ''/'' (parts_of (ps ! i))) \<or> starts_with d (path_name CHR ''/'' (parts_of (ps ! i)))" by blast
    show "(?e = None \<longleftrightarrow> i \<notin> root_workspaces (newRoots ?tree)) \<and> (?e = Some e \<longrightarrow> meWs e = w \<and> meRootNode e = None \<and>
      (let t = path_name CHR ''/'' (parts_of (ps ! i)) in user_part t \<or> meDsPath e @ meRootPath e = t))"
      unfolding e using Cons r d by (auto simp: root_facts(2) [OF r] Let_def starts_with_iff root_workspaces_def)
  qed
qed

section \<open>The first mapping\<close>

lemma initialMapping_alt:
  assumes "map (extractPath base64) wss = map Some ps"
  shows "initialMapping base64 tps wss = all_some (map (\<lambda>i. first_entry (newPathTree ps CHR ''/'') tps i (wss ! i)) [0..<length ps])"
proof -
  have "length wss = length ps" using arg_cong [OF assms, of length] by simp
  then have "map (\<lambda>(i, w). first_entry (newPathTree ps CHR ''/'') tps i w) (enumerate 0 wss) =
      map (\<lambda>i. first_entry (newPathTree ps CHR ''/'') tps i (wss ! i)) [0..<length ps]"
    by (intro nth_equalityI) (auto simp: nth_enumerate_eq)
  then show ?thesis using assms all_some_map [of "map (extractPath base64) wss" ps] by (simp add: initialMapping_def)
qed

text \<open>Every path has a part, possibly all of it, that the paths do not all follow by one name.\<close>

definition every_path_rooted :: "string list \<Rightarrow> bool" where
  "every_path_rooted ps \<longleftrightarrow>
     (\<forall>i < length ps. \<exists>q r. parts_of (ps ! i) = q @ r \<and> q \<noteq> [] \<and> card (followers (map parts_of ps) q) \<noteq> 1)"

lemma roots_everywhere:
  "(\<forall>i < length ps. i \<in> root_workspaces (newRoots (newPathTree ps CHR ''/''))) \<longleftrightarrow> every_path_rooted ps"
  unfolding roots_of_paths every_path_rooted_def by (auto simp: Let_def parts_of_def [abs_def])


section \<open>The states of the page\<close>

text \<open>The handlers that only change what is shown, and those that change the mapping.\<close>

inductive mapper_step :: "(string \<Rightarrow> string) \<Rightarrow> old_workspace list \<Rightarrow> mapper \<Rightarrow> mapper \<Rightarrow> bool"
  for base64 :: "string \<Rightarrow> string" and props :: "old_workspace list" where
  toggled: "uuid \<in> set (mCells m) \<Longrightarrow> toggleRemap props (uuid \<notin> owId ` set (mMapped m)) uuid m = Some m' \<Longrightarrow>
    mapper_step base64 props m m'"
| sources: "mapper_step base64 props m (loadDatasources ds m)"
| templates: "mapper_step base64 props m (loadTemplatePaths ts m)"
| selected: "mapper_step base64 props m (handleSelectWorkspace w m)"
| source: "handleSelectDatasource base64 d m = Some m' \<Longrightarrow> mapper_step base64 props m m'"
| template: "handleSelectTemplatePath base64 t m = Some m' \<Longrightarrow> mapper_step base64 props m m'"
| root_node: "handleSelectRootNode base64 w node m = Some m' \<Longrightarrow> mapper_step base64 props m m'"
| no_root_node: "handleInvalidRootNode base64 w m = Some m' \<Longrightarrow> mapper_step base64 props m m'"
| highlight: "f \<in> {handleShowPath w, handleHidePath} \<Longrightarrow> mapper_step base64 props m (f m)"
| columns: "f \<in> {handleShowDatasources, handleHideDatasources, handleShowTemplatePaths, handleHideTemplatePaths} \<Longrightarrow>
    mapper_step base64 props m (f m)"
| paged: "prev_page m = Some n \<or> next_page m = Some n \<Longrightarrow> mapper_step base64 props m (m\<lparr>mOffset := n\<rparr>)"

definition mapper_reachable :: "(string \<Rightarrow> string) \<Rightarrow> old_workspace list \<Rightarrow> string list \<Rightarrow> mapper \<Rightarrow> bool" where
  "mapper_reachable base64 props cells = reach ((=) (newMapper props cells)) (mapper_step base64 props)"

lemma mapper_reachable_start: "mapper_reachable base64 props cells (newMapper props cells)"
  by (simp add: mapper_reachable_def reach.started)

lemma mapper_reachable_step:
  "mapper_reachable base64 props cells m \<Longrightarrow> mapper_step base64 props m m' \<Longrightarrow> mapper_reachable base64 props cells m'"
  unfolding mapper_reachable_def by (rule reach.stepped)

definition mapper_ok :: "old_workspace list \<Rightarrow> mapper \<Rightarrow> bool" where
  "mapper_ok props m \<longleftrightarrow>
     mset (mWorkspaces m) + mset (mMapped m) = mset props \<and> 0 \<le> mOffset m \<and> 0 < mLimit m \<and> mLimit m dvd mOffset m"

lemma mapper_ok_frame:
  assumes "mapper_ok props m" "mWorkspaces m' = mWorkspaces m" "mMapped m' = mMapped m"
    "mOffset m' = mOffset m" "mLimit m' = mLimit m"
  shows "mapper_ok props m'"
  using assms by (simp add: mapper_ok_def)

lemma mset_split_filter: "mset (filter P xs) + mset (filter (\<lambda>x. \<not> P x) xs) = mset xs"
  by (induction xs) auto

lemma mapper_ok_new: "mapper_ok props (newMapper props cells)"
proof -
  have "filter (\<lambda>u. u = owId w) cells = [] \<longleftrightarrow> owId w \<notin> set cells" for w by (auto simp: filter_empty_conv)
  then show ?thesis using mset_split_filter [of "\<lambda>w. owId w \<notin> set cells" props]
    by (simp add: mapper_ok_def newMapper_def)
qed

lemma distinct_key_filter:
  assumes "distinct (map owId ws)" "w \<in> set ws"
  shows "filter (\<lambda>v. owId v = owId w) ws = [w]"
  using assms by (induction ws) (auto simp: filter_empty_conv image_iff)

lemma mapper_ok_toggle:
  assumes "distinct (map owId props)" "mapper_ok props m"
    "toggleRemap props (uuid \<notin> owId ` set (mMapped m)) uuid m = Some m'"
  shows "mapper_ok props m'"
proof -
  from assms(3) obtain w ws where hit: "filter (\<lambda>w. owId w = uuid) props = w # ws"
    unfolding toggleRemap_def by (auto split: list.splits)
  then have "w \<in> set (filter (\<lambda>w. owId w = uuid) props)" by simp
  then have w: "w \<in> set props" "owId w = uuid" by auto
  note all = assms(2) [unfolded mapper_ok_def]
  have "mset (map owId (mWorkspaces m @ mMapped m)) = mset (map owId props)"
    using all by (metis mset_append mset_map)
  then have d: "distinct (map owId (mWorkspaces m @ mMapped m))"
    using assms(1) mset_eq_imp_distinct_iff by blast
  have el: "set (mWorkspaces m @ mMapped m) = set props"
    using all by (metis mset_append set_mset_mset)
  have one: "filter (\<lambda>v. owId v = uuid) (mWorkspaces m @ mMapped m) = [w]"
    using distinct_key_filter [OF d] w el by blast
  have split: "mset xs = mset (filter (\<lambda>v. owId v = uuid) xs) + mset (filter (\<lambda>v. owId v \<noteq> uuid) xs)" for xs
    by (simp only: mset_split_filter)
  show ?thesis
  proof (cases "uuid \<in> owId ` set (mMapped m)")
    case True
    then have "filter (\<lambda>v. owId v = uuid) (mMapped m) \<noteq> []" by (auto simp: filter_empty_conv)
    then have part: "mset (mMapped m) = {#w#} + mset (filter (\<lambda>v. owId v \<noteq> uuid) (mMapped m))"
      using one split [of "mMapped m"] by (auto simp: append_eq_Cons_conv)
    have "mset (mWorkspaces m) + ({#w#} + mset (filter (\<lambda>v. owId v \<noteq> uuid) (mMapped m))) = mset props"
      using all part by metis
    then show ?thesis using assms(3) hit True all by (simp add: toggleRemap_def mapper_ok_def) (auto simp: mapper_ok_def)
  next
    case False
    then have "filter (\<lambda>v. owId v = uuid) (mMapped m) = []" by (auto simp: filter_empty_conv)
    then have part: "mset (mWorkspaces m) = {#w#} + mset (filter (\<lambda>v. owId v \<noteq> uuid) (mWorkspaces m))"
      using one split [of "mWorkspaces m"] by simp
    have "({#w#} + mset (filter (\<lambda>v. owId v \<noteq> uuid) (mWorkspaces m))) + mset (mMapped m) = mset props"
      using all part by metis
    then show ?thesis using assms(3) hit False all by (simp add: toggleRemap_def mapper_ok_def) (auto simp: mapper_ok_def)
  qed
qed

lemmas mapper_handlers = loadDatasources_def loadTemplatePaths_def handleSelectWorkspace_def handleSelectDatasource_def
  handleSelectTemplatePath_def handleSelectRootNode_def handleInvalidRootNode_def change_entries_def handleShowPath_def
  handleHidePath_def handleShowDatasources_def handleHideDatasources_def handleShowTemplatePaths_def handleHideTemplatePaths_def

lemma mapper_ok_step:
  assumes "mapper_step base64 props m m'" "distinct (map owId props)" "mapper_ok props m"
  shows "mapper_ok props m'"
  using assms(1)
proof cases
  case (toggled uuid)
  then show ?thesis using mapper_ok_toggle assms(2,3) by blast
next
  case (paged n)
  then have "n = mOffset m - mLimit m \<and> mOffset m > 0 \<or> n = mOffset m + mLimit m"
    by (auto simp: prev_page_def next_page_def split: if_splits)
  then have "0 \<le> n \<and> mLimit m dvd n"
    using assms(3) zdvd_imp_le [of "mLimit m" "mOffset m"] by (auto simp: mapper_ok_def)
  then show ?thesis using assms(3) paged(1) by (simp add: mapper_ok_def)
qed (rule mapper_ok_frame [OF assms(3)]; auto simp: mapper_handlers)+

interpretation mapper_page: reactive_system "(=) (newMapper props cells)" "mapper_step base64 props"
  "\<lambda>m. distinct (map owId props) \<longrightarrow> mapper_ok props m" for base64 props cells
  by unfold_locales (auto intro: mapper_ok_new mapper_ok_step)

lemma mapper_reachable_ok:
  "mapper_reachable base64 props cells m \<Longrightarrow> distinct (map owId props) \<Longrightarrow> mapper_ok props m"
  unfolding mapper_reachable_def by (drule mapper_page.reached) blast

section \<open>What is handed on\<close>

lemma created_keys:
  "fst ` set (rCreate (fold mark_created es ret)) =
     fst ` set (rCreate ret) \<union> owId ` meWs ` {e \<in> set es. meRootNode e \<noteq> None}"
proof (induction es arbitrary: ret)
  case (Cons e es)
  then show ?case by (auto simp: mark_created_def dom_update split: option.splits)
qed simp

lemma created_keeps_existing: "rExisting (fold mark_created es ret) = rExisting ret"
  by (induction es arbitrary: ret) (auto simp: mark_created_def split: option.splits)

lemma existing_keys:
  "fst ` set (rExisting (fold mark_existing ws ret)) = fst ` set (rExisting ret) \<union> owId ` set ws"
  by (induction ws arbitrary: ret) (auto simp: mark_existing_def dom_update)

section \<open>Existing template paths\<close>

text \<open>The first mapping looks for a template path of the data source \<open>undefined\<close>: a template path of a
  real source is never found again.\<close>

lemma find_sub_skip:
  assumes "p \<noteq> []" "hd p \<notin> set pre"
  shows "find_sub p (pre @ s) = map_option ((+) (length pre)) (find_sub p s)"
  using assms(2)
proof (induction pre)
  case (Cons c pre)
  have "\<not> starts_with p (c # pre @ s)" using assms(1) Cons.prems by (cases p) (auto simp: starts_with_def)
  then show ?case using Cons by (simp add: option.map_comp comp_def)
qed (cases "find_sub p s"; simp)

lemma replace_all_skip:
  assumes "p \<noteq> []" "hd p \<notin> set pre"
  shows "replace_all p r (pre @ s) = pre @ replace_all p r s"
  using assms by (subst (1 2) replace_all.simps) (auto simp: find_sub_skip split: option.splits)

lemma replace_all_length: "length p \<le> length r \<Longrightarrow> length s \<le> length (replace_all p r s)"
proof (induction p r s rule: replace_all.induct)
  case (1 p r s)
  show ?case
  proof (cases "find_sub p s")
    case (Some i)
    then show ?thesis using 1 find_sub_bound [OF Some] by (subst replace_all.simps) fastforce
  qed (subst replace_all.simps, simp)
qed

lemma template_text_start: "starts_with (''Path = DataSources.undefined'') (template_text ''undefined'' rest)"
proof -
  let ?pre = "''Path = DataSources.undefined''" and ?mid = "'' + '' @ [CHR 34]"
  let ?x = "replace_all ''AJXP_USER'' ([CHR 34] @ '' + User.Name + '' @ [CHR 34]) (rest @ [CHR 34] @ '';'')"
  have "splice_user (''Path = DataSources.'' @ ''undefined'' @ '' + '' @ quoted rest @ '';'') = ?pre @ ?mid @ ?x"
    using replace_all_skip [of "''AJXP_USER''" "?pre @ ?mid" _ "rest @ [CHR 34] @ '';''"]
    by (simp add: splice_user_def quoted_def)
  moreover have "2 \<le> length ?x"
    using replace_all_length [of "''AJXP_USER''" "[CHR 34] @ '' + User.Name + '' @ [CHR 34]" "rest @ [CHR 34] @ '';''"] by simp
  ultimately show ?thesis
    by (auto simp: template_text_def strip_end_def Let_def quoted_def starts_with_def take_append)
qed

lemma templates_not_recognised:
  assumes "\<And>t. Some t \<in> set tps \<Longrightarrow> \<not> starts_with ''Path = DataSources.undefined'' (removeComments (tpResolution t))"
  shows "find_template (template_text ''undefined'' rest) tps = Null"
proof -
  have "(case tp of None \<Rightarrow> False | Some t \<Rightarrow> removeComments (tpResolution t) = template_text ''undefined'' rest) = False"
    if "tp \<in> set tps" for tp
  proof (cases tp)
    case (Some t)
    then have "\<not> starts_with ''Path = DataSources.undefined'' (removeComments (tpResolution t))" using assms that by simp
    then have "removeComments (tpResolution t) \<noteq> template_text ''undefined'' rest" using template_text_start by metis
    then show ?thesis using Some by simp
  qed simp
  then show ?thesis by (simp add: find_template_def cong: filter_cong)
qed

text \<open>Examples.\<close>

definition ws_at :: "string \<Rightarrow> string \<Rightarrow> old_workspace" where
  "ws_at u path = \<lparr>owId = u, owDisplay = u, owSlug = u, owAccess = ''fs'', owParams = [(''PATH'', path)], owFeatures = []\<rparr>"

definition below_another :: mapper where
  "below_another = newMapper [ws_at ''1'' ''/a'', ws_at ''2'' ''/a/b''] []"

definition side_by_side :: mapper where
  "side_by_side = newMapper [ws_at ''1'' ''/d/x'', ws_at ''2'' ''/d/y''] []"

definition box_cleared :: mapper where
  "box_cleared = the (toggleRemap [ws_at ''1'' ''/d/x''] False ''1'' (newMapper [ws_at ''1'' ''/d/x''] [''1'']))"

definition root_chosen :: mapper where
  "root_chosen = the (handleSelectRootNode id (ws_at ''1'' ''/d/x'') [(''d'', ''u'')] box_cleared)"

lemma below_another_fields:
  "mMapping below_another = None"
  "map (extractPath id) (mWorkspaces below_another) = map Some [''/a'', ''/a/b'']"
  by code_simp+


end
