(* ===== verification/MigrationProperties.thy ===== *)
theory MigrationProperties
  imports MigrationFacts
begin

text \<open>Properties of the migration of workspaces.\<close>

text \<open>C31. The page derives a mapping exactly when each path has a part, possibly all of it, that is not
  followed by exactly one name in the paths: a workspace whose directory holds just one other workspace's
  path makes the whole page throw.\<close>

theorem mapping_defined_iff:
  assumes "mMapping m = None" "map (extractPath base64) (mWorkspaces m) = map Some ps"
  shows "mapping base64 m \<noteq> None \<longleftrightarrow> every_path_rooted ps"
proof -
  let ?f = "\<lambda>i. first_entry (newPathTree ps CHR ''/'') (mTemplates m) i (mWorkspaces m ! i)"
  have "mapping base64 m \<noteq> None \<longleftrightarrow> None \<notin> ?f ` {..<length ps}"
    using assms(1) by (simp add: mapping_def initialMapping_alt [OF assms(2)] all_some_None atLeast0LessThan)
  also have "\<dots> \<longleftrightarrow> (\<forall>i < length ps. ?f i \<noteq> None)" by (metis (no_types, lifting) image_iff lessThan_iff)
  also have "\<dots> \<longleftrightarrow> every_path_rooted ps"
    unfolding roots_everywhere [symmetric] by (simp only: first_entry_None not_not)
  finally show ?thesis .
qed

lemma mapping_defined_iff_witness: "mapping id below_another = None"
proof -
  have "\<forall>r \<in> set (newRoots (newPathTree [''/a'', ''/a/b''] CHR ''/'')). rWs r \<noteq> Some 0" by code_simp
  then have "\<not> every_path_rooted [''/a'', ''/a/b'']" unfolding roots_everywhere [symmetric]
    by (auto simp: root_workspaces_def)
  then show ?thesis using mapping_defined_iff [OF below_another_fields] by simp
qed

text \<open>C32. When the first mapping is derived, its entries are the workspaces in their order, and for a path
  outside the user directories the path of the data source and the rest of the template path are the
  whole path.\<close>

theorem mapping_splits_paths:
  assumes "mMapping m = None" "map (extractPath base64) (mWorkspaces m) = map Some ps" "mapping base64 m = Some es"
  shows "map meWs es = mWorkspaces m \<and> (\<forall>i < length ps.
    let t = path_name CHR ''/'' (parts_of (ps ! i)) in user_part t \<or> meDsPath (es ! i) @ meRootPath (es ! i) = t)"
proof -
  define f where "f = (\<lambda>i. first_entry (newPathTree ps CHR ''/'') (mTemplates m) i (mWorkspaces m ! i))"
  have n: "length (mWorkspaces m) = length ps" using arg_cong [OF assms(2), of length] by simp
  from assms(1,3) have mp: "map f [0..<length ps] = map Some es"
    by (simp add: mapping_def initialMapping_alt [OF assms(2)] all_some_map f_def)
  have l: "length es = length ps" using arg_cong [OF mp, of length] by (simp only: length_map length_upt)
  have "meWs (es ! i) = mWorkspaces m ! i \<and>
     (let t = path_name CHR ''/'' (parts_of (ps ! i)) in user_part t \<or> meDsPath (es ! i) @ meRootPath (es ! i) = t)"
    if i: "i < length ps" for i
  proof -
    have "f i = Some (es ! i)" using arg_cong [OF mp, of "\<lambda>x. x ! i"] i l by simp
    from first_entry_Some [OF this [unfolded f_def]] show ?thesis by simp
  qed
  then show ?thesis using l n by (simp add: list_eq_iff_nth_eq)
qed

lemma mapping_splits_paths_witness:
  "\<exists>es. mapping id side_by_side = Some es \<and> map (\<lambda>e. owId (meWs e)) es = [''1'', ''2''] \<and>
     meDsPath (es ! 1) @ meRootPath (es ! 1) = ''/d/y''"
proof -
  have m: "mMapping side_by_side = None"
    "map (extractPath id) (mWorkspaces side_by_side) = map Some [''/d/x'', ''/d/y'']" by code_simp+
  have "mapping id side_by_side \<noteq> None" by code_simp
  then obtain es where es: "mapping id side_by_side = Some es" by blast
  have "map owId (mWorkspaces side_by_side) = [''1'', ''2'']"
    "\<not> user_part (path_name CHR ''/'' (parts_of ''/d/y''))"
    "path_name CHR ''/'' (parts_of ''/d/y'') = ''/d/y''" by code_simp+
  then show ?thesis using es mapping_splits_paths [OF m es]
    by (auto simp: Let_def comp_def dest: spec [of _ 1] simp flip: map_map)
qed

text \<open>C33. In every state the page reaches, the old workspaces are shared out between those to migrate and
  those already mapped, none lost and none twice, and the page starts at a multiple of its size.\<close>

theorem workspaces_shared_out:
  assumes "distinct (map owId props)" "mapper_reachable base64 props cells m"
  shows "mset (mWorkspaces m) + mset (mMapped m) = mset props \<and> 0 \<le> mOffset m \<and> mLimit m dvd mOffset m"
  using mapper_reachable_ok [OF assms(2,1)] by (simp add: mapper_ok_def)

lemma workspaces_shared_out_witness: "mset (mWorkspaces box_cleared) + mset (mMapped box_cleared) = {#ws_at ''1'' ''/d/x''#}"
proof -
  have "''1'' \<in> set (mCells (newMapper [ws_at ''1'' ''/d/x''] [''1'']))"
    "toggleRemap [ws_at ''1'' ''/d/x''] (''1'' \<notin> owId ` set (mMapped (newMapper [ws_at ''1'' ''/d/x''] [''1'']))) ''1''
       (newMapper [ws_at ''1'' ''/d/x''] [''1'']) = Some box_cleared"
    by (simp_all add: box_cleared_def newMapper_def toggleRemap_def ws_at_def)
  then have "mapper_reachable id [ws_at ''1'' ''/d/x''] [''1''] box_cleared"
    by (rule mapper_reachable_step [OF mapper_reachable_start mapper_step.toggled])
  from workspaces_shared_out [OF _ this] show ?thesis by simp
qed

text \<open>A workspace that was given its root node and is then marked again as mapped is handed on twice:
  as one to create and as an existing one.\<close>

lemma mapped_and_created:
  assumes "mMapping m = Some es" "e \<in> set es" "meRootNode e = Some node"
    "toggleRemap props True (owId (meWs e)) m = Some m'"
  shows "\<exists>r. handleNext base64 m' = Some r \<and> owId (meWs e) \<in> fst ` set (rCreate r) \<and>
    owId (meWs e) \<in> fst ` set (rExisting r)"
proof -
  from assms(4) have "\<exists>w. owId w = owId (meWs e) \<and> mMapped m' = mMapped m @ [w]" "mMapping m' = mMapping m"
    unfolding toggleRemap_def by (auto split: list.splits dest!: filter_eq_ConsD)
  then show ?thesis using assms(1-3)
    by (auto simp: handleNext_def mapping_def created_keys created_keeps_existing existing_keys simp del: fold_append)
qed

end
