(* ===== verification/NodeMetas.thy ===== *)
theory NodeMetas
  imports Json Systems "HOL-Library.Multiset"
begin

text \<open>
  \<open>MetaClient.js\<close> (\<open>meta.user/res/js\<close>): the user-defined metadata of nodes. The client loads the
  definitions of the namespaces once, shares the request among its callers, and saves the values of
  a form as one update per node.

  A definition is an object of JSON values; \<open>order\<close> counts when it is a number, as the server sends
  it. The namespaces' names are no array indices, so objects keep the order of insertion. A promise
  is the number of its request. The waiting saves are the continuations \<open>saveMeta\<close> put on a promise.
\<close>

section \<open>Definitions of namespaces\<close>

record namespace =
  nsName :: string
  nsLabel :: string
  nsIndexable :: bool
  nsOrder :: int
  nsEditable :: bool
  nsDefinition :: string

type_synonym meta_config = "(string, json) obj"

text \<open>The properties \<open>Object.keys\<close> lists; it throws on \<open>null\<close>.\<close>

definition json_entries :: "json \<Rightarrow> (string \<times> json) list option" where
  "json_entries j =
     (case j of
        JNull \<Rightarrow> None
      | JObj fs \<Rightarrow> Some fs
      | JArr xs \<Rightarrow> Some (map (\<lambda>(i, x). (nat_str i, x)) (enumerate 0 xs))
      | JStr s \<Rightarrow> Some (map (\<lambda>(i, c). (nat_str i, JStr [c])) (enumerate 0 s))
      | _ \<Rightarrow> Some [])"

definition base_config :: "namespace \<Rightarrow> meta_config" where
  "base_config ns =
     [(''label'', JStr (nsLabel ns)), (''indexable'', JBool (nsIndexable ns)), (''order'', JNum (nsOrder ns)),
      (''visible'', JBool True), (''readonly'', JBool (\<not> nsEditable ns))]"

definition config_of :: "namespace \<Rightarrow> meta_config option" where
  "config_of ns =
     (if nsDefinition ns = [] then Some (base_config ns)
      else case parse_json (nsDefinition ns) of
        None \<Rightarrow> None
      | Some j \<Rightarrow> map_option (\<lambda>fs. fold (\<lambda>(k, v). obj_set k v) fs (base_config ns)) (json_entries j))"

fun collect_defs :: "namespace list \<Rightarrow> (string, meta_config) obj \<Rightarrow> (string, meta_config) obj option" where
  "collect_defs [] defs = Some defs"
| "collect_defs (ns # nss) defs =
     (case config_of ns of
        None \<Rightarrow> None
      | Some base \<Rightarrow> collect_defs nss (obj_set (nsName ns) base defs))"

definition order_of :: "meta_config \<Rightarrow> int" where
  "order_of c = (case map_of c ''order'' of Some (JNum n) \<Rightarrow> n | _ \<Rightarrow> 0)"

text \<open>The old format of the choices, \<open>key|label,key|label\<close>, becomes a list of items.\<close>

definition choice_item :: "string \<Rightarrow> json" where
  "choice_item i =
     (case js_split CHR ''|'' i of
        k # v # _ \<Rightarrow> JObj [(''key'', JStr k), (''value'', JStr v)]
      | k # _ \<Rightarrow> JObj [(''key'', JStr k)]
      | [] \<Rightarrow> JObj [])"

definition convert_choice :: "meta_config \<Rightarrow> meta_config" where
  "convert_choice c =
     (case (map_of c ''type'', map_of c ''data'') of
        (Some (JStr t), Some (JStr d)) \<Rightarrow>
          if t = ''choice'' \<and> d \<noteq> [] then
            obj_set ''data'' (JObj [(''items'', JArr (map choice_item (js_split CHR '','' d)))]) c
          else c
      | _ \<Rightarrow> c)"

definition configs_of :: "namespace list \<Rightarrow> (string, meta_config) obj option" where
  "configs_of nss =
     map_option (\<lambda>defs. map (\<lambda>(name, c). (name, convert_choice c))
         (sort_key (\<lambda>(name, c). order_of c) (map (\<lambda>(name, c). (name, obj_set ''ns'' (JStr name) c)) defs)))
       (collect_defs nss [])"

section \<open>The client\<close>

record meta_update =
  muNode :: string
  muNamespace :: string
  muJson :: string

record update_request =
  urNode :: string
  urMetas :: "meta_update list"

record meta_client =
  mcConfigs :: "(string, meta_config) obj option"
  mcPromise :: "nat option"
  mcRequests :: nat                                   \<comment> \<open>requests for the definitions sent so far\<close>
  mcSaves :: "(nat \<times> string list \<times> (string, json) obj) list"
  mcSent :: "update_request list"

definition newMetaClient :: meta_client where
  "newMetaClient = \<lparr>mcConfigs = None, mcPromise = None, mcRequests = 0, mcSaves = [], mcSent = []\<rparr>"

text \<open>The definitions, or the promise to wait for.\<close>

definition loadConfigs :: "meta_client \<Rightarrow> ((string, meta_config) obj + nat) \<times> meta_client" where
  "loadConfigs m =
     (case (mcConfigs m, mcPromise m) of
        (Some c, _) \<Rightarrow> (Inl c, m)
      | (None, Some p) \<Rightarrow> (Inr p, m)
      | (None, None) \<Rightarrow> (Inr (mcRequests m), m\<lparr>mcPromise := Some (mcRequests m), mcRequests := Suc (mcRequests m)\<rparr>))"

text \<open>All metadata are readable and writable by everyone who sees the node.\<close>

definition update_of :: "(string, meta_config) obj \<Rightarrow> (string, json) obj \<Rightarrow> string \<Rightarrow> update_request" where
  "update_of cs values node =
     \<lparr>urNode = node,
      urMetas = concat (map (\<lambda>(name, c). case map_of values name of
          None \<Rightarrow> [] | Some v \<Rightarrow> [\<lparr>muNode = node, muNamespace = name, muJson = print_json v\<rparr>]) cs)\<rparr>"

definition saveMeta :: "string list \<Rightarrow> (string, json) obj \<Rightarrow> meta_client \<Rightarrow> meta_client" where
  "saveMeta nodes values m =
     (case loadConfigs m of
        (Inl c, m1) \<Rightarrow> m1\<lparr>mcSent := mcSent m1 @ map (update_of c values) nodes\<rparr>
      | (Inr p, m1) \<Rightarrow> m1\<lparr>mcSaves := mcSaves m1 @ [(p, nodes, values)]\<rparr>)"

definition settle :: "nat \<Rightarrow> (string, meta_config) obj \<Rightarrow> meta_client \<Rightarrow> meta_client" where
  "settle p c m =
     m\<lparr>mcPromise := None,
       mcSent := mcSent m @ concat (map (\<lambda>(q, nodes, values). map (update_of c values) nodes)
                                     (filter (\<lambda>(q, _). q = p) (mcSaves m))),
       mcSaves := filter (\<lambda>(q, _). q \<noteq> p) (mcSaves m)\<rparr>"

text \<open>The answer to the request \<open>p\<close>: definitions that cannot be read count as a failure, which gives
  the callers no definition at all and leaves the client without.\<close>

definition namespaces_answered :: "nat \<Rightarrow> namespace list option \<Rightarrow> meta_client \<Rightarrow> meta_client" where
  "namespaces_answered p answer m =
     (case answer of
        None \<Rightarrow> settle p [] m
      | Some nss \<Rightarrow>
          (case configs_of nss of
             None \<Rightarrow> settle p [] m
           | Some c \<Rightarrow> settle p c (m\<lparr>mcConfigs := Some c\<rparr>)))"

definition clearConfigs :: "meta_client \<Rightarrow> meta_client" where
  "clearConfigs m = m\<lparr>mcConfigs := None\<rparr>"

section \<open>The client's states\<close>

datatype meta_event = LoadConfigs | SaveMeta "string list" "(string, json) obj" | Clear | Answer nat "namespace list option"

text \<open>The requests under way, beside the client.\<close>

definition meta_step :: "meta_event \<Rightarrow> nat list \<times> meta_client \<Rightarrow> (nat list \<times> meta_client) option" where
  "meta_step ev = (\<lambda>(open_reqs, m).
     case ev of
       Answer p a \<Rightarrow> if p \<in> set open_reqs then Some (remove1 p open_reqs, namespaces_answered p a m) else None
     | _ \<Rightarrow>
         let m' = (case ev of LoadConfigs \<Rightarrow> snd (loadConfigs m) | SaveMeta ns vs \<Rightarrow> saveMeta ns vs m | _ \<Rightarrow> clearConfigs m)
         in Some (open_reqs @ [mcRequests m..<mcRequests m'], m'))"

definition meta_reachable :: "nat list \<Rightarrow> meta_client \<Rightarrow> bool" where
  "meta_reachable reqs m \<longleftrightarrow> reach ((=) ([], newMetaClient)) (\<lambda>s t. \<exists>ev. meta_step ev s = Some t) (reqs, m)"

lemma meta_reachable_start: "meta_reachable [] newMetaClient"
  by (simp add: meta_reachable_def reach.started)

lemma meta_reachable_step: "meta_reachable reqs m \<Longrightarrow> meta_step ev (reqs, m) = Some (reqs', m') \<Longrightarrow> meta_reachable reqs' m'"
  unfolding meta_reachable_def by (blast intro: reach.stepped)

definition meta_ok :: "nat list \<Rightarrow> meta_client \<Rightarrow> bool" where
  "meta_ok reqs m \<longleftrightarrow>
     reqs = (case mcPromise m of None \<Rightarrow> [] | Some p \<Rightarrow> [p]) \<and>
     (\<forall>(p, nodes, values) \<in> set (mcSaves m). mcPromise m = Some p)"

lemma meta_ok_load:
  assumes "meta_ok reqs m" "loadConfigs m = (r, m')"
  shows "meta_ok (reqs @ [mcRequests m..<mcRequests m']) m' \<and> mcSaves m' = mcSaves m \<and>
    (case r of Inl c \<Rightarrow> mcConfigs m = Some c | Inr p \<Rightarrow> mcPromise m' = Some p)"
  using assms unfolding meta_ok_def loadConfigs_def
  by (auto split: option.splits)

lemma meta_ok_save:
  assumes "meta_ok reqs m"
  shows "meta_ok (reqs @ [mcRequests m..<mcRequests (saveMeta nodes values m)]) (saveMeta nodes values m)"
proof -
  obtain r m1 where l: "loadConfigs m = (r, m1)" by fastforce
  from meta_ok_load [OF assms l] show ?thesis
    by (cases r) (auto simp: saveMeta_def l meta_ok_def)
qed

lemma meta_ok_answer:
  assumes "meta_ok reqs m" "p \<in> set reqs"
  shows "meta_ok (remove1 p reqs) (namespaces_answered p a m)"
  using assms by (auto simp: meta_ok_def namespaces_answered_def settle_def split: option.splits)

lemma meta_ok_step: "meta_ok reqs m \<Longrightarrow> meta_step ev (reqs, m) = Some (reqs', m') \<Longrightarrow> meta_ok reqs' m'"
proof (cases ev)
  case LoadConfigs
  assume "meta_ok reqs m" "meta_step ev (reqs, m) = Some (reqs', m')"
  then show ?thesis using LoadConfigs meta_ok_load [of reqs m] by (cases "loadConfigs m") (auto simp: meta_step_def)
next
  case (SaveMeta nodes vals)
  assume "meta_ok reqs m" "meta_step ev (reqs, m) = Some (reqs', m')"
  then show ?thesis using SaveMeta meta_ok_save by (auto simp: meta_step_def Let_def)
next
  case Clear
  assume "meta_ok reqs m" "meta_step ev (reqs, m) = Some (reqs', m')"
  then show ?thesis using Clear by (auto simp: meta_step_def meta_ok_def clearConfigs_def)
next
  case (Answer p a)
  assume "meta_ok reqs m" "meta_step ev (reqs, m) = Some (reqs', m')"
  then show ?thesis using Answer meta_ok_answer by (auto simp: meta_step_def split: if_splits)
qed

interpretation metadata_client: reactive_system "(=) ([], newMetaClient)" "\<lambda>s t. \<exists>ev. meta_step ev s = Some t"
  "\<lambda>(reqs, m). meta_ok reqs m"
  by unfold_locales (auto intro: meta_ok_step simp: meta_ok_def [of "[]"] newMetaClient_def)

lemma meta_reachable_ok: "meta_reachable reqs m \<Longrightarrow> meta_ok reqs m"
  unfolding meta_reachable_def by (drule metadata_client.reached) simp

section \<open>The definitions\<close>

lemma map_of_fold_other: "k \<notin> fst ` set fs \<Longrightarrow> map_of (fold (\<lambda>(k, v). obj_set k v) fs o1) k = map_of o1 k"
  by (induction fs arbitrary: o1) (auto simp: update_conv)

lemma collect_defs_keys:
  "collect_defs nss defs = Some ds \<Longrightarrow> distinct (map fst defs) \<Longrightarrow>
    distinct (map fst ds) \<and> set (map fst ds) = set (map fst defs) \<union> nsName ` set nss"
proof (induction nss arbitrary: defs)
  case (Cons ns nss)
  then show ?case by (auto split: option.splits simp: dom_update distinct_update)
qed simp

lemma convert_choice_order: "order_of (convert_choice c) = order_of c"
  by (auto simp: convert_choice_def order_of_def update_conv split: option.splits json.splits)

lemma configs_of_sorted:
  assumes "configs_of nss = Some cs"
  shows "distinct (map fst cs) \<and> set (map fst cs) = nsName ` set nss \<and> sorted (map (order_of \<circ> snd) cs)"
proof -
  from assms obtain ds where ds: "collect_defs nss [] = Some ds"
    and cs: "cs = map (\<lambda>(name, c). (name, convert_choice c))
      (sort_key (\<lambda>(name, c). order_of c) (map (\<lambda>(name, c). (name, obj_set ''ns'' (JStr name) c)) ds))"
    by (auto simp: configs_of_def)
  define es where "es = map (\<lambda>(name, c). (name, obj_set ''ns'' (JStr name) c)) ds"
  have f: "map fst es = map fst ds" by (auto simp: es_def)
  have cs: "cs = map (\<lambda>(name, c). (name, convert_choice c)) (sort_key (\<lambda>(name, c). order_of c) es)"
    using cs by (simp add: es_def)
  have names: "map fst cs = map fst (sort_key (\<lambda>(name, c). order_of c) es)" by (auto simp: cs)
  have "distinct (map fst (sort_key (\<lambda>(name, c). order_of c) es)) \<longleftrightarrow> distinct (map fst es)"
    by (metis mset_eq_imp_distinct_iff mset_map mset_sort)
  moreover have "map (order_of \<circ> snd) cs = map (\<lambda>(name, c). order_of c) (sort_key (\<lambda>(name, c). order_of c) es)"
    by (auto simp: cs convert_choice_order)
  moreover have "set (map fst cs) = set (map fst es)" by (simp only: names set_map set_sort)
  ultimately show ?thesis using collect_defs_keys [OF ds] names f by simp
qed

end
