(* ===== verification/NodeMetaProperties.thy ===== *)
theory NodeMetaProperties
  imports NodeMetas
begin


text \<open>The definitions handed to the callers are those of the namespaces the server lists, each name
  once, in the order of their \<open>order\<close>.\<close>

lemma definitions_sorted:
  assumes "configs_of nss = Some cs"
  shows "distinct (map fst cs) \<and> set (map fst cs) = nsName ` set nss \<and> sorted (map (order_of \<circ> snd) cs)"
  by (rule configs_of_sorted [OF assms])


text \<open>C34. In every state the client reaches at most one request for the definitions is under way; its
  promise is the one later callers get, and every waiting save waits for it.\<close>

theorem one_request_at_a_time:
  assumes "meta_reachable reqs m"
  shows "reqs = (case mcPromise m of None \<Rightarrow> [] | Some p \<Rightarrow> [p]) \<and>
    (\<forall>(p, nodes, vals) \<in> set (mcSaves m). mcPromise m = Some p)"
  using meta_reachable_ok [OF assms] by (simp add: meta_ok_def)

definition saving :: meta_client where
  "saving = saveMeta [''n1''] [(''usermeta-tags'', JStr ''red''), (''other'', JNull)] (snd (loadConfigs newMetaClient))"

lemma saving_reachable: "meta_reachable [0] saving"
proof -
  have "meta_reachable [0] (snd (loadConfigs newMetaClient))"
    by (rule meta_reachable_step [OF meta_reachable_start, of LoadConfigs]) code_simp
  then show ?thesis
    by (rule meta_reachable_step [of _ _ "SaveMeta [''n1''] [(''usermeta-tags'', JStr ''red''), (''other'', JNull)]"]) code_simp
qed

lemma one_request_at_a_time_witness: "mcPromise saving = Some 0"
  using one_request_at_a_time [OF saving_reachable] by (auto split: option.splits)



text \<open>When the definitions cannot be loaded or read, each waiting save sends an update without any
  value for each of its nodes, and its caller is told it succeeded: the values are lost.\<close>

lemma failed_definitions_lose_values:
  assumes "(p, nodes, vals) \<in> set (mcSaves m)" "node \<in> set nodes" "answer = None \<or> configs_of (the answer) = None"
  shows "\<lparr>urNode = node, urMetas = []\<rparr> \<in> set (mcSent (namespaces_answered p answer m)) \<and>
    (p, nodes, vals) \<notin> set (mcSaves (namespaces_answered p answer m))"
proof -
  have "namespaces_answered p answer m = settle p [] m"
    using assms(3) by (auto simp: namespaces_answered_def split: option.splits)
  moreover have "update_of [] vals node = \<lparr>urNode = node, urMetas = []\<rparr>" by (simp add: update_of_def)
  ultimately show ?thesis using assms(1,2) by (force simp: settle_def)
qed

text \<open>Definitions cleared while a request is under way come back with its answer.\<close>

lemma cleared_too_early:
  assumes "configs_of nss = Some cs"
  shows "mcConfigs (namespaces_answered p (Some nss) (clearConfigs m)) = Some cs"
  using assms by (simp add: namespaces_answered_def settle_def)

end
