(* ===== verification/Recents.thy ===== *)
theory Recents
  imports Paths
begin

text \<open>
  The recent nodes of the home page (\<open>access.homepage/res/js/recent/SmartRecents.js\<close>): the loader
  gathers resolvers from the user's activities, bookmarks and workspaces, resolves them one after
  the other, and the page shows a card for each node.

  A resolver refreshes a node on the server and writes into the fresh one; the server is the
  parameter \<open>refresh\<close> (\<open>None\<close> for its error callback), the dates in words the parameter \<open>fromNow\<close>.
  An answer is \<open>None\<close> when the request fails.
\<close>

section \<open>Nodes and resolvers\<close>

record rnode =
  rnPath :: string
  rnLeaf :: bool
  rnLabel :: string
  rnRoot :: bool
  rnMeta :: "(string, string) obj"

definition new_node :: "string \<Rightarrow> bool \<Rightarrow> string \<Rightarrow> rnode" where
  "new_node path leaf label = \<lparr>rnPath = path, rnLeaf = leaf, rnLabel = label, rnRoot = False, rnMeta = []\<rparr>"

definition set_meta :: "string \<Rightarrow> string \<Rightarrow> rnode \<Rightarrow> rnode" where
  "set_meta k v n = n\<lparr>rnMeta := obj_set k v (rnMeta n)\<rparr>"

definition uuid :: "rnode \<Rightarrow> string option" where
  "uuid n = map_of (rnMeta n) ''uuid''"

record resolver =
  rsNode :: rnode
  rsPatch :: "rnode \<Rightarrow> rnode"

definition resolve :: "(rnode \<Rightarrow> rnode option) \<Rightarrow> resolver \<Rightarrow> rnode option" where
  "resolve refresh r = map_option (rsPatch r) (refresh (rsNode r))"

section \<open>Activities\<close>

record as_workspace =
  awId :: string
  awName :: string
  awRel :: string

record as_object =
  aoDocument :: bool
  aoPartOf :: "as_workspace list"        \<comment> \<open>empty when it is part of nothing\<close>

record activity =
  acObject :: "as_object option"
  acUpdated :: string

text \<open>The loop returns at its first turn.\<close>

definition nodeFromActivityObject :: "as_object \<Rightarrow> rnode option" where
  "nodeFromActivityObject obj =
     (case aoPartOf obj of
        [] \<Rightarrow> None
      | ws # _ \<Rightarrow>
          let relPath = js_join ''/'' (tl (js_split CHR ''/'' (awRel ws)));
              root = (relPath = []);
              node = new_node (if root then ''/'' else relPath) (aoDocument obj)
                       (if root then awName ws else getBasename relPath)
          in Some (set_meta ''repository_label'' (awName ws)
               (set_meta ''repository_id'' (awId ws) (node\<lparr>rnRoot := root\<rparr>))))"

definition activity_resolver :: "(string \<Rightarrow> string) \<Rightarrow> activity \<Rightarrow> resolver option" where
  "activity_resolver fromNow a =
     (case acObject a of
        None \<Rightarrow> None
      | Some obj \<Rightarrow> map_option (\<lambda>n. \<lparr>rsNode = n, rsPatch = (\<lambda>fresh.
            let f1 = set_meta ''repository_id'' (the (map_of (rnMeta n) ''repository_id'')) fresh;
                f2 = (if rnPath f1 = [] \<or> rnPath f1 = ''/'' then
                        f1\<lparr>rnLabel := the (map_of (rnMeta n) ''repository_label'')\<rparr> else f1)
            in set_meta ''card_legend'' (fromNow (acUpdated a)) f2)\<rparr>)
          (nodeFromActivityObject obj))"

text \<open>A failed request gives no activities; so does an answer without items.\<close>

definition loadActivities :: "(string \<Rightarrow> string) \<Rightarrow> activity list option \<Rightarrow> resolver list" where
  "loadActivities fromNow answer =
     (case answer of None \<Rightarrow> [] | Some items \<Rightarrow> List.map_filter (activity_resolver fromNow) items)"

section \<open>Bookmarks and workspaces\<close>

record bookmark =
  bmLeaf :: bool
  bmAppearsIn :: "(string \<times> string) list"   \<comment> \<open>path and workspace, empty when absent\<close>

definition bookmark_resolver :: "bookmark \<Rightarrow> resolver option" where
  "bookmark_resolver b =
     (case bmAppearsIn b of
        [] \<Rightarrow> None
      | (path, ws) # _ \<Rightarrow> Some \<lparr>
          rsNode = set_meta ''repository_id'' ws (new_node (if path = [] then ''/'' else path) (bmLeaf b) []),
          rsPatch = (\<lambda>fresh. set_meta ''repository_id'' ws (set_meta ''card_legend'' ''Bookmarked'' fresh))\<rparr>)"

definition loadBookmarks :: "bookmark list \<Rightarrow> resolver list" where
  "loadBookmarks nodes = List.map_filter bookmark_resolver (take 4 nodes)"

record repository =
  rpId :: string
  rpLabel :: string
  rpType :: string

definition workspace_resolver :: "repository \<Rightarrow> resolver" where
  "workspace_resolver r =
     (let icon = (if rpType r = ''workspace-personal'' then ''folder-account''
                  else if rpType r = ''cell'' then ''icomoon-cells'' else ''folder'');
          legend = (if rpType r = ''cell'' then ''Cell'' else ''Workspace'')
      in \<lparr>rsNode = set_meta ''repository_id'' (rpId r) (new_node ''/'' False (rpLabel r)),
          rsPatch = (\<lambda>fresh. set_meta ''fonticon'' icon (set_meta ''card_legend'' legend
             (set_meta ''repository_id'' (rpId r) (fresh\<lparr>rnLabel := rpLabel r\<rparr>))))\<rparr>)"

definition workspacesAsNodes :: "repository list \<Rightarrow> resolver list" where
  "workspacesAsNodes repos =
     map workspace_resolver (filter (\<lambda>r. rpId r \<noteq> ''homepage'' \<and> rpId r \<noteq> ''settings'') (take 10 repos))"

section \<open>Loading\<close>

text \<open>\<open>allKeys\<close> holds the identifiers seen; an absent or empty one never counts as seen.\<close>

definition seen :: "string option \<Rightarrow> string list \<Rightarrow> bool" where
  "seen k allKeys \<longleftrightarrow> (case k of None \<Rightarrow> False | Some u \<Rightarrow> u \<noteq> [] \<and> u \<in> set allKeys)"

definition add_key :: "string option \<Rightarrow> string list \<Rightarrow> string list" where
  "add_key k allKeys = (case k of None \<Rightarrow> allKeys | Some u \<Rightarrow> allKeys @ [u])"

fun resolveNext :: "(rnode \<Rightarrow> rnode option) \<Rightarrow> nat \<Rightarrow> resolver list \<Rightarrow> rnode list \<Rightarrow> string list \<Rightarrow> rnode list" where
  "resolveNext refresh maxi resolvers allNodes allKeys =
     (if length allNodes > maxi then allNodes
      else case resolvers of
        [] \<Rightarrow> allNodes
      | next # rest \<Rightarrow>
          (case resolve refresh next of
             Some node \<Rightarrow>
               if \<not> seen (uuid node) allKeys then
                 resolveNext refresh maxi rest (allNodes @ [node]) (add_key (uuid node) allKeys)
               else resolveNext refresh maxi rest allNodes allKeys
           | None \<Rightarrow> resolveNext refresh maxi rest allNodes allKeys))"

declare resolveNext.simps [simp del]

text \<open>The whole loading. The promise of the bookmarks has no failure branch: when their request fails
  nothing is ever loaded.\<close>

definition load :: "(rnode \<Rightarrow> rnode option) \<Rightarrow> (string \<Rightarrow> string) \<Rightarrow> activity list option \<Rightarrow> bookmark list option \<Rightarrow>
    repository list \<Rightarrow> rnode list option" where
  "load refresh fromNow activities bookmarks repos =
     (case bookmarks of
        None \<Rightarrow> None
      | Some bs \<Rightarrow> Some (resolveNext refresh 8
          (loadActivities fromNow activities @ loadBookmarks bs @ workspacesAsNodes repos) [] []))"

record recents =
  shown_nodes :: "rnode list"
  loading :: bool

definition componentDidMount :: "rnode list option \<Rightarrow> recents" where
  "componentDidMount loaded =
     (case loaded of
        None \<Rightarrow> \<lparr>shown_nodes = [], loading = True\<rparr>
      | Some nodes \<Rightarrow> \<lparr>shown_nodes = nodes, loading = False\<rparr>)"

text \<open>The cards of the page.\<close>

fun cards :: "rnode list \<Rightarrow> string list \<Rightarrow> rnode list \<Rightarrow> rnode list" where
  "cards [] ks cs = cs"
| "cards (n # ns) ks cs =
     (if seen (uuid n) ks \<or> length cs \<ge> 8 then cards ns ks cs
      else cards ns (add_key (uuid n) ks) (cs @ [n]))"

section \<open>What is loaded\<close>

text \<open>The first of the nodes with each identifier; nodes without one are all kept.\<close>

fun first_seen :: "string list \<Rightarrow> rnode list \<Rightarrow> rnode list" where
  "first_seen ks [] = []"
| "first_seen ks (n # ns) =
     (if seen (uuid n) ks then first_seen ks ns else n # first_seen (add_key (uuid n) ks) ns)"

lemma resolveNext_full [simp]: "length acc > maxi \<Longrightarrow> resolveNext refresh maxi rs acc ks = acc"
  by (subst resolveNext.simps) simp

lemma resolveNext_prefix:
  "length acc \<le> Suc maxi \<Longrightarrow> resolveNext refresh maxi rs acc ks =
     acc @ take (Suc maxi - length acc) (first_seen ks (List.map_filter (resolve refresh) rs))"
proof (induction rs arbitrary: acc ks)
  case Nil
  then show ?case by (subst resolveNext.simps) (simp add: List.map_filter_def)
next
  case (Cons r rs)
  show ?case
  proof (cases "length acc > maxi")
    case True
    then show ?thesis using Cons.prems by simp
  next
    case False
    then have "Suc maxi - length acc = Suc (maxi - length acc)" by simp
    then show ?thesis using False Cons.prems Cons.IH
      by (subst resolveNext.simps) (auto simp: map_filter_simps split: option.splits)
  qed
qed

lemma first_seen_keys:
  "distinct (filter (\<lambda>u. u \<noteq> []) (List.map_filter uuid (first_seen ks ns))) \<and>
   set (filter (\<lambda>u. u \<noteq> []) (List.map_filter uuid (first_seen ks ns))) \<inter> set ks = {}"
proof (induction ns arbitrary: ks)
  case (Cons n ns)
  show ?case
  proof (cases "uuid n")
    case None
    then show ?thesis using Cons [of ks] by (simp add: seen_def add_key_def map_filter_simps)
  next
    case (Some u)
    then show ?thesis using Cons [of ks] Cons [of "ks @ [u]"]
      by (auto simp: seen_def add_key_def map_filter_simps)
  qed
qed (simp add: map_filter_simps)

lemma first_seen_idem: "first_seen ks (first_seen ks ns) = first_seen ks ns"
  by (induction ns arbitrary: ks) auto

lemma first_seen_take: "first_seen ks (take k (first_seen ks ns)) = take k (first_seen ks ns)"
proof (induction ns arbitrary: ks k)
  case (Cons n ns)
  then show ?case by (cases k) auto
qed simp

lemma cards_prefix:
  "length cs \<le> 8 \<Longrightarrow> cards ns ks cs = cs @ take (8 - length cs) (first_seen ks ns)"
proof (induction ns arbitrary: ks cs)
  case (Cons n ns)
  show ?case
  proof (cases "length cs = 8")
    case True
    then have "cards ns ks cs = cs" using Cons.IH [of cs ks] by simp
    then show ?thesis using True by simp
  next
    case False
    then have "8 - length cs = Suc (7 - length cs)" using Cons.prems by simp
    then show ?thesis using False Cons.prems Cons.IH by auto
  qed
qed simp

lemma load_prefix:
  "load refresh fromNow activities (Some bs) repos =
     Some (take 9 (first_seen [] (List.map_filter (resolve refresh)
        (loadActivities fromNow activities @ loadBookmarks bs @ workspacesAsNodes repos))))"
  by (simp add: load_def resolveNext_prefix)

lemma cards_of_load:
  "cards (take 9 (first_seen [] ns)) [] [] = take 8 (first_seen [] ns)"
  by (simp add: cards_prefix first_seen_take)

end
