(* ===== verification/HomeCards.thy ===== *)
theory HomeCards
  imports Paths
begin

text \<open>
  The cards of a dashboard (\<open>gui.ajax/res/js/ui/Components/dynamic-grid/Store.js\<close>), kept in the
  user's \<open>gui_preferences\<close> under a key with the namespace of the dashboard.

  A card is an identifier, a title and other data. The draws of \<open>Math.random\<close>, already rounded to
  whole numbers from 10 to 110, are a list: the recursion of \<open>createCardId\<close> takes the next one at
  each turn, so \<open>None\<close> says that it is still running when the list is used up.
\<close>

record 'a card =
  cdId :: string
  cdTitle :: string
  cdData :: 'a

text \<open>A preference is \<open>None\<close> when \<open>null\<close> is stored; \<open>csSaved\<close> counts the saves sent, \<open>csNotified\<close> is
  what the observers of \<open>cards\<close> were handed.\<close>

record 'a card_store =
  csNamespace :: string
  csCards :: "'a card list"
  csPrefs :: "(string, 'a card list option) obj"
  csSaved :: nat
  csNotified :: "'a card list list"

definition getCardsPreference :: "string \<Rightarrow> 'a card_store \<Rightarrow> 'a card list option" where
  "getCardsPreference name s =
     (case map_of (csPrefs s) (csNamespace s @ name) of Some v \<Rightarrow> v | None \<Rightarrow> None)"

definition newCardStore :: "string \<Rightarrow> 'a card list \<Rightarrow> (string, 'a card list option) obj \<Rightarrow> 'a card_store" where
  "newCardStore ns defaults prefs =
     (let s = \<lparr>csNamespace = ns, csCards = [], csPrefs = prefs, csSaved = 0, csNotified = []\<rparr>
      in s\<lparr>csCards := (case getCardsPreference ''Cards'' s of Some cs \<Rightarrow> cs | None \<Rightarrow> defaults)\<rparr>)"

definition saveCardsPreference :: "string \<Rightarrow> 'a card list option \<Rightarrow> 'a card_store \<Rightarrow> 'a card_store" where
  "saveCardsPreference name v s =
     s\<lparr>csPrefs := obj_set (csNamespace s @ name) v (csPrefs s), csSaved := Suc (csSaved s)\<rparr>"

definition saveCards :: "'a card list \<Rightarrow> 'a card_store \<Rightarrow> 'a card_store" where
  "saveCards cs s = saveCardsPreference ''Cards'' (Some cs) s"

definition resetCards :: "'a card_store \<Rightarrow> 'a card_store" where
  "resetCards s = saveCardsPreference ''Cards'' None s"

definition setCards :: "'a card list \<Rightarrow> 'a card_store \<Rightarrow> 'a card_store" where
  "setCards cs s = saveCards cs (s\<lparr>csCards := cs, csNotified := csNotified s @ [cs]\<rparr>)"

definition card_index :: "string \<Rightarrow> 'a card list \<Rightarrow> int" where
  "card_index i cs = foldl (\<lambda>index (k, c). if cdId c = i then int k else index) (- 1) (enumerate 0 cs)"

definition removeCard :: "string \<Rightarrow> 'a card_store \<Rightarrow> 'a card_store" where
  "removeCard i s =
     (let cs = csCards s; index = card_index i cs in
      if index = - 1 then s
      else if index = 0 then setCards (js_slice_from cs 1) s
      else if index = int (length cs) - 1 then setCards (js_slice cs 0 (- 1)) s
      else setCards (js_slice cs 0 index @ js_slice_from cs (index + 1)) s)"

definition taken :: "string \<Rightarrow> 'a card list \<Rightarrow> bool" where
  "taken i cs \<longleftrightarrow> (\<exists>c \<in> set cs. cdId c = i)"

fun random_id :: "string \<Rightarrow> nat list \<Rightarrow> 'a card list \<Rightarrow> string option" where
  "random_id slug [] cs = None"
| "random_id slug (d # ds) cs =
     (let i = slug @ ''-'' @ nat_str d in if taken i cs then random_id slug ds cs else Some i)"

definition createCardId :: "nat list \<Rightarrow> string \<Rightarrow> 'a card list \<Rightarrow> string option" where
  "createCardId draws title cs =
     (let slug = computeStringSlug title in if taken slug cs then random_id slug draws cs else Some slug)"

definition addCard :: "nat list \<Rightarrow> 'a card \<Rightarrow> 'a card_store \<Rightarrow> 'a card_store option" where
  "addCard draws c s =
     map_option (\<lambda>i. setCards (csCards s @ [c\<lparr>cdId := i\<rparr>]) s) (createCardId draws (cdTitle c) (csCards s))"

section \<open>Facts\<close>

definition cards_ok :: "'a card_store \<Rightarrow> bool" where
  "cards_ok s \<longleftrightarrow> distinct (map cdId (csCards s))"

lemma setCards_sel [simp]:
  "csCards (setCards cs s) = cs" "getCardsPreference ''Cards'' (setCards cs s) = Some cs"
  "csNamespace (setCards cs s) = csNamespace s"
  by (simp_all add: setCards_def saveCards_def saveCardsPreference_def getCardsPreference_def update_conv)

lemma random_id_fresh: "random_id slug ds cs = Some i \<Longrightarrow> \<not> taken i cs"
  by (induction ds) (auto simp: Let_def split: if_splits)

lemma createCardId_fresh: "createCardId ds title cs = Some i \<Longrightarrow> \<not> taken i cs"
  by (auto simp: createCardId_def Let_def random_id_fresh split: if_splits)

lemma random_id_ends: "(\<exists>d \<in> set ds. \<not> taken (slug @ ''-'' @ nat_str d) cs) \<longleftrightarrow> random_id slug ds cs \<noteq> None"
  by (induction ds) (auto simp: Let_def)

lemma card_index_absent: "i \<notin> cdId ` set cs \<Longrightarrow> card_index i cs = - 1"
proof -
  have "i \<notin> cdId ` set ys \<Longrightarrow> foldl (\<lambda>index (k, c). if cdId c = i then int k else index) j (enumerate n ys) = j" for j n and ys :: "'a card list"
    by (induction ys arbitrary: j n) auto
  then show "i \<notin> cdId ` set cs \<Longrightarrow> card_index i cs = - 1" by (simp add: card_index_def)
qed

lemma card_index_last:
  assumes "cdId c = i" "i \<notin> cdId ` set zs"
  shows "card_index i (ys @ c # zs) = int (length ys)"
proof -
  have late: "i \<notin> cdId ` set ys \<Longrightarrow> foldl (\<lambda>index (k, c). if cdId c = i then int k else index) j (enumerate n ys) = j" for j n and ys :: "'a card list"
    by (induction ys arbitrary: j n) auto
  show ?thesis using assms late [of zs] by (simp add: card_index_def enumerate_append_eq)
qed

text \<open>Removing a card takes the last one with the identifier away.\<close>

lemma removeCard_last:
  assumes "csCards s = ys @ c # zs" "cdId c = i" "i \<notin> cdId ` set zs"
  shows "csCards (removeCard i s) = ys @ zs"
proof -
  have "card_index i (csCards s) = int (length ys)" using assms card_index_last by metis
  then show ?thesis using assms(1)
    by (cases ys; cases zs) (auto simp: removeCard_def Let_def js_slice_def js_slice_from_def js_norm_def nat_add_distrib)
qed

lemma removeCard_filter:
  assumes "cards_ok s"
  shows "csCards (removeCard i s) = filter (\<lambda>c. cdId c \<noteq> i) (csCards s)"
proof (cases "i \<in> cdId ` set (csCards s)")
  case False
  then have "filter (\<lambda>c. cdId c \<noteq> i) (csCards s) = csCards s" by (auto simp: filter_id_conv)
  then show ?thesis using card_index_absent [OF False] by (simp add: removeCard_def)
next
  case True
  then obtain c where c: "c \<in> set (csCards s)" "cdId c = i" by blast
  from split_list [OF c(1)] obtain ys zs where sp: "csCards s = ys @ c # zs" by blast
  with assms c have "i \<notin> cdId ` set ys" "i \<notin> cdId ` set zs" by (auto simp: cards_ok_def)
  moreover from this have "filter (\<lambda>c. cdId c \<noteq> i) ys = ys" "filter (\<lambda>c. cdId c \<noteq> i) zs = zs"
    by (auto simp: filter_id_conv)
  ultimately show ?thesis using removeCard_last [OF sp c(2)] c(2) by (simp add: sp)
qed

lemma addCard_ok: "addCard ds c s = Some t \<Longrightarrow> cards_ok s \<Longrightarrow> cards_ok t"
  using createCardId_fresh by (fastforce simp: addCard_def cards_ok_def taken_def)

lemma removeCard_ok: "cards_ok s \<Longrightarrow> cards_ok (removeCard i s)"
  using removeCard_filter [of s i] by (simp add: cards_ok_def distinct_map_filter)

end
