(* ===== verification/HomeProperties.thy ===== *)
theory HomeProperties
  imports Recents HomeCards
begin

text \<open>Properties of the home page: its recent nodes and its cards.\<close>

text \<open>C38. Unless the bookmarks cannot be loaded, the loader resolves the first nine nodes that the
  activities, the bookmarks and the workspaces give, in this order, each identifier once, and the page
  shows a card for the first eight of them.\<close>

theorem recent_nodes:
  "\<exists>ns. load refresh fromNow activities (Some bs) repos = Some ns \<and>
     (let found = first_seen [] (List.map_filter (resolve refresh)
            (loadActivities fromNow activities @ loadBookmarks bs @ workspacesAsNodes repos))
      in ns = take 9 found \<and> cards ns [] [] = take 8 found \<and>
         distinct (filter (\<lambda>u. u \<noteq> []) (List.map_filter uuid found)))"
  using first_seen_keys [of "[]" "List.map_filter (resolve refresh)
      (loadActivities fromNow activities @ loadBookmarks bs @ workspacesAsNodes repos)"]
  by (simp add: load_prefix cards_of_load Let_def)

text \<open>A card added to a dashboard whose identifiers differ gets one of its own and is stored with the
  others; removing it gives back the cards that were there.\<close>

lemma card_added_removed:
  assumes "cards_ok s" "addCard draws c s = Some t"
  shows "cards_ok t \<and> getCardsPreference ''Cards'' t = Some (csCards t) \<and>
    (\<exists>i. csCards t = csCards s @ [c\<lparr>cdId := i\<rparr>] \<and> csCards (removeCard i t) = csCards s)"
proof -
  from assms(2) obtain i where i: "createCardId draws (cdTitle c) (csCards s) = Some i"
    and t: "t = setCards (csCards s @ [c\<lparr>cdId := i\<rparr>]) s" by (auto simp: addCard_def)
  have "csCards (removeCard i t) = csCards s"
    using removeCard_last [of t "csCards s" "c\<lparr>cdId := i\<rparr>" "[]" i] by (simp add: t)
  then show ?thesis using addCard_ok [OF assms(2,1)] by (auto simp: t)
qed

definition one_card :: "unit card_store" where
  "one_card = newCardStore ''Home'' [\<lparr>cdId = ''quick-send'', cdTitle = ''Quick Send'', cdData = ()\<rparr>] []"

text \<open>The search for an identifier ends for some draws exactly when one is left: with the slug and its
  101 numbered variants all taken the recursion has no end.\<close>

lemma card_id_found_iff:
  "(\<exists>draws. set draws \<subseteq> {10..110} \<and> createCardId draws title cs \<noteq> None) \<longleftrightarrow>
     (\<exists>i. i \<in> insert (computeStringSlug title) ((\<lambda>d. computeStringSlug title @ ''-'' @ nat_str d) ` {10..110}) \<and>
        \<not> taken i cs)"
proof -
  let ?slug = "computeStringSlug title"
  have "(\<exists>draws. set draws \<subseteq> {10..110} \<and> random_id ?slug draws cs \<noteq> None) \<longleftrightarrow>
      (\<exists>d \<in> {10..110}. \<not> taken (?slug @ ''-'' @ nat_str d) cs)"
  proof
    assume "\<exists>d \<in> {10..110}. \<not> taken (?slug @ ''-'' @ nat_str d) cs"
    then obtain d where "d \<in> {10..110}" "\<not> taken (?slug @ ''-'' @ nat_str d) cs" by blast
    then show "\<exists>draws. set draws \<subseteq> {10..110} \<and> random_id ?slug draws cs \<noteq> None"
      by (intro exI [of _ "[d]"]) (simp add: Let_def)
  qed (use random_id_ends [of _ ?slug cs] in blast)
  moreover have "\<exists>draws :: nat list. set draws \<subseteq> {10..110}" by (rule exI [of _ "[]"]) simp
  ultimately show ?thesis by (cases "taken ?slug cs") (auto simp: createCardId_def Let_def)
qed

end
