(* ===== verification/EditorTabs.thy ===== *)
theory EditorTabs
  imports Paths Systems
begin

text \<open>
  The editors of the interface: the nodes opened (\<open>Workspaces/OpenNodesModel.js\<close>), the panel that
  turns them into tabs (\<open>Workspaces/views/EditionPanel.js\<close>), the reducers and selectors of the tabs
  (\<open>HOCs/editor\<close>, \<open>HOCs/selectors\<close>) and the selections a tab browses (\<open>HOCs/selection\<close>), all of
  \<open>gui.ajax/res/js/ui\<close>; the editor opener of \<open>ReactUI/Builder.js\<close>.

  Nodes and opened objects are compared by reference: \<open>neRef\<close> and \<open>ooRef\<close>. A selection is a mutable
  object several tabs may share, so a tab holds an index into \<open>eoSelections\<close>. The data of a
  \<open>tabModify\<close> is a change of the tab's fields other than its id. Loading an editor's resources is a
  request; \<open>resources_loaded\<close> is its callback. An operation that throws returns \<open>None\<close>.
\<close>

section \<open>State\<close>

record enode =
  neRef :: nat
  neLabel :: string
  nePath :: string
  neReadonly :: "string option"           \<comment> \<open>metadata \<open>node_readonly\<close>\<close>

record edata =
  edId :: string
  edClass :: "string option"
  edOpenable :: bool
  edMimes :: "string list option"
  edWrite :: bool
  edModal :: bool

record open_object =
  ooRef :: nat
  ooNode :: enode
  ooEditor :: "edata option"

record selection =
  snItems :: "enode list"
  snIndex :: nat

record etab =
  tbId :: string
  tbTitle :: string
  tbUrl :: string
  tbReadonly :: bool
  tbNode :: enode
  tbEditor :: edata
  tbSelection :: "nat option"
  tbPlaying :: bool
  tbControls :: "(string, string) obj"

record editors =
  eoOpen :: "open_object list"
  eoTitles :: "(nat, string) obj"
  eoNext :: nat
  eoLoading :: "open_object list"
  eoTabs :: "etab list"
  eoActive :: "string option"
  eoMinimised :: bool
  eoResolution :: "string option"
  eoSelections :: "selection list"

definition newEditors :: editors where
  "newEditors = \<lparr>eoOpen = [], eoTitles = [], eoNext = 0, eoLoading = [], eoTabs = [], eoActive = None,
     eoMinimised = False, eoResolution = None, eoSelections = []\<rparr>"

section \<open>Reducers and selectors\<close>

text \<open>The id computed from the largest one is overwritten: every caller gives one.\<close>

definition tabCreate :: "etab \<Rightarrow> editors \<Rightarrow> editors" where
  "tabCreate t s = s\<lparr>eoTabs := t # eoTabs s\<rparr>"

definition tabModify :: "string \<Rightarrow> (etab \<Rightarrow> etab) \<Rightarrow> editors \<Rightarrow> editors" where
  "tabModify i f s = s\<lparr>eoTabs := map (\<lambda>t. if tbId t = i then f t else t) (eoTabs s)\<rparr>"

definition tabAddControls :: "string \<Rightarrow> (string, string) obj \<Rightarrow> editors \<Rightarrow> editors" where
  "tabAddControls i cs s =
     tabModify i (\<lambda>t. t\<lparr>tbControls := fold (\<lambda>(k, v). obj_set k v) cs (tbControls t)\<rparr>) s"

definition tabDelete :: "string \<Rightarrow> editors \<Rightarrow> editors" where
  "tabDelete i s = s\<lparr>eoTabs := filter (\<lambda>t. tbId t \<noteq> i) (eoTabs s)\<rparr>"

definition tabDeleteAll :: "editors \<Rightarrow> editors" where
  "tabDeleteAll s = s\<lparr>eoTabs := []\<rparr>"

definition editorSetActiveTab :: "string \<Rightarrow> editors \<Rightarrow> editors" where
  "editorSetActiveTab i s = s\<lparr>eoActive := Some i\<rparr>"

definition editorModify :: "(editors \<Rightarrow> editors) \<Rightarrow> editors \<Rightarrow> editors" where
  "editorModify f s = f s"

definition getActiveTab :: "editors \<Rightarrow> etab option" where
  "getActiveTab s = foldl (\<lambda>current t. if Some (tbId t) = eoActive s then Some t else current) None (eoTabs s)"

definition getEditorResolution :: "editors \<Rightarrow> string" where
  "getEditorResolution s = (case eoResolution s of None \<Rightarrow> ''lo'' | Some r \<Rightarrow> if r = [] then ''lo'' else r)"

section \<open>The open nodes and their panel\<close>

definition handleUpdate :: "editors \<Rightarrow> editors" where
  "handleUpdate s = (if eoOpen s = [] then tabDeleteAll s else s)"

text \<open>The panel's answer to a pushed node reads the resources of its editor: without one it throws.\<close>

definition handleNodePushed :: "open_object \<Rightarrow> editors \<Rightarrow> editors option" where
  "handleNodePushed obj s =
     (case ooEditor obj of None \<Rightarrow> None | Some _ \<Rightarrow> Some (s\<lparr>eoLoading := eoLoading s @ [obj]\<rparr>))"

definition tab_of :: "open_object \<Rightarrow> etab" where
  "tab_of obj =
     (let n = ooNode obj in
      \<lparr>tbId = neLabel n, tbTitle = neLabel n, tbUrl = nePath n, tbReadonly = (neReadonly n = Some ''true''),
       tbNode = n, tbEditor = the (ooEditor obj), tbSelection = None, tbPlaying = False, tbControls = []\<rparr>)"

definition resources_loaded :: "open_object \<Rightarrow> editors \<Rightarrow> editors" where
  "resources_loaded obj s =
     (let s1 = tabCreate (tab_of obj) (s\<lparr>eoLoading := remove1 obj (eoLoading s)\<rparr>);
          s2 = editorSetActiveTab (tbId (tab_of obj)) s1
      in editorModify (\<lambda>s. s\<lparr>eoMinimised := False\<rparr>) s2)"

text \<open>As written, \<open>&&\<close> binds before \<open>||\<close>: an opened object without editor answers for any node.\<close>

definition same_object :: "enode \<Rightarrow> string option \<Rightarrow> open_object \<Rightarrow> bool" where
  "same_object node cls obj \<longleftrightarrow>
     (neRef (ooNode obj) = neRef node \<and> (case ooEditor obj of None \<Rightarrow> False | Some e \<Rightarrow> edClass e = cls)) \<or>
     (ooEditor obj = None \<and> cls \<in> {None, Some []})"

definition pushNode :: "enode \<Rightarrow> edata option \<Rightarrow> editors \<Rightarrow> editors option" where
  "pushNode node ed s =
     (let cls = (case ed of None \<Rightarrow> None | Some e \<Rightarrow> edClass e);
          fresh = \<lparr>ooRef = eoNext s, ooNode = node, ooEditor = ed\<rparr>;
          same = filter (same_object node cls) (eoOpen s);
          obj = (if same = [] then fresh else last same);
          s1 = s\<lparr>eoNext := Suc (eoNext s), eoOpen := (if same = [] then eoOpen s @ [fresh] else eoOpen s)\<rparr>
      in map_option handleUpdate (handleNodePushed obj s1))"

definition removeNode :: "open_object \<Rightarrow> editors \<Rightarrow> editors" where
  "removeNode obj s = handleUpdate
     (s\<lparr>eoOpen := arrayWithout (eoOpen s) (js_indexOf (eoOpen s) obj), eoTitles := obj_del (ooRef obj) (eoTitles s)\<rparr>)"

definition openEditorForNode :: "enode \<Rightarrow> edata \<Rightarrow> editors \<Rightarrow> editors option" where
  "openEditorForNode node ed s = pushNode node (Some ed) s"

definition updateNodeTitle :: "nat \<Rightarrow> string \<Rightarrow> editors \<Rightarrow> editors" where
  "updateNodeTitle obj title s = s\<lparr>eoTitles := obj_set obj title (eoTitles s)\<rparr>"

definition getObjectLabel :: "open_object \<Rightarrow> editors \<Rightarrow> string" where
  "getObjectLabel obj s =
     (case map_of (eoTitles s) (ooRef obj) of Some t \<Rightarrow> t | None \<Rightarrow> neLabel (ooNode obj))"

definition repository_refreshed :: "editors \<Rightarrow> editors" where
  "repository_refreshed s = handleUpdate (s\<lparr>eoOpen := []\<rparr>)"

definition componentWillUnmount :: "editors \<Rightarrow> editors" where
  "componentWillUnmount s = tabDeleteAll s"

section \<open>Which editor opens a node\<close>

datatype opened_in = InNothing | AsDownload | InDialog edata | InTab enode edata

text \<open>\<open>editors\<close> are those the registry finds for the mime type of the node.\<close>

definition editor_for :: "string \<Rightarrow> edata list \<Rightarrow> enode \<Rightarrow> edata option" where
  "editor_for mime editors node =
     (case editors of
        [] \<Rightarrow> None
      | e # _ \<Rightarrow>
          if edOpenable e \<and> (case edMimes e of None \<Rightarrow> False | Some ms \<Rightarrow> (ms = [] \<or> hd ms \<noteq> ''*'') \<or> mime \<in> set ms)
             \<and> \<not> (edWrite e \<and> neReadonly node = Some ''true'') then Some e else None)"

definition openCurrentSelectionInEditor ::
    "bool \<Rightarrow> bool \<Rightarrow> string \<Rightarrow> edata list \<Rightarrow> edata option \<Rightarrow> enode option \<Rightarrow> opened_in" where
  "openCurrentSelectionInEditor has_opener has_download mime editors ed selected =
     (case selected of
        None \<Rightarrow> InNothing
      | Some node \<Rightarrow>
          (case (case ed of Some e \<Rightarrow> Some e | None \<Rightarrow> editor_for mime editors node) of
             Some e \<Rightarrow> if \<not> has_opener \<or> edModal e then InDialog e else InTab node e
           | None \<Rightarrow> if has_download then AsDownload else InNothing))"

section \<open>Selections\<close>

definition hasNext :: "selection \<Rightarrow> bool" where
  "hasNext sn \<longleftrightarrow> int (snIndex sn) < int (length (snItems sn)) - 1"

definition hasPrevious :: "selection \<Rightarrow> bool" where
  "hasPrevious sn \<longleftrightarrow> snIndex sn > 0"

definition current :: "selection \<Rightarrow> enode option" where
  "current sn = (if snIndex sn < length (snItems sn) then Some (snItems sn ! snIndex sn) else None)"

definition sel_next :: "selection \<Rightarrow> selection" where
  "sel_next sn = (if hasNext sn then sn\<lparr>snIndex := Suc (snIndex sn)\<rparr> else sn)"

definition sel_previous :: "selection \<Rightarrow> selection" where
  "sel_previous sn = (if hasPrevious sn then sn\<lparr>snIndex := snIndex sn - 1\<rparr> else sn)"

definition nextOrFirst :: "selection \<Rightarrow> selection" where
  "nextOrFirst sn = sn\<lparr>snIndex := (if hasNext sn then Suc (snIndex sn) else 0)\<rparr>"

definition sel_first :: "selection \<Rightarrow> enode option" where
  "sel_first sn = (case snItems sn of [] \<Rightarrow> None | x # _ \<Rightarrow> Some x)"

definition sel_last :: "selection \<Rightarrow> enode option" where
  "sel_last sn = (if snItems sn = [] then None else Some (last (snItems sn)))"

text \<open>The siblings of a node an editor can open, and the place of the node among them.\<close>

definition initial_index :: "enode \<Rightarrow> enode list \<Rightarrow> nat" where
  "initial_index node items =
     foldl (\<lambda>found (i, n). if neRef n = neRef node \<and> i \<noteq> 0 then i else found) 0 (enumerate 0 items)"

definition selection_loaded :: "string \<Rightarrow> enode \<Rightarrow> enode list \<Rightarrow> editors \<Rightarrow> editors" where
  "selection_loaded i node items s =
     (let r = length (eoSelections s) in
      tabModify i (\<lambda>t. t\<lparr>tbSelection := Some r\<rparr>)
        (s\<lparr>eoSelections := eoSelections s @ [\<lparr>snItems = items, snIndex = initial_index node items\<rparr>]\<rparr>))"

definition onSelectionChange :: "string \<Rightarrow> enode \<Rightarrow> editors \<Rightarrow> editors" where
  "onSelectionChange i node s = tabModify i (\<lambda>t. t\<lparr>tbTitle := neLabel node, tbNode := node\<rparr>) s"

text \<open>A control moves the selection of the active tab, then shows the node it is at. The controls are
  hidden while there is no selection, or an empty one.\<close>

definition move_selection :: "(selection \<Rightarrow> selection) \<Rightarrow> editors \<Rightarrow> editors" where
  "move_selection move s =
     (case getActiveTab s of
        None \<Rightarrow> s
      | Some t \<Rightarrow>
          (case tbSelection t of
             None \<Rightarrow> s
           | Some r \<Rightarrow>
               if snItems (eoSelections s ! r) = [] then s
               else (let sn = move (eoSelections s ! r); s1 = s\<lparr>eoSelections := (eoSelections s)[r := sn]\<rparr>
                     in case current sn of None \<Rightarrow> s1 | Some node \<Rightarrow> onSelectionChange (tbId t) node s1)))"

definition onTogglePlaying :: "string \<Rightarrow> bool \<Rightarrow> editors \<Rightarrow> editors" where
  "onTogglePlaying i playing s = tabModify i (\<lambda>t. t\<lparr>tbPlaying := playing\<rparr>) s"

definition onMinimise :: "editors \<Rightarrow> editors" where
  "onMinimise s = editorModify (\<lambda>s. s\<lparr>eoMinimised := True\<rparr>) s"

definition onToggleResolution :: "bool \<Rightarrow> editors \<Rightarrow> editors" where
  "onToggleResolution high s = editorModify (\<lambda>s. s\<lparr>eoResolution := Some (if high then ''hi'' else ''lo'')\<rparr>) s"

section \<open>The reachable states\<close>

inductive editor_step :: "editors \<Rightarrow> editors \<Rightarrow> bool" where
  opened: "openEditorForNode node ed s = Some t \<Longrightarrow> editor_step s t"
| loaded: "obj \<in> set (eoLoading s) \<Longrightarrow> editor_step s (resources_loaded obj s)"
| refreshed: "editor_step s (repository_refreshed s)"
| closed: "editor_step s (tabDeleteAll s)"
| siblings: "editor_step s (selection_loaded i node items s)"
| moved: "move \<in> {sel_next, sel_previous, nextOrFirst} \<Longrightarrow> editor_step s (move_selection move s)"
| titled: "editor_step s (updateNodeTitle obj title s)"
| played: "editor_step s (onTogglePlaying i playing s)"
| minimised: "editor_step s (onMinimise s)"
| resolution: "editor_step s (onToggleResolution high s)"

definition editors_reachable :: "editors \<Rightarrow> bool" where
  "editors_reachable = reach ((=) newEditors) editor_step"

lemma editors_reachable_start: "editors_reachable newEditors"
  by (simp add: editors_reachable_def reach.started)

lemma editors_reachable_step: "editors_reachable s \<Longrightarrow> editor_step s t \<Longrightarrow> editors_reachable t"
  unfolding editors_reachable_def by (rule reach.stepped)

text \<open>The place of every selection is inside it, and a tab that browses shows the node it is at: the
  first part for the objects, the second for the tabs that hold them.\<close>

definition selection_ok :: "selection \<Rightarrow> bool" where
  "selection_ok sn \<longleftrightarrow> (if snItems sn = [] then snIndex sn = 0 else snIndex sn < length (snItems sn))"

definition editors_ok :: "editors \<Rightarrow> bool" where
  "editors_ok s \<longleftrightarrow>
     (\<forall>sn \<in> set (eoSelections s). selection_ok sn) \<and>
     (\<forall>t \<in> set (eoTabs s). \<forall>r. tbSelection t = Some r \<longrightarrow> r < length (eoSelections s)) \<and>
     (\<forall>obj \<in> set (eoOpen s) \<union> set (eoLoading s). ooEditor obj \<noteq> None)"

lemma initial_index_ok: "selection_ok \<lparr>snItems = items, snIndex = initial_index node items\<rparr>"
proof -
  have "i < length xs \<longrightarrow>
      foldl (\<lambda>found (i, n). if neRef n = neRef node \<and> i \<noteq> 0 then i else found) i (enumerate k ys) < length xs"
    if "k + length ys = length xs" for i k and xs ys :: "enode list"
    using that by (induction ys arbitrary: i k) auto
  from this [of 0 items items 0] show ?thesis
    by (auto simp: selection_ok_def initial_index_def)
qed

lemma move_ok: "move \<in> {sel_next, sel_previous, nextOrFirst} \<Longrightarrow> selection_ok sn \<Longrightarrow> selection_ok (move sn)"
  by (auto simp: selection_ok_def sel_next_def sel_previous_def nextOrFirst_def hasNext_def hasPrevious_def split: if_splits)

lemma tabModify_sel [simp]:
  "eoSelections (tabModify i f s) = eoSelections s" "eoOpen (tabModify i f s) = eoOpen s"
  "eoLoading (tabModify i f s) = eoLoading s" "eoActive (tabModify i f s) = eoActive s"
  "eoTabs (tabModify i f s) = map (\<lambda>t. if tbId t = i then f t else t) (eoTabs s)"
  by (simp_all add: tabModify_def)

lemma same_object_member: "filter P xs \<noteq> [] \<Longrightarrow> last (filter P xs) \<in> set xs"
  using last_in_set [of "filter P xs"] by auto

lemma editors_ok_push:
  assumes "openEditorForNode node ed s = Some t" "editors_ok s"
  shows "editors_ok t"
  using assms same_object_member [of "same_object node (edClass ed)" "eoOpen s"]
  by (auto simp: openEditorForNode_def pushNode_def handleNodePushed_def handleUpdate_def Let_def editors_ok_def
      split: option.splits if_splits)

lemma editors_ok_move:
  assumes "move \<in> {sel_next, sel_previous, nextOrFirst}" "editors_ok s"
  shows "editors_ok (move_selection move s)"
proof -
  have "\<forall>sn \<in> set ((eoSelections s)[r := move (eoSelections s ! r)]). selection_ok sn"
    if "r < length (eoSelections s)" for r
    using that assms move_ok by (auto simp: editors_ok_def dest!: set_update_subset_insert [THEN subsetD])
  moreover have "t \<in> set (eoTabs s)" if "getActiveTab s = Some t" for t
  proof -
    have "foldl (\<lambda>c t. if Some (tbId t) = a then Some t else c) c ts = Some t \<Longrightarrow> c = Some t \<or> t \<in> set ts" for a c ts
      by (induction ts arbitrary: c) (auto split: if_splits)
    then show ?thesis using that by (fastforce simp: getActiveTab_def)
  qed
  ultimately show ?thesis using assms(2)
    by (fastforce simp: move_selection_def onSelectionChange_def editors_ok_def Let_def split: option.splits)
qed

lemma editors_ok_step: "editor_step s t \<Longrightarrow> editors_ok s \<Longrightarrow> editors_ok t"
proof (induction rule: editor_step.induct)
  case (opened node ed s t)
  then show ?case by (rule editors_ok_push)
next
  case (moved move s)
  then show ?case by (rule editors_ok_move)
next
  case (loaded obj s)
  then show ?case using set_remove1_subset [of obj "eoLoading s"]
    by (auto simp: resources_loaded_def tabCreate_def editorSetActiveTab_def editorModify_def Let_def editors_ok_def tab_of_def)
next
  case (siblings s i node items)
  then show ?case using initial_index_ok [of items node]
    by (auto simp: selection_loaded_def Let_def editors_ok_def less_SucI)
qed (auto simp: repository_refreshed_def handleUpdate_def tabDeleteAll_def
    updateNodeTitle_def onTogglePlaying_def onMinimise_def onToggleResolution_def editorModify_def editors_ok_def)

lemma editors_ok_new: "editors_ok newEditors"
  by (simp add: editors_ok_def newEditors_def)

interpretation editors_tabs: reactive_system "(=) newEditors" editor_step editors_ok
  by unfold_locales (auto intro: editors_ok_step editors_ok_new)

lemma editors_reachable_ok: "editors_reachable s \<Longrightarrow> editors_ok s"
  unfolding editors_reachable_def by (rule editors_tabs.reached)

section \<open>Which tab is shown\<close>

lemma active_fold:
  "foldl (\<lambda>c t. if Some (tbId t) = Some a then Some t else c) c ts =
     (if filter (\<lambda>t. tbId t = a) ts = [] then c else Some (last (filter (\<lambda>t. tbId t = a) ts)))"
  by (induction ts arbitrary: c) auto

lemma loaded_shows:
  "getActiveTab (resources_loaded obj s) =
     (case filter (\<lambda>t. tbId t = neLabel (ooNode obj)) (eoTabs s) of
        [] \<Rightarrow> Some (tab_of obj) | ts \<Rightarrow> Some (last ts))"
proof -
  have "getActiveTab (resources_loaded obj s) =
      foldl (\<lambda>c t. if Some (tbId t) = Some (neLabel (ooNode obj)) then Some t else c) None (tab_of obj # eoTabs s)"
    unfolding getActiveTab_def
    by (simp add: resources_loaded_def tabCreate_def editorSetActiveTab_def editorModify_def Let_def tab_of_def)
  then show ?thesis by (simp only: active_fold) (auto simp: tab_of_def Let_def split: list.splits)
qed

end
