(* ===== verification/EditorProperties.thy ===== *)
theory EditorProperties
  imports EditorTabs
begin

text \<open>Properties of the editors' tabs.\<close>

text \<open>C36. Once the resources of an opened node are loaded its new tab is active, but what is shown is the
  oldest tab with the same label: the new node only when no tab of that label is open.\<close>

theorem opened_node_shown:
  "getActiveTab (resources_loaded obj s) =
     (case filter (\<lambda>t. tbId t = neLabel (ooNode obj)) (eoTabs s) of
        [] \<Rightarrow> Some (tab_of obj) | t # ts \<Rightarrow> Some (last (t # ts)))"
  using loaded_shows [of obj s] by (auto split: list.splits)

text \<open>C37. In every state the tabs reach, each selection's place is inside it, and the selection a tab
  browses exists.\<close>

theorem selections_inside:
  assumes "editors_reachable s"
  shows "(\<forall>sn \<in> set (eoSelections s). snItems sn = [] \<and> snIndex sn = 0 \<or> snIndex sn < length (snItems sn)) \<and>
    (\<forall>t \<in> set (eoTabs s). \<forall>r. tbSelection t = Some r \<longrightarrow> r < length (eoSelections s))"
  using editors_reachable_ok [OF assms] by (auto simp: editors_ok_def selection_ok_def split: if_splits)

definition a_node :: "nat \<Rightarrow> enode" where
  "a_node r = \<lparr>neRef = r, neLabel = ''a.png'', nePath = ''/'' @ nat_str r, neReadonly = None\<rparr>"

definition an_editor :: edata where
  "an_editor = \<lparr>edId = ''e'', edClass = Some ''E'', edOpenable = True, edMimes = Some [''png''], edWrite = False, edModal = False\<rparr>"

definition browsing :: editors where
  "browsing = move_selection sel_next (selection_loaded ''a.png'' (a_node 1) [a_node 1, a_node 2]
     (resources_loaded \<lparr>ooRef = 0, ooNode = a_node 1, ooEditor = Some an_editor\<rparr>
       (the (openEditorForNode (a_node 1) an_editor newEditors))))"

lemma browsing_reachable: "editors_reachable browsing"
proof -
  define s where "s = the (openEditorForNode (a_node 1) an_editor newEditors)"
  have o: "openEditorForNode (a_node 1) an_editor newEditors = Some s"
    and l: "\<lparr>ooRef = 0, ooNode = a_node 1, ooEditor = Some an_editor\<rparr> \<in> set (eoLoading s)"
    by (simp_all add: s_def openEditorForNode_def pushNode_def handleNodePushed_def handleUpdate_def newEditors_def Let_def)
  have "editors_reachable s" by (rule editors_reachable_step [OF editors_reachable_start editor_step.opened [OF o]])
  from editors_reachable_step [OF this editor_step.loaded [OF l]] show ?thesis unfolding browsing_def s_def
    by (rule editors_reachable_step [OF editors_reachable_step [OF _ editor_step.siblings] editor_step.moved]) simp
qed

lemma selections_inside_witness:
  "map (\<lambda>sn. (length (snItems sn), snIndex sn)) (eoSelections browsing) = [(2, 1)] \<and>
     snIndex (eoSelections browsing ! 0) < length (snItems (eoSelections browsing ! 0))"
proof
  show m: "map (\<lambda>sn. (length (snItems sn), snIndex sn)) (eoSelections browsing) = [(2, 1)]" by code_simp
  then obtain sn where sn: "eoSelections browsing = [sn]" "length (snItems sn) = 2" by auto
  then show "snIndex (eoSelections browsing ! 0) < length (snItems (eoSelections browsing ! 0))"
    using conjunct1 [OF selections_inside [OF browsing_reachable]] by auto
qed

text \<open>Playing a selection goes through its items in turn and starts again at the first: after \<open>n\<close>
  moves the place is \<open>n\<close> further, modulo the number of items.\<close>

lemma play_cycles:
  assumes "snIndex sn < length (snItems sn)"
  shows "(nextOrFirst ^^ n) sn = sn\<lparr>snIndex := (snIndex sn + n) mod length (snItems sn)\<rparr>"
proof (induction n)
  case (Suc n)
  let ?l = "length (snItems sn)"
  have l: "?l > 0" using assms by (rule le_less_trans [OF le0])
  have "Suc ((snIndex sn + n) mod ?l) = ?l \<or> Suc ((snIndex sn + n) mod ?l) < ?l"
    using mod_less_divisor [OF l, of "snIndex sn + n"] by linarith
  then have "(if Suc ((snIndex sn + n) mod ?l) < ?l then Suc ((snIndex sn + n) mod ?l) else 0) = (snIndex sn + Suc n) mod ?l"
    by (auto simp: mod_Suc)
  then show ?case using Suc l by (auto simp: nextOrFirst_def hasNext_def)
qed (use assms in simp)

end
