(* ===== verification/AddressBook.thy ===== *)
theory AddressBook
  imports Paths Systems
begin

text \<open>
  The address book (\<open>gui.ajax/res/js/ui/Components/users/addressbook\<close>): the loaders of users, groups
  and teams (\<open>Loaders.js\<close>), the folder shown and its reloading by page, letter or search
  (\<open>AddressBook.js\<close>), and the numbered pages (\<open>AlphaPaginator.js\<close>).

  An item is an object that is changed in place and refers to others, so items live in a list and a
  reference is a position in it. A request under way is kept with the item it is for; its answer is
  given to \<open>children_answered\<close>. An answer always holds its list, which may be empty. A number is \<open>None\<close>
  for \<open>NaN\<close>. Labels in the user's language, icons and avatars are left out.
\<close>

section \<open>Items\<close>

datatype loader = LTeams | LGroups | LExternal | LGroupUsers | LTeamUsers

record idm_user =
  iuLogin :: string
  iuUuid :: string
  iuGroupPath :: string
  iuGroupLabel :: string
  iuIsGroup :: bool
  iuAttributes :: "(string, string) obj"

record idm_role =
  irUuid :: string
  irLabel :: string
  irIsTeam :: bool

record params =
  paAlpha :: bool
  paSearch :: bool
  paValue :: string

record pagination =
  pgStart :: nat
  pgEnd :: nat
  pgMax :: nat
  pgInterval :: nat

record ab_item =
  abParent :: "nat option"
  abId :: string
  abLabel :: string
  abType :: string
  abChildrenLoader :: "loader option"
  abItemsLoader :: "loader option"
  abCollections :: "nat list option"
  abLeafs :: "nat list option"
  abCollectionsLoaded :: bool
  abLeafLoaded :: bool
  abRange :: "string option"
  abParams :: "params option"
  abPagination :: "pagination option"
  abExternal :: bool
  abNotSelectable :: bool
  abUser :: "idm_user option"
  abRole :: "idm_role option"

definition no_item :: ab_item where
  "no_item = \<lparr>abParent = None, abId = [], abLabel = [], abType = [], abChildrenLoader = None, abItemsLoader = None,
     abCollections = None, abLeafs = None, abCollectionsLoaded = False, abLeafLoaded = False, abRange = None,
     abParams = None, abPagination = None, abExternal = False, abNotSelectable = False, abUser = None, abRole = None\<rparr>"

section \<open>Requests\<close>

datatype api_request =
    ListTeams string "int option" "int option"
  | ListGroups string string nat nat
  | ListUsers string string bool "int option" "int option" string
  | ListUsersWithRole string "int option" "int option" string

definition StdLimit :: int where
  "StdLimit = 50"

text \<open>The offset and limit of a range \<open>start-end\<close>; without one the first fifty.\<close>

definition parse_range :: "string option \<Rightarrow> int option \<times> int option" where
  "parse_range rng =
     (case rng of
        None \<Rightarrow> (Some 0, Some StdLimit)
      | Some r \<Rightarrow>
          if r = [] then (Some 0, Some StdLimit)
          else (case js_split CHR ''-'' r of
              s # e # _ \<Rightarrow> (parse_int s, case (parse_int s, parse_int e) of (Some a, Some b) \<Rightarrow> Some (b - a) | _ \<Rightarrow> None)
            | s # [] \<Rightarrow> (parse_int s, None)
            | [] \<Rightarrow> (None, None)))"

definition group_path :: "ab_item \<Rightarrow> string" where
  "group_path e =
     (case abUser e of None \<Rightarrow> ''/'' | Some u \<Rightarrow> trimRight (iuGroupPath u) CHR ''/'' @ ''/'' @ iuGroupLabel u)"

definition filter_value :: "bool \<Rightarrow> bool \<Rightarrow> ab_item \<Rightarrow> string" where
  "filter_value alpha search e =
     (case abParams e of None \<Rightarrow> []
      | Some p \<Rightarrow> if (alpha \<and> paAlpha p) \<or> (search \<and> paSearch p) then paValue p else [])"

definition role_uuid :: "ab_item \<Rightarrow> string" where
  "role_uuid e = (case abRole e of Some r \<Rightarrow> irUuid r | None \<Rightarrow> [])"

fun request_of :: "loader \<Rightarrow> ab_item \<Rightarrow> api_request" where
  "request_of LTeams e = (let (ofs, lmt) = parse_range (abRange e) in ListTeams [] ofs lmt)"
| "request_of LGroups e = ListGroups (group_path e) (filter_value False True e) 0 1000"
| "request_of LExternal e =
     (let (ofs, lmt) = parse_range (abRange e) in ListUsers ''/'' (filter_value True False e) True ofs lmt ''shared'')"
| "request_of LGroupUsers e =
     (let (ofs, lmt) = parse_range (abRange e) in ListUsers (group_path e) (filter_value True True e) False ofs lmt ''!shared'')"
| "request_of LTeamUsers e =
     (let (ofs, lmt) = parse_range (abRange e) in
      ListUsersWithRole (role_uuid e) ofs lmt (filter_value True True e))"

section \<open>Answers\<close>

record api_answer =
  anUsers :: "idm_user list"
  anTeams :: "idm_role list"
  anTotal :: nat
  anOffset :: nat
  anLimit :: nat

definition computePagination :: "nat \<Rightarrow> api_answer \<Rightarrow> pagination option" where
  "computePagination count a =
     (if anTotal a > count then
        Some \<lparr>pgStart = anOffset a, pgEnd = anOffset a + anLimit a, pgMax = anTotal a, pgInterval = anLimit a\<rparr>
      else None)"

definition user_label :: "string \<Rightarrow> idm_user \<Rightarrow> string" where
  "user_label fallback u =
     (case map_of (iuAttributes u) ''displayName'' of Some n \<Rightarrow> if n = [] then fallback else n | None \<Rightarrow> fallback)"

definition team_item :: "nat \<Rightarrow> idm_role \<Rightarrow> ab_item" where
  "team_item entry t = no_item\<lparr>abParent := Some entry, abId := irUuid t, abLabel := irLabel t, abType := ''team'',
     abItemsLoader := Some LTeamUsers, abNotSelectable := True, abRole := Some t\<rparr>"

definition group_item :: "nat \<Rightarrow> ab_item \<Rightarrow> idm_user \<Rightarrow> ab_item" where
  "group_item entry e u = no_item\<lparr>abParent := Some entry, abId := iuUuid u, abLabel := user_label (iuGroupLabel u) u,
     abType := ''group'', abChildrenLoader := (if abChildrenLoader e = None then None else Some LGroups),
     abItemsLoader := (if abItemsLoader e = None then None else Some LGroupUsers),
     abParams := Some (case abParams e of Some p \<Rightarrow> if paAlpha p then p else \<lparr>paAlpha = False, paSearch = False, paValue = []\<rparr>
                                        | None \<Rightarrow> \<lparr>paAlpha = False, paSearch = False, paValue = []\<rparr>),
     abUser := Some u\<rparr>"

definition user_item :: "nat \<Rightarrow> bool \<Rightarrow> idm_user \<Rightarrow> ab_item" where
  "user_item entry ext u = no_item\<lparr>abParent := Some entry, abId := iuLogin u, abLabel := user_label (iuLogin u) u,
     abType := ''user'', abExternal := ext, abUser := Some u\<rparr>"

fun items_of :: "string \<Rightarrow> loader \<Rightarrow> nat \<Rightarrow> ab_item \<Rightarrow> api_answer \<Rightarrow> ab_item list" where
  "items_of me LTeams i e a = map (team_item i) (anTeams a)"
| "items_of me LGroups i e a = map (group_item i e) (anUsers a)"
| "items_of me LExternal i e a = map (user_item i True) (filter (\<lambda>u. iuLogin u \<noteq> me) (anUsers a))"
| "items_of me LGroupUsers i e a =
     map (user_item i False) (filter (\<lambda>u. iuLogin u \<noteq> me \<and> iuLogin u \<noteq> ''pydio.anon.user'') (anUsers a))"
| "items_of me LTeamUsers i e a = map (user_item i False) (anUsers a)"

fun paginate :: "loader \<Rightarrow> api_answer \<Rightarrow> ab_item \<Rightarrow> ab_item" where
  "paginate LGroups a e = e"
| "paginate LTeams a e = e\<lparr>abPagination := computePagination (length (anTeams a)) a\<rparr>"
| "paginate _ a e = e\<lparr>abPagination := computePagination (length (anUsers a)) a\<rparr>"

section \<open>The book\<close>

record book =
  bkItems :: "ab_item list"
  bkSelected :: nat
  bkLoading :: bool
  bkRightPane :: "nat option"
  bkPending :: "(nat \<times> bool \<times> api_request) list"   \<comment> \<open>item, leafs or collections, request\<close>
  bkPicked :: "nat list"                               \<comment> \<open>items given to \<open>onItemSelected\<close>\<close>

definition item_at :: "book \<Rightarrow> nat \<Rightarrow> ab_item" where
  "item_at b i = (if i < length (bkItems b) then bkItems b ! i else no_item)"

definition change_item :: "nat \<Rightarrow> (ab_item \<Rightarrow> ab_item) \<Rightarrow> book \<Rightarrow> book" where
  "change_item i f b = b\<lparr>bkItems := (bkItems b)[i := f (item_at b i)]\<rparr>"

definition loader_of :: "bool \<Rightarrow> ab_item \<Rightarrow> loader option" where
  "loader_of leaf e =
     (if leaf then (if abLeafLoaded e then None else abItemsLoader e)
      else (if abCollectionsLoaded e then None else abChildrenLoader e))"

text \<open>The two promises of a folder that was clicked: its collections, then its leafs, then it is shown.\<close>

definition select_item :: "nat \<Rightarrow> book \<Rightarrow> book" where
  "select_item i b = b\<lparr>bkSelected := i, bkLoading := False\<rparr>"

definition load_leafs :: "nat \<Rightarrow> book \<Rightarrow> book" where
  "load_leafs i b =
     (case loader_of True (item_at b i) of
        None \<Rightarrow> select_item i b
      | Some l \<Rightarrow> b\<lparr>bkPending := bkPending b @ [(i, True, request_of l (item_at b i))]\<rparr>)"

definition load_collections :: "nat \<Rightarrow> book \<Rightarrow> book" where
  "load_collections i b =
     (case loader_of False (item_at b i) of
        None \<Rightarrow> load_leafs i b
      | Some l \<Rightarrow> b\<lparr>bkPending := bkPending b @ [(i, False, request_of l (item_at b i))]\<rparr>)"

definition onUserListItemClicked :: "bool \<Rightarrow> nat \<Rightarrow> book \<Rightarrow> book" where
  "onUserListItemClicked selecting i b =
     (if selecting then b\<lparr>bkPicked := bkPicked b @ [i]\<rparr> else b\<lparr>bkRightPane := Some i\<rparr>)"

definition onFolderClicked :: "bool \<Rightarrow> bool \<Rightarrow> nat \<Rightarrow> book \<Rightarrow> book" where
  "onFolderClicked selector selecting i b =
     (if selector \<and> (case abRole (item_at b i) of Some r \<Rightarrow> irIsTeam r | None \<Rightarrow> False) then
        onUserListItemClicked selecting i b
      else load_collections i (b\<lparr>bkLoading := True\<rparr>))"

text \<open>The answer to a request: the loader writes the item's pagination, then its children. The loader is
  the one the item had when it was asked.\<close>

definition store_children :: "string \<Rightarrow> nat \<Rightarrow> bool \<Rightarrow> loader \<Rightarrow> api_answer \<Rightarrow> book \<Rightarrow> book" where
  "store_children me i leaf l a b =
     (let new = items_of me l i (item_at b i) a;
          refs = [length (bkItems b)..<length (bkItems b) + length new];
          put = (\<lambda>e. if leaf then (paginate l a e)\<lparr>abLeafs := Some refs, abLeafLoaded := True\<rparr>
                     else (paginate l a e)\<lparr>abCollections := Some refs, abCollectionsLoaded := True\<rparr>)
      in (change_item i put b)\<lparr>bkItems := bkItems (change_item i put b) @ new\<rparr>)"

definition children_answered :: "string \<Rightarrow> nat \<Rightarrow> bool \<Rightarrow> loader \<Rightarrow> api_request \<Rightarrow> api_answer \<Rightarrow> book \<Rightarrow> book" where
  "children_answered me i leaf l req a b =
     (let b1 = store_children me i leaf l a (b\<lparr>bkPending := remove1 (i, leaf, req) (bkPending b)\<rparr>)
      in if leaf then select_item i b1 else load_leafs i b1)"

section \<open>Reloading\<close>

definition forget_children :: "book \<Rightarrow> book" where
  "forget_children b = change_item (bkSelected b) (\<lambda>e. e\<lparr>abLeafLoaded := False, abCollectionsLoaded := False\<rparr>) b"

text \<open>What the paginators hand over: the page of all letters is \<open>-1\<close>, a range has a dash.\<close>

datatype page_choice = AllLetters | LetterOrRange string

definition choose_page :: "page_choice \<Rightarrow> ab_item \<Rightarrow> ab_item" where
  "choose_page p e =
     (case p of
        AllLetters \<Rightarrow> e\<lparr>abParams := None\<rparr>
      | LetterOrRange s \<Rightarrow>
          if CHR ''-'' \<in> set s then e\<lparr>abRange := Some s\<rparr>
          else e\<lparr>abRange := None, abParams := Some \<lparr>paAlpha = True, paSearch = False, paValue = s\<rparr>\<rparr>)"

definition reloadCurrentAtPage :: "bool \<Rightarrow> bool \<Rightarrow> page_choice \<Rightarrow> book \<Rightarrow> book" where
  "reloadCurrentAtPage selector selecting p b =
     (let b1 = change_item (bkSelected b) (choose_page p) (forget_children b)
      in onFolderClicked selector selecting (bkSelected b1) b1)"

definition reloadCurrentWithSearch :: "bool \<Rightarrow> bool \<Rightarrow> string \<Rightarrow> book \<Rightarrow> book" where
  "reloadCurrentWithSearch selector selecting v b =
     (if v = [] then reloadCurrentAtPage selector selecting AllLetters b
      else let b1 = change_item (bkSelected b)
                  (\<lambda>e. e\<lparr>abParams := Some \<lparr>paAlpha = False, paSearch = True, paValue = v\<rparr>\<rparr>) (forget_children b)
           in onFolderClicked selector selecting (bkSelected b1) b1)"

definition reloadCurrentNode :: "bool \<Rightarrow> bool \<Rightarrow> book \<Rightarrow> book" where
  "reloadCurrentNode selector selecting b =
     (let b1 = forget_children b in onFolderClicked selector selecting (bkSelected b1) b1)"

text \<open>The callback of a reload: the card on the right shows the new item with its identifier.\<close>

definition refresh_card :: "book \<Rightarrow> book" where
  "refresh_card b =
     (case bkRightPane b of
        None \<Rightarrow> b
      | Some r \<Rightarrow>
          (let e = item_at b (bkSelected b);
               kids = (case abLeafs e of Some ls \<Rightarrow> ls | None \<Rightarrow> []) @ (case abCollections e of Some cs \<Rightarrow> cs | None \<Rightarrow> [])
           in b\<lparr>bkRightPane := foldl (\<lambda>found k. if abId (item_at b k) = abId (item_at b r) then Some k else found) None kids\<rparr>))"

text \<open>Deleting a selection: the card of a deleted user or team is closed, the requests are sent and, when
  all have succeeded, the folder is reloaded. The kind is that of the actions of the folder.\<close>

datatype deletion = DeleteUser "idm_user option" | DeleteRole string | RemoveFromTeam string string

definition close_deleted :: "nat list \<Rightarrow> book \<Rightarrow> book" where
  "close_deleted sel b =
     (case bkRightPane b of Some r \<Rightarrow> if r \<in> set sel then b\<lparr>bkRightPane := None\<rparr> else b | None \<Rightarrow> b)"

definition onDeleteAction :: "bool \<Rightarrow> string \<Rightarrow> nat \<Rightarrow> nat list \<Rightarrow> book \<Rightarrow> book \<times> deletion list option" where
  "onDeleteAction confirmed kind parent sel b =
     (if \<not> confirmed then (b, None)
      else if kind = ''users'' then (close_deleted sel b, Some (map (\<lambda>k. DeleteUser (abUser (item_at b k))) sel))
      else if kind = ''teams'' then (close_deleted sel b, Some (map (\<lambda>k. DeleteRole (role_uuid (item_at b k))) sel))
      else if kind = ''team'' then
        (b, Some (map (\<lambda>k. RemoveFromTeam (role_uuid (item_at b parent))
              (case abUser (item_at b k) of Some u \<Rightarrow> iuLogin u | None \<Rightarrow> [])) sel))
      else (b, None))"

definition onCardUpdateAction :: "bool \<Rightarrow> bool \<Rightarrow> nat \<Rightarrow> book \<Rightarrow> book" where
  "onCardUpdateAction selector selecting i b =
     (if abParent (item_at b i) = Some (bkSelected b) then reloadCurrentNode selector selecting b else b)"

section \<open>Pages\<close>

definition total_pages :: "pagination \<Rightarrow> nat" where
  "total_pages p = (pgMax p + pgInterval p - 1) div pgInterval p"

definition current_page :: "pagination \<Rightarrow> nat" where
  "current_page p = (pgStart p + pgInterval p - 1) div pgInterval p"

definition page_range :: "pagination \<Rightarrow> nat \<Rightarrow> string" where
  "page_range p v = nat_str (v * pgInterval p) @ ''-'' @ nat_str ((v + 1) * pgInterval p)"

section \<open>The first book\<close>

record book_options =
  boTeamsOnly :: bool
  boUsersOnly :: bool
  boUsersFrom :: string
  boSelector :: bool
  boCreateUsers :: bool
  boRemotes :: "(string, string) obj option"      \<comment> \<open>the trusted servers of the configuration\<close>

definition teams_folder :: "nat option \<Rightarrow> ab_item" where
  "teams_folder parent = no_item\<lparr>abParent := parent, abId := ''teams'', abChildrenLoader := Some LTeams, abNotSelectable := True\<rparr>"

definition local_folders :: "book_options \<Rightarrow> ab_item list" where
  "local_folders opt =
     (if boUsersFrom opt = ''remote'' then []
      else (if boCreateUsers opt then
              [no_item\<lparr>abParent := Some 0, abId := ''ext'', abItemsLoader := Some LExternal, abNotSelectable := True\<rparr>] else [])
        @ (if boUsersOnly opt then [] else [teams_folder (Some 0)])
        @ [no_item\<lparr>abParent := Some 0, abId := ''PYDIO_GRP_/'', abChildrenLoader := Some LGroups,
             abItemsLoader := Some LGroupUsers, abNotSelectable := True\<rparr>])"

definition remote_servers :: "book_options \<Rightarrow> (string, string) obj" where
  "remote_servers opt =
     (case boRemotes opt of
        Some rs \<Rightarrow> if \<not> boUsersOnly opt \<and> boUsersFrom opt \<noteq> ''local'' then rs else []
      | None \<Rightarrow> [])"

definition root_item :: "nat list \<Rightarrow> ab_item" where
  "root_item cs = no_item\<lparr>abId := ''root'', abType := ''root'', abCollections := Some cs\<rparr>"

definition remotes_item :: "nat list \<Rightarrow> ab_item" where
  "remotes_item cs = no_item\<lparr>abParent := Some 0, abId := ''remotes'', abNotSelectable := True, abCollections := Some cs\<rparr>"

definition server_item :: "nat \<Rightarrow> string \<times> string \<Rightarrow> ab_item" where
  "server_item p = (\<lambda>(k, label). no_item\<lparr>abParent := Some p, abId := k, abLabel := label, abType := ''remote'',
     abNotSelectable := True\<rparr>)"

text \<open>Without any folder the selected item is \<open>undefined\<close> and the first rendering throws.\<close>

definition newBook :: "book_options \<Rightarrow> book option" where
  "newBook opt =
     (if boTeamsOnly opt then
        Some \<lparr>bkItems = [teams_folder None], bkSelected = 0, bkLoading = False, bkRightPane = None, bkPending = [], bkPicked = []\<rparr>
      else
        let ls = local_folders opt; rs = remote_servers opt; n = length ls;
            remotes = (if rs = [] then [] else
              remotes_item [n + 2..<n + 2 + length rs] # map (server_item (n + 1)) rs);
            tops = [1..<n + 1] @ (if rs = [] then [] else [n + 1])
        in if \<not> boSelector opt \<and> tops = [] then None
           else Some \<lparr>bkItems = root_item tops # ls @ remotes,
                  bkSelected = (if boSelector opt then 0 else hd tops), bkLoading = False, bkRightPane = None,
                  bkPending = [], bkPicked = []\<rparr>)"

section \<open>Reachable books\<close>

inductive book_step :: "string \<Rightarrow> bool \<Rightarrow> bool \<Rightarrow> book \<Rightarrow> book \<Rightarrow> bool"
  for me :: string and selector :: bool and selecting :: bool where
  clicked: "i < length (bkItems b) \<Longrightarrow> book_step me selector selecting b (onFolderClicked selector selecting i b)"
| user_clicked: "i < length (bkItems b) \<Longrightarrow> book_step me selector selecting b (onUserListItemClicked selecting i b)"
| answered: "(i, leaf, req) \<in> set (bkPending b) \<Longrightarrow>
    book_step me selector selecting b (children_answered me i leaf l req a b)"
| paged: "book_step me selector selecting b (reloadCurrentAtPage selector selecting p b)"
| searched: "book_step me selector selecting b (reloadCurrentWithSearch selector selecting v b)"
| reloaded: "book_step me selector selecting b (reloadCurrentNode selector selecting b)"
| card: "book_step me selector selecting b (refresh_card b)"
| deleted: "book_step me selector selecting b (fst (onDeleteAction confirmed kind parent sel b))"
| updated: "book_step me selector selecting b (onCardUpdateAction selector selecting i b)"

definition book_reachable :: "string \<Rightarrow> bool \<Rightarrow> bool \<Rightarrow> book_options \<Rightarrow> book \<Rightarrow> bool" where
  "book_reachable me selector selecting opt = reach (\<lambda>b. newBook opt = Some b) (book_step me selector selecting)"

text \<open>The items shown, selected or waited for exist, and the children of an item have it as parent.\<close>

definition kids :: "ab_item \<Rightarrow> nat set" where
  "kids e = set (case abCollections e of Some cs \<Rightarrow> cs | None \<Rightarrow> []) \<union> set (case abLeafs e of Some ls \<Rightarrow> ls | None \<Rightarrow> [])"

definition family :: "ab_item list \<Rightarrow> bool" where
  "family es \<longleftrightarrow> (\<forall>i < length es. \<forall>k \<in> kids (es ! i). k < length es \<and> abParent (es ! k) = Some i)"

definition book_ok :: "book \<Rightarrow> bool" where
  "book_ok b \<longleftrightarrow> family (bkItems b) \<and> bkSelected b < length (bkItems b) \<and>
     (\<forall>r. bkRightPane b = Some r \<longrightarrow> r < length (bkItems b)) \<and>
     (\<forall>(i, leaf, req) \<in> set (bkPending b). i < length (bkItems b))"

lemma family_change:
  assumes "family es" "i < length es" "kids (f (es ! i)) \<subseteq> kids (es ! i)" "abParent (f (es ! i)) = abParent (es ! i)"
  shows "family (es[i := f (es ! i)])"
  using assms unfolding family_def by (auto simp: nth_list_update)

lemma items_of_parent: "e \<in> set (items_of me l i it a) \<Longrightarrow> abParent e = Some i \<and> kids e = {}"
  by (cases l) (auto simp: team_item_def group_item_def user_item_def no_item_def kids_def)

lemma paginate_sel [simp]:
  "abParent (paginate l a e) = abParent e" "abCollections (paginate l a e) = abCollections e" "abLeafs (paginate l a e) = abLeafs e"
  by (cases l; simp)+

lemma family_adopt:
  assumes fam: "family es" and i: "i < length es" and par: "abParent e' = abParent (es ! i)"
    and sub: "kids e' \<subseteq> kids (es ! i) \<union> {length es..<length es + length new}"
    and new: "\<And>e. e \<in> set new \<Longrightarrow> abParent e = Some i \<and> kids e = {}"
  shows "family (es[i := e'] @ new)"
proof -
  have parents: "abParent ((es[i := e'] @ new) ! k) = abParent (es ! k)" if "k < length es" for k
    using that par i by (simp add: nth_append nth_list_update)
  have adopted: "abParent ((es[i := e'] @ new) ! k) = Some i" if "length es \<le> k" "k < length es + length new" for k
    using that new [of "new ! (k - length es)"] by (simp add: nth_append)
  have old: "k < length es \<and> abParent (es ! k) = Some j" if "j < length es" "k \<in> kids (es ! j)" for j k
    using fam that by (simp add: family_def)
  have "k < length es + length new \<and> abParent ((es[i := e'] @ new) ! k) = Some j"
    if j: "j < length es + length new" and k: "k \<in> kids ((es[i := e'] @ new) ! j)" for j k
  proof (cases "j < length es")
    case False
    then have "kids ((es[i := e'] @ new) ! j) = {}" using j new [of "new ! (j - length es)"] by (simp add: nth_append)
    then show ?thesis using k by simp
  next
    case True
    then have "k \<in> kids (es ! j) \<or> j = i \<and> length es \<le> k \<and> k < length es + length new"
      using True k sub by (cases "j = i") (auto simp: nth_append)
    then show ?thesis using old [OF True] parents adopted by fastforce
  qed
  then show ?thesis by (simp add: family_def)
qed

lemma change_item_sel [simp]:
  "length (bkItems (change_item i f b)) = length (bkItems b)" "bkSelected (change_item i f b) = bkSelected b"
  "bkPending (change_item i f b) = bkPending b" "bkRightPane (change_item i f b) = bkRightPane b"
  "i < length (bkItems b) \<Longrightarrow> bkItems (change_item i f b) = (bkItems b)[i := f (bkItems b ! i)]"
  by (simp_all add: change_item_def item_at_def)

lemma book_ok_change:
  assumes "book_ok b" "\<And>e. kids (f e) = kids e" "\<And>e. abParent (f e) = abParent e"
  shows "book_ok (change_item (bkSelected b) f b)"
  using assms family_change [of "bkItems b" "bkSelected b" f] by (simp add: book_ok_def)

lemma book_ok_select: "book_ok b \<Longrightarrow> i < length (bkItems b) \<Longrightarrow> book_ok (select_item i b)"
  by (simp add: select_item_def book_ok_def)

lemma book_ok_load:
  assumes "book_ok b" "i < length (bkItems b)"
  shows "book_ok (load_leafs i b)" "book_ok (load_collections i b)"
  using assms by (auto simp: load_leafs_def load_collections_def select_item_def book_ok_def split: option.splits)

lemma book_ok_clicked:
  assumes "book_ok b" "i < length (bkItems b)"
  shows "book_ok (onFolderClicked selector selecting i b)" "book_ok (onUserListItemClicked selecting i b)"
proof -
  show u: "book_ok (onUserListItemClicked selecting i b)"
    using assms by (auto simp: onUserListItemClicked_def book_ok_def)
  have "book_ok (b\<lparr>bkLoading := True\<rparr>)" using assms(1) by (simp add: book_ok_def)
  then show "book_ok (onFolderClicked selector selecting i b)"
    using u book_ok_load [of "b\<lparr>bkLoading := True\<rparr>" i] assms(2) by (simp add: onFolderClicked_def)
qed

lemma kids_forget [simp]: "kids (e\<lparr>abLeafLoaded := x, abCollectionsLoaded := y\<rparr>) = kids e"
  "kids (e\<lparr>abParams := p\<rparr>) = kids e" "kids (choose_page c e) = kids e" "abParent (choose_page c e) = abParent e"
  by (simp_all add: kids_def choose_page_def split: page_choice.splits)

lemma book_ok_forget: "book_ok b \<Longrightarrow> book_ok (forget_children b)"
  unfolding forget_children_def by (rule book_ok_change) simp_all

lemma forget_sel [simp]: "bkSelected (forget_children b) = bkSelected b" "bkPending (forget_children b) = bkPending b" "length (bkItems (forget_children b)) = length (bkItems b)"
  by (simp_all add: forget_children_def)

lemma book_ok_reload:
  assumes "book_ok b" "\<And>e. kids (f e) = kids e" "\<And>e. abParent (f e) = abParent e"
  shows "book_ok (onFolderClicked selector selecting (bkSelected b) (change_item (bkSelected b) f (forget_children b)))"
proof (rule book_ok_clicked)
  show "book_ok (change_item (bkSelected b) f (forget_children b))"
    using book_ok_change [OF book_ok_forget [OF assms(1)], of f] assms(2,3) by simp
qed (use assms(1) in \<open>simp add: book_ok_def\<close>)

lemma book_ok_stored:
  assumes "book_ok b" "i < length (bkItems b)"
  shows "book_ok (store_children me i leaf l a b)" "i < length (bkItems (store_children me i leaf l a b))"
proof -
  let ?es = "bkItems b" and ?new = "items_of me l i (item_at b i) a"
  let ?refs = "[length ?es..<length ?es + length ?new]"
  let ?put = "\<lambda>e. if leaf then (paginate l a e)\<lparr>abLeafs := Some ?refs, abLeafLoaded := True\<rparr>
     else (paginate l a e)\<lparr>abCollections := Some ?refs, abCollectionsLoaded := True\<rparr>"
  have items: "bkItems (store_children me i leaf l a b) = ?es[i := ?put (?es ! i)] @ ?new"
    using assms(2) by (simp add: store_children_def Let_def item_at_def)
  have "family (?es[i := ?put (?es ! i)] @ ?new)"
    using assms items_of_parent by (intro family_adopt) (auto simp: book_ok_def kids_def split: option.splits)
  then show "book_ok (store_children me i leaf l a b)"
    using assms(1) items by (auto simp: book_ok_def store_children_def Let_def intro: less_le_trans)
  show "i < length (bkItems (store_children me i leaf l a b))" using assms(2) by (simp add: items)
qed

lemma book_ok_answered:
  assumes "book_ok b" "(i, leaf, req) \<in> set (bkPending b)"
  shows "book_ok (children_answered me i leaf l req a b)"
proof -
  let ?b = "b\<lparr>bkPending := remove1 (i, leaf, req) (bkPending b)\<rparr>"
  have i: "i < length (bkItems ?b)" using assms by (auto simp: book_ok_def)
  have "book_ok ?b" using assms(1) set_remove1_subset [of "(i, leaf, req)" "bkPending b"] by (auto simp: book_ok_def)
  note stored = book_ok_stored [OF this i]
  show ?thesis
  proof (cases leaf)
    case True
    then show ?thesis using book_ok_select [OF stored] by (simp add: children_answered_def Let_def)
  next
    case False
    then show ?thesis using book_ok_load(1) [OF stored] by (simp add: children_answered_def Let_def)
  qed
qed

lemma book_ok_card: "book_ok b \<Longrightarrow> book_ok (refresh_card b)"
proof -
  assume ok: "book_ok b"
  have found: "foldl (\<lambda>found k. if P k then Some k else found) c ks = Some r \<Longrightarrow> c = Some r \<or> r \<in> set ks"
    for P and c :: "nat option" and ks r
    by (induction ks arbitrary: c) (auto split: if_splits)
  have "k < length (bkItems b)" if "k \<in> kids (item_at b (bkSelected b))" for k
    using ok that by (auto simp: book_ok_def family_def item_at_def)
  then show ?thesis using ok
    by (auto simp: refresh_card_def Let_def book_ok_def kids_def dest!: found split: option.splits)
qed

lemma book_ok_current: "book_ok b \<Longrightarrow> book_ok (reloadCurrentNode selector selecting b)"
  using book_ok_clicked(1) [OF book_ok_forget, of b "bkSelected b"]
  by (simp add: reloadCurrentNode_def Let_def book_ok_def)

lemma book_ok_deleted: "book_ok b \<Longrightarrow> book_ok (fst (onDeleteAction confirmed kind parent sel b))"
  by (simp add: onDeleteAction_def close_deleted_def book_ok_def split: option.split)

lemma book_ok_step: "book_step me selector selecting b c \<Longrightarrow> book_ok b \<Longrightarrow> book_ok c"
proof (induction rule: book_step.induct)
  case (searched b v)
  then show ?case using book_ok_reload [of b "choose_page AllLetters"]
      book_ok_reload [of b "\<lambda>e. e\<lparr>abParams := Some \<lparr>paAlpha = False, paSearch = True, paValue = v\<rparr>\<rparr>"]
    by (simp add: reloadCurrentWithSearch_def reloadCurrentAtPage_def Let_def)
next
  case (paged b p)
  then show ?case using book_ok_reload [of b "choose_page p"] by (simp add: reloadCurrentAtPage_def Let_def)
next
  case (updated b i)
  then show ?case using book_ok_current by (simp add: onCardUpdateAction_def)
qed (auto intro: book_ok_clicked book_ok_answered book_ok_card book_ok_current book_ok_deleted simp del: fst_conv)

lemma local_folders_new: "e \<in> set (local_folders opt) \<Longrightarrow> abParent e = Some 0 \<and> kids e = {}"
  by (auto simp: local_folders_def teams_folder_def no_item_def kids_def split: if_splits)

lemma new_items [simp]:
  "abParent (root_item cs) = None" "kids (root_item cs) = set cs"
  "abParent (remotes_item cs) = Some 0" "kids (remotes_item cs) = set cs"
  "abParent (server_item p s) = Some p" "kids (server_item p s) = {}"
  by (cases s; simp add: root_item_def remotes_item_def server_item_def no_item_def kids_def)+

lemma family_new:
  assumes ls: "\<And>e. e \<in> set ls \<Longrightarrow> abParent e = Some 0 \<and> kids e = {}"
  shows "family (root_item [1..<length ls + 1] # ls)"
    "family (root_item ([1..<length ls + 1] @ [length ls + 1]) # ls @
       remotes_item [length ls + 2..<length ls + 2 + length rs] # map (server_item (length ls + 1)) rs)"
proof -
  let ?n = "length ls"
  let ?all = "root_item ([1..<?n + 1] @ [?n + 1])" and ?rem = "remotes_item [?n + 2..<?n + 2 + length rs]"
  have one: "family [root_item []]" by (simp add: family_def)
  have "family ([root_item []][0 := root_item [1..<?n + 1]] @ ls)"
    by (rule family_adopt [OF one]) (use ls in auto)
  then show "family (root_item [1..<?n + 1] # ls)" by simp
  have "family ([root_item []][0 := ?all] @ (ls @ [remotes_item []]))"
    by (rule family_adopt [OF one]) (use ls in auto)
  then have two: "family (?all # ls @ [remotes_item []])" by simp
  have "family ((?all # ls @ [remotes_item []])[?n + 1 := ?rem] @ map (server_item (?n + 1)) rs)"
    by (rule family_adopt [OF two]) (auto simp: nth_append)
  then show "family (?all # ls @ ?rem # map (server_item (?n + 1)) rs)" by (simp add: list_update_append)
qed

lemma hd_tops: "xs = [1..<n + 1] @ ys \<Longrightarrow> xs \<noteq> [] \<Longrightarrow> set ys \<subseteq> {n + 1} \<Longrightarrow> hd xs = 1"
  by (cases n; cases ys) (auto simp del: upt_Suc simp add: upt_conv_Cons)

lemma book_ok_new: "newBook opt = Some b \<Longrightarrow> book_ok b"
proof -
  assume b: "newBook opt = Some b"
  let ?ls = "local_folders opt" and ?rs = "remote_servers opt"
  let ?tops = "[1..<length ?ls + 1] @ (if ?rs = [] then [] else [length ?ls + 1])"
  note fam = family_new [of ?ls, OF local_folders_new]
  show "book_ok b"
  proof (cases "boTeamsOnly opt")
    case True
    then show ?thesis using b
      by (auto simp: newBook_def book_ok_def family_def teams_folder_def kids_def no_item_def)
  next
    case False
    then have nonempty: "boSelector opt \<or> ?tops \<noteq> []" using b by (auto simp: newBook_def Let_def split: if_splits)
    have items: "bkItems b = root_item ?tops # ?ls @ (if ?rs = [] then [] else
        remotes_item [length ?ls + 2..<length ?ls + 2 + length ?rs] # map (server_item (length ?ls + 1)) ?rs)"
      and rest: "bkSelected b = (if boSelector opt then 0 else hd ?tops)" "bkRightPane b = None" "bkPending b = []"
      using b False by (auto simp: newBook_def Let_def simp del: upt_Suc split: if_splits)
    have "family (bkItems b)" using fam(1) fam(2) [where rs = ?rs] unfolding items by (cases "?rs = []") (simp_all del: upt_Suc)
    moreover have "bkSelected b < length (bkItems b)"
    proof (cases "boSelector opt")
      case False
      then have "hd ?tops = 1" using nonempty by (intro hd_tops [OF refl]) auto
      moreover have "?ls \<noteq> [] \<or> ?rs \<noteq> []" using nonempty False by auto
      ultimately show ?thesis using False by (auto simp: rest items simp del: upt_Suc)
    qed (simp add: rest items)
    ultimately show ?thesis using rest by (simp add: book_ok_def)
  qed
qed

interpretation address_book: reactive_system "\<lambda>b. newBook opt = Some b" "book_step me selector selecting" book_ok
  for opt me selector selecting
  by unfold_locales (auto intro: book_ok_new book_ok_step)

lemma book_reachable_ok: "book_reachable me selector selecting opt b \<Longrightarrow> book_ok b"
  unfolding book_reachable_def by (rule address_book.reached)

lemma book_reachable_start: "newBook opt = Some b \<Longrightarrow> book_reachable me selector selecting opt b"
  unfolding book_reachable_def by (rule reach.started)

lemma book_reachable_step:
  "book_reachable me selector selecting opt b \<Longrightarrow> book_step me selector selecting b c \<Longrightarrow>
     book_reachable me selector selecting opt c"
  unfolding book_reachable_def by (rule reach.stepped)

section \<open>The pages\<close>

lemma no_dash: "CHR ''-'' \<notin> set (nat_str n)"
  using nat_str_digits [of n] by (auto simp: list_all_iff is_digit_def)

lemma parse_page_range:
  "parse_range (Some (page_range p v)) = (Some (int (v * pgInterval p)), Some (int (pgInterval p)))"
proof -
  have "js_split CHR ''-'' (page_range p v) = [nat_str (v * pgInterval p), nat_str ((v + 1) * pgInterval p)]"
    unfolding page_range_def using no_dash by (simp add: js_split_append js_split_no_sep)
  then show ?thesis by (simp add: parse_range_def page_range_def parse_int_nat_str)
qed

lemma slices_cover:
  assumes "n > 0"
  shows "concat (map (\<lambda>v. take n (drop (v * n) xs)) [0..<k]) = take (k * n) xs"
proof (induction k)
  case (Suc k)
  have "Suc k * n = k * n + n" by simp
  then show ?case by (simp only: take_add upt_Suc_append [OF le0] map_append concat_append Suc.IH list.map concat.simps append_Nil2)
qed simp

lemma pages_enough:
  assumes "0 < pgInterval p"
  shows "pgMax p \<le> total_pages p * pgInterval p"
proof -
  let ?n = "pgInterval p" and ?m = "pgMax p + pgInterval p - 1"
  have "?m div ?n * ?n + ?m mod ?n = ?m" by simp
  moreover have "?m mod ?n < ?n" using assms by simp
  ultimately show ?thesis using assms unfolding total_pages_def by linarith
qed

section \<open>What a reload asks for\<close>

lemma item_at_change [simp]: "i < length (bkItems b) \<Longrightarrow> item_at (change_item i f b) i = f (item_at b i)"
  by (simp add: item_at_def change_item_def)

lemma item_at_state [simp]: "item_at (b\<lparr>bkLoading := x\<rparr>) i = item_at b i" "item_at (b\<lparr>bkPending := p\<rparr>) i = item_at b i"
    "item_at (b\<lparr>bkLoading := x, bkPending := p\<rparr>) i = item_at b i"
  by (simp_all add: item_at_def)

lemma item_at_stored [simp]:
  assumes "i < length (bkItems b)"
  shows "item_at (store_children me i leaf l a b) i =
    (let refs = [length (bkItems b)..<length (bkItems b) + length (items_of me l i (item_at b i) a)]
     in if leaf then (paginate l a (item_at b i))\<lparr>abLeafs := Some refs, abLeafLoaded := True\<rparr>
        else (paginate l a (item_at b i))\<lparr>abCollections := Some refs, abCollectionsLoaded := True\<rparr>)"
  using assms by (simp add: store_children_def Let_def item_at_def nth_append)

lemma pending_stored [simp]: "bkPending (store_children me i leaf l a b) = bkPending b"
  by (simp add: store_children_def Let_def)

lemma reload_users:
  assumes "bkSelected b = i" "i < length (bkItems b)" "bkPending b = []"
    and "abChildrenLoader (f e) = Some LGroups" "abItemsLoader (f e) = Some LGroupUsers" "abRole (f e) = None"
      "\<not> abLeafLoaded (f e)" "\<not> abCollectionsLoaded (f e)"
    and e: "e = (item_at b i)\<lparr>abLeafLoaded := False, abCollectionsLoaded := False\<rparr>"
    and s: "s = onFolderClicked selector selecting i (change_item i f (forget_children b))"
  shows "bkPending s = [(i, False, request_of LGroups (f e))]"
    and "bkPending (children_answered me i False LGroups (request_of LGroups (f e)) a s) = [(i, True, request_of LGroupUsers (f e))]"
proof -
  let ?b = "change_item i f (forget_children b)"
  have at: "item_at ?b i = f e" using assms(1,2) by (simp add: forget_children_def e)
  have s': "s = ?b\<lparr>bkLoading := True, bkPending := [(i, False, request_of LGroups (f e))]\<rparr>"
    using assms(3-8) by (simp add: s onFolderClicked_def at load_collections_def loader_of_def)
  show "bkPending s = [(i, False, request_of LGroups (f e))]" by (simp add: s')
  let ?t = "store_children me i False LGroups a (s\<lparr>bkPending := []\<rparr>)"
  let ?g = "(f e)\<lparr>abCollections := Some [length (bkItems b)..<length (bkItems b) + length (anUsers a)], abCollectionsLoaded := True\<rparr>"
  have "item_at s i = item_at ?b i" by (simp add: s')
  then have answered: "item_at ?t i = ?g"
    using assms(2) at by simp (simp add: s')
  have "request_of LGroupUsers ?g = request_of LGroupUsers (f e)" by (simp add: group_path_def filter_value_def)
  then show "bkPending (children_answered me i False LGroups (request_of LGroups (f e)) a s) = [(i, True, request_of LGroupUsers (f e))]"
    using assms(4-8) answered by (simp add: children_answered_def Let_def load_leafs_def loader_of_def s')
qed

end
