(* ===== verification/AddressBookProperties.thy ===== *)
theory AddressBookProperties
  imports AddressBook
begin

text \<open>Properties of the address book: its items, its pages and the folder it shows.\<close>

text \<open>C39. In every state the address book reaches, the folder shown, the card on the right and the folder of
  each request under way exist, and the children of an item have it as parent.\<close>

theorem book_family:
  assumes "book_reachable me selector selecting opt b"
  shows "book_ok b"
  using assms by (rule book_reachable_ok)

definition book_answered :: book where
  "book_answered = (case newBook \<lparr>boTeamsOnly = False, boUsersOnly = True, boUsersFrom = ''local'', boSelector = False,
       boCreateUsers = False, boRemotes = None\<rparr> of
     Some b \<Rightarrow> children_answered ''me'' 1 False LGroups (ListGroups ''/'' [] 0 1000)
       \<lparr>anUsers = [\<lparr>iuLogin = [], iuUuid = ''g'', iuGroupPath = ''/'', iuGroupLabel = ''g'', iuIsGroup = True, iuAttributes = []\<rparr>],
        anTeams = [], anTotal = 1, anOffset = 0, anLimit = 0\<rparr> (onFolderClicked False False 1 b))"

lemma book_family_witness: "length (bkItems book_answered) = 3 \<and> book_ok book_answered"
proof -
  let ?opt = "\<lparr>boTeamsOnly = False, boUsersOnly = True, boUsersFrom = ''local'', boSelector = False,
       boCreateUsers = False, boRemotes = None\<rparr>"
  let ?reached = "book_reachable ''me'' False False ?opt"
  obtain b where b: "newBook ?opt = Some b" "length (bkItems b) = 2"
    "(1, False, ListGroups ''/'' [] 0 1000) \<in> set (bkPending (onFolderClicked False False 1 b))"
  proof -
    have "case newBook ?opt of None \<Rightarrow> False | Some b \<Rightarrow> length (bkItems b) = 2 \<and>
        (1, False, ListGroups ''/'' [] 0 1000) \<in> set (bkPending (onFolderClicked False False 1 b))" by code_simp
    then show ?thesis using that by (auto split: option.splits)
  qed
  have "?reached (onFolderClicked False False 1 b)"
    using book_reachable_step [OF book_reachable_start [OF b(1)] book_step.clicked] b(2) by simp
  then have "?reached book_answered"
    unfolding book_answered_def b(1) option.case by (rule book_reachable_step) (rule book_step.answered [OF b(3)])
  moreover have "length (bkItems book_answered) = 3" by code_simp
  ultimately show ?thesis using book_family by blast
qed

definition served :: "'a list \<Rightarrow> int option \<times> int option \<Rightarrow> 'a list" where
  "served xs r = take (nat (the (snd r))) (drop (nat (the (fst r))) xs)"

text \<open>C40. The numbered pages of a list cut it without gap or overlap: what the server holds in the ranges
  the pages ask for is, in their order, the whole list.\<close>

theorem pages_cover:
  assumes "0 < pgInterval p" "pgMax p = length xs"
  shows "concat (map (\<lambda>v. served xs (parse_range (Some (page_range p v)))) [0..<total_pages p]) = xs"
  using slices_cover [OF assms(1), of xs "total_pages p"] pages_enough [OF assms(1)] assms(2)
  by (simp add: served_def parse_page_range del: of_nat_mult)

lemma pages_cover_witness:
  "(let p = \<lparr>pgStart = 0, pgEnd = 2, pgMax = 5, pgInterval = 2\<rparr>; xs = [1::nat, 2, 3, 4, 5] in
     total_pages p = 3 \<and> page_range p 2 = ''4-6'' \<and>
     concat (map (\<lambda>v. served xs (parse_range (Some (page_range p v)))) [0..<total_pages p]) = xs)"
proof -
  let ?p = "\<lparr>pgStart = 0, pgEnd = 2, pgMax = 5, pgInterval = 2\<rparr>" and ?xs = "[1::nat, 2, 3, 4, 5]"
  have "total_pages ?p = 3 \<and> page_range ?p 2 = ''4-6''" by code_simp
  then show ?thesis using pages_cover [of ?p ?xs] by (simp add: Let_def)
qed

text \<open>A search in a folder of users keeps the page chosen before: once the groups are answered it asks for
  that page of the matches, so that the first ones are not shown.\<close>

lemma search_keeps_page:
  assumes "bkSelected b = i" "i < length (bkItems b)" "item_at b i = e" "abRange e = Some (page_range p v)"
    "abChildrenLoader e = Some LGroups" "abItemsLoader e = Some LGroupUsers" "abRole e = None" "bkPending b = []" "q \<noteq> []"
  shows "let s = reloadCurrentWithSearch selector selecting q b; r = ListGroups (group_path e) q 0 1000 in
    bkPending s = [(i, False, r)] \<and>
    bkPending (children_answered me i False LGroups r a s) =
      [(i, True, ListUsers (group_path e) q False (Some (int (v * pgInterval p))) (Some (int (pgInterval p))) ''!shared'')]"
proof -
  let ?f = "\<lambda>e. e\<lparr>abParams := Some \<lparr>paAlpha = False, paSearch = True, paValue = q\<rparr>\<rparr>"
  have s: "reloadCurrentWithSearch selector selecting q b =
      onFolderClicked selector selecting i (change_item i ?f (forget_children b))"
    using assms(1,9) by (simp add: reloadCurrentWithSearch_def Let_def)
  note reload = reload_users(1) [OF assms(1,2,8) _ _ _ _ _ refl s]
    reload_users(2) [OF assms(1,2,8) _ _ _ _ _ refl s, where me = me and a = a]
  show ?thesis
    using reload assms(3-9) by (simp add: Let_def parse_page_range group_path_def filter_value_def del: of_nat_mult)
qed

definition users_book :: book where
  "users_book = the (newBook \<lparr>boTeamsOnly = False, boUsersOnly = True, boUsersFrom = ''local'', boSelector = False,
     boCreateUsers = False, boRemotes = None\<rparr>)"

definition no_answer :: api_answer where
  "no_answer = \<lparr>anUsers = [], anTeams = [], anTotal = 120, anOffset = 50, anLimit = 50\<rparr>"

definition second_page :: book where
  "second_page = children_answered ''me'' 1 True LGroupUsers (ListUsers ''/'' [] False (Some 50) (Some 50) ''!shared'') no_answer
     (children_answered ''me'' 1 False LGroups (ListGroups ''/'' [] 0 1000) no_answer
       (reloadCurrentAtPage False False (LetterOrRange ''50-100'') users_book))"

text \<open>Of two folders clicked one after the other the one answered last is shown, whichever it is: here the
  first.\<close>

lemma late_answer_selects:
  assumes "i \<noteq> j" "bkPending b = []"
    and "\<And>k. k \<in> {i, j} \<Longrightarrow> k < length (bkItems b) \<and> loader_of False (item_at b k) = None \<and>
      loader_of True (item_at b k) = Some (L k) \<and> abRole (item_at b k) = None"
  shows "let s = onFolderClicked selector selecting j (onFolderClicked selector selecting i b);
      r = (\<lambda>k. request_of (L k) (item_at b k));
      t = children_answered me i True (L i) (r i) x (children_answered me j True (L j) (r j) y s) in
    bkPending s = [(i, True, r i), (j, True, r j)] \<and> bkPending t = [] \<and> \<not> bkLoading t \<and> bkSelected t = i"
  using assms
  by (simp add: onFolderClicked_def load_collections_def load_leafs_def children_answered_def store_children_def
      select_item_def Let_def)

end
