(* ===== verification/NodeTree.thy ===== *)
theory NodeTree
  imports Paths
begin

text \<open>
  The tree of files the interface shows: \<open>gui.ajax/res/js/core/model/AjxpNode.es6\<close>.

  Nodes are objects that refer to each other, so they live in a list and a reference is a position in
  it; a new node goes to its end. \<open>_children\<close> is a map from paths in insertion order. The state also
  has the two fields of the data model that its observer of \<open>node_replaced\<close> writes, because that
  observer runs inside the operations of the nodes, and the list of the notifications sent. Observers
  of the views do not write the nodes.
\<close>

section \<open>Nodes\<close>

datatype mval = MText string | MNum nat | MFlag bool | MUndef | MPages "(string, nat) obj"

record anode =
  anPath :: string
  anLeaf :: bool
  anLabel :: string
  anIcon :: string
  anRoot :: bool
  anMeta :: "(string, mval) obj"
  anChildren :: "(string, nat) obj"
  anLoaded :: bool
  anLoading :: bool
  anFake :: bool
  anProvider :: "nat option"
  anParent :: "nat option"

record tree =
  trNodes :: "anode list"
  trContext :: "nat option"
  trRep :: string
  trLog :: "(nat \<times> string) list"          \<comment> \<open>notifications of nodes\<close>
  trBus :: "string list"                  \<comment> \<open>events published by the data model\<close>

definition strip_slash :: "string \<Rightarrow> string" where
  "strip_slash p = (if length p > 1 \<and> last p = CHR ''/'' then butlast p else p)"

definition newNode :: "string \<Rightarrow> bool \<Rightarrow> string \<Rightarrow> string \<Rightarrow> nat option \<Rightarrow> anode" where
  "newNode path leaf label icon provider =
     \<lparr>anPath = strip_slash path, anLeaf = leaf, anLabel = label, anIcon = icon, anRoot = False, anMeta = [],
      anChildren = [], anLoaded = False, anLoading = False, anFake = False, anProvider = provider, anParent = None\<rparr>"

abbreviation node :: "('s) tree_scheme \<Rightarrow> nat \<Rightarrow> anode" where
  "node s i \<equiv> trNodes s ! i"

definition set_node :: "nat \<Rightarrow> (anode \<Rightarrow> anode) \<Rightarrow> 's tree_scheme \<Rightarrow> 's tree_scheme" where
  "set_node i f s = s\<lparr>trNodes := (trNodes s)[i := f (trNodes s ! i)]\<rparr>"

definition alloc :: "anode \<Rightarrow> 's tree_scheme \<Rightarrow> nat \<times> 's tree_scheme" where
  "alloc n s = (length (trNodes s), s\<lparr>trNodes := trNodes s @ [n]\<rparr>)"

section \<open>The context and its observer\<close>

definition publish :: "string \<Rightarrow> 's tree_scheme \<Rightarrow> 's tree_scheme" where
  "publish ev s = s\<lparr>trBus := trBus s @ [ev]\<rparr>"

definition setContextNode :: "nat \<Rightarrow> bool \<Rightarrow> 's tree_scheme \<Rightarrow> 's tree_scheme" where
  "setContextNode i force s =
     (if trContext s = Some i \<and> trRep s = anPath (node s i) \<and> \<not> force then s
      else publish ''context_changed'' (s\<lparr>trContext := Some i, trRep := anPath (node s i)\<rparr>))"

text \<open>The observer of \<open>node_replaced\<close> sits on the context node and only there.\<close>

definition notify :: "nat \<Rightarrow> string \<Rightarrow> 's tree_scheme \<Rightarrow> 's tree_scheme" where
  "notify i ev s =
     (let t = s\<lparr>trLog := trLog s @ [(i, ev)]\<rparr>
      in if ev = ''node_replaced'' \<and> trContext s = Some i then setContextNode i True t else t)"

definition notify_parent :: "nat \<Rightarrow> 's tree_scheme \<Rightarrow> 's tree_scheme" where
  "notify_parent i s = (case anParent (node s i) of Some p \<Rightarrow> notify p ''child_replaced'' s | None \<Rightarrow> s)"

section \<open>Children\<close>

definition findChildByPath :: "'s tree_scheme \<Rightarrow> nat \<Rightarrow> string \<Rightarrow> nat option" where
  "findChildByPath s i path = map_of (anChildren (node s i)) path"

fun im_time :: "mval option \<Rightarrow> int option option" where
  "im_time (Some (MText t)) = (if t = [] then None else Some (parse_int t))"
| "im_time (Some (MNum n)) = (if n = 0 then None else Some (Some (int n)))"
| "im_time (Some (MFlag b)) = (if b then Some None else None)"
| "im_time (Some (MPages ps)) = Some None"
| "im_time (Some MUndef) = None"
| "im_time None = None"

text \<open>\<open>None\<close> when the value is falsy, \<open>Some None\<close> when it is no number; comparisons with \<open>NaN\<close> are false.\<close>

definition more_recent :: "(string, mval) obj \<Rightarrow> (string, mval) obj \<Rightarrow> bool" where
  "more_recent mine other =
     (case (im_time (map_of other ''ajxp_im_time''), im_time (map_of mine ''ajxp_im_time'')) of
        (Some (Some b), Some (Some a)) \<Rightarrow> a \<ge> b
      | _ \<Rightarrow> False)"

definition isMoreRecentThan :: "anode \<Rightarrow> anode \<Rightarrow> bool" where
  "isMoreRecentThan n m \<longleftrightarrow> more_recent (anMeta n) (anMeta m)"

definition removeChildNode :: "nat \<Rightarrow> nat \<Rightarrow> 's tree_scheme \<Rightarrow> 's tree_scheme" where
  "removeChildNode p c s =
     (let path = anPath (node s c);
          s1 = set_node c (\<lambda>n. n\<lparr>anParent := None\<rparr>) (notify c ''node_removed'' s);
          s2 = set_node p (\<lambda>n. n\<lparr>anChildren := obj_del path (anChildren n)\<rparr>) s1
      in notify p ''child_removed'' s2)"

definition merge_meta :: "bool \<Rightarrow> (string, mval) obj \<Rightarrow> (string, mval) obj \<Rightarrow> (string, mval) obj" where
  "merge_meta override new old =
     foldl (\<lambda>m (k, v). if \<not> override \<and> k \<in> fst ` set m \<and> v = MText [] then m else obj_set k v m)
       (if override then [] else old) new"

text \<open>The fields \<open>replaceBy\<close> copies from the node \<open>n\<close>.\<close>

definition copy_fields :: "bool \<Rightarrow> anode \<Rightarrow> anode \<Rightarrow> anode" where
  "copy_fields override n e = e\<lparr>anLeaf := anLeaf n,
     anPath := (if anPath n = [] then anPath e else anPath n),
     anLabel := (if anLabel n = [] then anLabel e else anLabel n),
     anIcon := (if anIcon n = [] then anIcon e else anIcon n),
     anProvider := (case anProvider n of None \<Rightarrow> anProvider e | Some p \<Rightarrow> Some p),
     anLoaded := anLoaded n, anFake := anFake n,
     anMeta := merge_meta override (anMeta n) (anMeta e)\<rparr>"

text \<open>The parent's map when a node changes its path.\<close>

definition rename_key :: "nat \<Rightarrow> string \<Rightarrow> 's tree_scheme \<Rightarrow> 's tree_scheme" where
  "rename_key e path s =
     (case anParent (node s e) of
        None \<Rightarrow> s
      | Some p \<Rightarrow> set_node p (\<lambda>n. n\<lparr>anChildren := obj_del (anPath (node s e)) (obj_set path e (anChildren n))\<rparr>) s)"

definition search_flag :: "(string, mval) obj \<Rightarrow> bool" where
  "search_flag m \<longleftrightarrow>
     (case map_of m ''search_root'' of Some v \<Rightarrow> v \<notin> {MUndef, MFlag False, MText [], MNum 0} | None \<Rightarrow> False)"

definition search_root :: "anode \<Rightarrow> bool" where
  "search_root n \<longleftrightarrow> search_flag (anMeta n)"

definition adopt :: "nat \<Rightarrow> anode \<Rightarrow> anode \<Rightarrow> anode" where
  "adopt p parent n = n\<lparr>anParent := Some p,
     anProvider := (case anProvider parent of None \<Rightarrow> anProvider n | Some q \<Rightarrow> Some q),
     anMeta := (if search_root parent then obj_set ''search_result'' (MFlag True) (anMeta n) else anMeta n)\<rparr>"

text \<open>\<open>addChild\<close>, with the call of \<open>replaceBy\<close> on an existing child as an argument. The result is the node
  now in the tree, or \<open>None\<close> for \<open>false\<close>.\<close>

definition add_child :: "(nat \<Rightarrow> nat \<Rightarrow> 's tree_scheme \<Rightarrow> 's tree_scheme) \<Rightarrow> nat \<Rightarrow> nat \<Rightarrow> 's tree_scheme \<Rightarrow>
    's tree_scheme \<times> nat option" where
  "add_child replace p c s =
     (let s1 = set_node c (adopt p (node s p)) s
      in case findChildByPath s1 p (anPath (node s1 c)) of
           Some e \<Rightarrow> if isMoreRecentThan (node s1 e) (node s1 c) then (s1, None) else (replace e c s1, Some e)
         | None \<Rightarrow>
             (notify p ''child_added'' (set_node p (\<lambda>n. n\<lparr>anChildren := obj_set (anPath (node s1 c)) c (anChildren n)\<rparr>) s1),
              Some c))"

text \<open>\<open>replaceBy\<close> and \<open>addChild\<close> call each other along the tree of the new node: the fuel is its depth.\<close>

primrec replace_by :: "nat \<Rightarrow> bool \<Rightarrow> nat \<Rightarrow> nat \<Rightarrow> 's tree_scheme \<Rightarrow> 's tree_scheme" where
  "replace_by 0 override e c s = s"
| "replace_by (Suc fuel) override e c s =
     (let n = node s c;
          moved = (anPath n \<noteq> [] \<and> anPath (node s e) \<noteq> anPath n);
          s1 = set_node e (copy_fields override n) (if moved then rename_key e (anPath n) s else s);
          s2 = (if moved \<and> \<not> anLeaf n \<and> anChildren (node s1 e) \<noteq> []
                then set_node e (\<lambda>n. n\<lparr>anLoaded := False\<rparr>)
                       (foldl (\<lambda>t (k, d). removeChildNode e d t) s1 (anChildren (node s1 e)))
                else foldl (\<lambda>t (k, d). fst (add_child (replace_by fuel True) e d t)) s1 (anChildren (node s1 c)))
      in notify_parent e (notify e ''node_replaced'' s2))"

definition replaceBy :: "bool \<Rightarrow> nat \<Rightarrow> nat \<Rightarrow> 's tree_scheme \<Rightarrow> 's tree_scheme" where
  "replaceBy override e c s = replace_by (Suc (length (trNodes s))) override e c s"

definition addChildNode :: "nat \<Rightarrow> nat \<Rightarrow> 's tree_scheme \<Rightarrow> 's tree_scheme \<times> nat option" where
  "addChildNode p c s = add_child (replaceBy True) p c s"

definition replaceMetadata :: "nat \<Rightarrow> (string, mval) obj \<Rightarrow> bool \<Rightarrow> 's tree_scheme \<Rightarrow> 's tree_scheme" where
  "replaceMetadata i meta eventNodeReplaced s =
     (let s1 = set_node i (\<lambda>n. n\<lparr>anMeta := meta\<rparr>) s;
          s2 = (if eventNodeReplaced then notify i ''node_replaced'' s1 else s1)
      in notify_parent i (notify i ''meta_replaced'' s2))"

definition setChildren :: "nat \<Rightarrow> nat list \<Rightarrow> 's tree_scheme \<Rightarrow> 's tree_scheme" where
  "setChildren p cs s =
     foldl (\<lambda>t c. set_node c (\<lambda>n. n\<lparr>anParent := Some p\<rparr>)
              (set_node p (\<lambda>n. n\<lparr>anChildren := obj_set (anPath (node t c)) c (anChildren n)\<rparr>) t))
       (set_node p (\<lambda>n. n\<lparr>anChildren := []\<rparr>) s) cs"

definition drop_child :: "bool \<Rightarrow> nat \<Rightarrow> string \<times> nat \<Rightarrow> 's tree_scheme \<Rightarrow> 's tree_scheme" where
  "drop_child silent p = (\<lambda>(k, c) s.
     let s1 = (if silent then s else notify c ''node_removed'' s);
         s2 = set_node p (\<lambda>n. n\<lparr>anChildren := obj_del k (anChildren n)\<rparr>) (set_node c (\<lambda>n. n\<lparr>anParent := None\<rparr>) s1)
     in if silent then s2 else notify p ''child_removed'' s2)"

definition drop_children :: "bool \<Rightarrow> nat \<Rightarrow> 's tree_scheme \<Rightarrow> 's tree_scheme" where
  "drop_children silent p s = foldl (\<lambda>t kc. drop_child silent p kc t) s (anChildren (node s p))"

definition clearNode :: "nat \<Rightarrow> 's tree_scheme \<Rightarrow> 's tree_scheme" where
  "clearNode p s = notify p ''force_clear'' (set_node p (\<lambda>n. n\<lparr>anLoaded := False\<rparr>) (drop_children False p s))"

section \<open>Finding a node\<close>

text \<open>The walk of \<open>findInArbo\<close> down from a node whose path is \<open>crt\<close>.\<close>

primrec find_node :: "anode list \<Rightarrow> nat \<Rightarrow> string \<Rightarrow> string list \<Rightarrow> nat option" where
  "find_node ns i crt [] = Some i"
| "find_node ns i crt (b # bs) =
     (case map_of (anChildren (ns ! i)) (crt @ ''/'' @ b) of
        None \<Rightarrow> None
      | Some c \<Rightarrow> find_node ns c (crt @ ''/'' @ b) bs)"

definition path_parts :: "string \<Rightarrow> string list" where
  "path_parts path = filter (\<lambda>p. p \<noteq> []) (js_split CHR ''/'' path)"

definition findInArbo :: "'s tree_scheme \<Rightarrow> nat \<Rightarrow> string \<Rightarrow> nat option" where
  "findInArbo s r path =
     (let ps = path_parts path in if ps = [] then None else find_node (trNodes s) r [] ps)"

text \<open>With a list for the nodes that are missing these are made: folders marked as fake.\<close>

definition fake_node :: "string \<Rightarrow> anode" where
  "fake_node crt = (newNode crt False (getBasename crt) [] None)\<lparr>anFake := True, anMeta := [(''text'', MText (getBasename crt))]\<rparr>"

primrec find_or_fake :: "nat \<Rightarrow> string \<Rightarrow> string list \<Rightarrow> 's tree_scheme \<Rightarrow> nat list \<Rightarrow> 's tree_scheme \<times> nat \<times> nat list" where
  "find_or_fake i crt [] s fakes = (s, i, fakes)"
| "find_or_fake i crt (b # bs) s fakes =
     (case findChildByPath s i (crt @ ''/'' @ b) of
        Some c \<Rightarrow> find_or_fake c (crt @ ''/'' @ b) bs s fakes
      | None \<Rightarrow>
          (let (c, s1) = alloc (fake_node (crt @ ''/'' @ b)) s;
               s2 = fst (addChildNode i c s1)
           in find_or_fake c (crt @ ''/'' @ b) bs s2 (fakes @ [c])))"

definition findOrFake :: "nat \<Rightarrow> string \<Rightarrow> 's tree_scheme \<Rightarrow> 's tree_scheme \<times> nat option \<times> nat list" where
  "findOrFake r path s =
     (let ps = path_parts path
      in if ps = [] then (s, None, [])
         else let (t, c, fakes) = find_or_fake r [] ps s [] in (t, Some c, fakes))"

section \<open>Metadata\<close>

text \<open>A metadata value read as text, in lower case; only texts have \<open>toLowerCase\<close>.\<close>

definition mime_in :: "(string, mval) obj \<Rightarrow> string option" where
  "mime_in m = (case map_of m ''ajxp_mime'' of Some (MText t) \<Rightarrow> Some t | _ \<Rightarrow> None)"

definition getAjxpMime :: "anode \<Rightarrow> string" where
  "getAjxpMime n =
     (case mime_in (anMeta n) of
        Some t \<Rightarrow> js_lower t
      | None \<Rightarrow>
          if anLeaf n then
            (case map_of (anMeta n) ''filename'' of Some (MText f) \<Rightarrow> js_lower (getFileExtension f) | _ \<Rightarrow> [])
          else [])"

definition isRecycle :: "anode \<Rightarrow> bool" where
  "isRecycle n \<longleftrightarrow> getAjxpMime n = ''ajxp_recycle''"

definition isBrowsable :: "anode \<Rightarrow> bool" where
  "isBrowsable n \<longleftrightarrow> \<not> anLeaf n \<or> getAjxpMime n = ''ajxp_browsable_archive''"

text \<open>The search along the parents; the fuel is the number of nodes, enough when they form no circle.\<close>

primrec in_branch :: "nat \<Rightarrow> (anode \<Rightarrow> bool option) \<Rightarrow> 's tree_scheme \<Rightarrow> nat \<Rightarrow> bool" where
  "in_branch 0 answer s i = False"
| "in_branch (Suc fuel) answer s i =
     (case answer (node s i) of
        Some b \<Rightarrow> b
      | None \<Rightarrow> (case anParent (node s i) of None \<Rightarrow> False | Some p \<Rightarrow> in_branch fuel answer s p))"

definition hasAjxpMimeInBranch :: "string \<Rightarrow> 's tree_scheme \<Rightarrow> nat \<Rightarrow> bool" where
  "hasAjxpMimeInBranch mime s i =
     in_branch (length (trNodes s)) (\<lambda>n. if getAjxpMime n = js_lower mime then Some True else None) s i"

definition hasMetadataInBranch :: "string \<Rightarrow> mval option \<Rightarrow> 's tree_scheme \<Rightarrow> nat \<Rightarrow> bool" where
  "hasMetadataInBranch k want s i =
     in_branch (length (trNodes s))
       (\<lambda>n. case map_of (anMeta n) k of None \<Rightarrow> None | Some v \<Rightarrow> Some (case want of None \<Rightarrow> True | Some w \<Rightarrow> v = w)) s i"

definition isParentOf :: "anode \<Rightarrow> anode \<Rightarrow> bool" where
  "isParentOf n m \<longleftrightarrow> starts_with (anPath n) (anPath m)"

end
