(* ===== verification/DataModel.thy ===== *)
theory DataModel
  imports NodeTree
begin

text \<open>
  The data model of the interface: \<open>core/model/PydioDataModel.es6\<close>, with the answers of
  \<open>MetaNodeProvider.es6\<close> and the messages of \<open>core/http/PydioWebSocket.es6\<close> that change the tree. It
  holds the root of the tree, the folder shown (the context) and the selection.

  A node that is loading has its request in \<open>dmRequests\<close> until the answer or the failure; the callbacks
  given to \<open>observeOnce\<close> wait in \<open>dmOnce\<close>. What the server answers and the messages bring are nodes that
  \<open>parseTreeNode\<close> has read: they are arguments. The list of nodes to reload one after the other
  (\<open>multipleNodesReload\<close>) has no caller and is left out.
\<close>

section \<open>The state\<close>

datatype once =
    OnceLoaded nat               \<comment> \<open>show the folder when it is loaded\<close>
  | OnceError nat
  | OnceFirstLoad nat nat        \<comment> \<open>first missing folder, folder wanted\<close>
  | OnceFirstError nat

record dmodel = tree +
  dmRoot :: nat
  dmSelected :: "nat list"
  dmEmpty :: bool
  dmFile :: bool
  dmDir :: bool
  dmRecycle :: bool
  dmPending :: "string option"
  dmSearch :: "nat option"
  dmOnce :: "once list"
  dmRequests :: "nat list"
  dmLeafs :: "(nat \<times> string) list"         \<comment> \<open>folder, path asked for\<close>

definition newDataModel :: "anode \<Rightarrow> dmodel" where
  "newDataModel root_node =
     setContextNode 0 False (publish ''root_node_changed''
       \<lparr>trNodes = [root_node\<lparr>anRoot := True\<rparr>], trContext = None, trRep = ''/'', trLog = [], trBus = [],
        dmRoot = 0, dmSelected = [], dmEmpty = True, dmFile = False, dmDir = False, dmRecycle = False,
        dmPending = None, dmSearch = None, dmOnce = [], dmRequests = [], dmLeafs = []\<rparr>)"

section \<open>The selection\<close>

definition setSelectedNodes :: "nat list \<Rightarrow> dmodel \<Rightarrow> dmodel" where
  "setSelectedNodes ns s =
     (if ns = [] \<and> dmSelected s = [] then s
      else if ns = dmSelected s then publish ''selection_reloaded'' s
      else publish ''selection_changed'' (s\<lparr>dmSelected := ns, dmEmpty := (ns = []),
         dmFile := (\<exists>i \<in> set ns. anLeaf (node s i)), dmDir := (\<exists>i \<in> set ns. \<not> anLeaf (node s i)),
         dmRecycle := (\<exists>i \<in> set ns. isRecycle (node s i))\<rparr>))"

definition selectAll :: "dmodel \<Rightarrow> dmodel" where
  "selectAll s = (case trContext s of Some c \<Rightarrow> setSelectedNodes (map snd (anChildren (node s c))) s | None \<Rightarrow> s)"

definition hasReadOnly :: "dmodel \<Rightarrow> bool" where
  "hasReadOnly s \<longleftrightarrow> (\<exists>i \<in> set (dmSelected s). map_of (anMeta (node s i)) ''node_readonly'' = Some (MText ''true''))"

definition selectionHasRootNode :: "dmodel \<Rightarrow> bool" where
  "selectionHasRootNode s \<longleftrightarrow> (\<exists>i \<in> set (dmSelected s). anRoot (node s i))"

definition isUnique :: "dmodel \<Rightarrow> bool" where
  "isUnique s \<longleftrightarrow> length (dmSelected s) = 1"

definition isMultiple :: "dmodel \<Rightarrow> bool" where
  "isMultiple s \<longleftrightarrow> length (dmSelected s) > 1"

definition selected_mime :: "anode \<Rightarrow> string" where
  "selected_mime n =
     (case mime_in (anMeta n) of Some t \<Rightarrow> if t = [] then getFileExtension (anPath n) else t | None \<Rightarrow> getFileExtension (anPath n))"

definition hasMime :: "string list \<Rightarrow> dmodel \<Rightarrow> bool" where
  "hasMime mimes s \<longleftrightarrow> mimes = [''*''] \<or> (\<exists>m \<in> set mimes. \<exists>i \<in> set (dmSelected s). selected_mime (node s i) = m)"

definition getFileNames :: "dmodel \<Rightarrow> string list option" where
  "getFileNames s = (if dmSelected s = [] then None else Some (map (\<lambda>i. anPath (node s i)) (dmSelected s)))"

definition getUniqueNode :: "dmodel \<Rightarrow> nat option" where
  "getUniqueNode s = (case dmSelected s of i # _ \<Rightarrow> Some i | [] \<Rightarrow> None)"

definition fileNameExists_local :: "string \<Rightarrow> nat \<Rightarrow> dmodel \<Rightarrow> bool" where
  "fileNameExists_local name ctx s \<longleftrightarrow>
     (let test = (if anPath (node s ctx) = ''/'' then [] else anPath (node s ctx)) @ ''/'' @ name
      in \<exists>(k, c) \<in> set (anChildren (node s ctx)). anPath (node s c) = test)"

section \<open>Loading\<close>

text \<open>The callback of \<open>loaded\<close>: the folder becomes the context and the pending selection is made.\<close>

definition pick_pending :: "nat \<Rightarrow> dmodel \<Rightarrow> dmodel" where
  "pick_pending i s =
     (case dmPending s of
        None \<Rightarrow> s
      | Some p \<Rightarrow>
          if p = [] then s
          else
            (let path = anPath (node s i) @ (if anPath (node s i) = ''/'' then [] else ''/'') @ p;
                 t = (case findChildByPath s i path of
                        Some c \<Rightarrow> setSelectedNodes [c] s
                      | None \<Rightarrow>
                          (case map_of (anMeta (node s i)) ''paginationData'' of
                             Some (MPages ps) \<Rightarrow> s\<lparr>dmLeafs := dmLeafs s @ [(i, path)]\<rparr>
                           | _ \<Rightarrow> s))
             in t\<lparr>dmPending := None\<rparr>))"

definition context_loaded :: "nat \<Rightarrow> dmodel \<Rightarrow> dmodel" where
  "context_loaded i s = pick_pending i (publish ''context_loaded'' (setContextNode i True s))"

definition notify_loaded :: "nat \<Rightarrow> dmodel \<Rightarrow> dmodel" where
  "notify_loaded i s =
     (let t = notify i ''loaded'' s;
          n = length (filter (\<lambda>o1. o1 = OnceLoaded i) (dmOnce t))
      in (context_loaded i ^^ n) (t\<lparr>dmOnce := filter (\<lambda>o1. o1 \<noteq> OnceLoaded i) (dmOnce t)\<rparr>))"

definition load_node :: "nat \<Rightarrow> dmodel \<Rightarrow> dmodel" where
  "load_node i s =
     (if anLoading (node s i) then s
      else
        (let t = notify i ''loading'' (set_node i (\<lambda>n. n\<lparr>anLoading := True\<rparr>) s)
         in if anLoaded (node t i) then notify_loaded i (set_node i (\<lambda>n. n\<lparr>anLoading := False\<rparr>) t)
            else t\<lparr>dmRequests := dmRequests t @ [i]\<rparr>))"

definition reload_node :: "bool \<Rightarrow> nat \<Rightarrow> dmodel \<Rightarrow> dmodel" where
  "reload_node silent i s = load_node i (drop_children silent i (set_node i (\<lambda>n. n\<lparr>anLoaded := False\<rparr>) s))"

text \<open>The page asked for, when it is not the current one.\<close>

definition new_page :: "anode \<Rightarrow> nat option" where
  "new_page n =
     (case map_of (anMeta n) ''paginationData'' of
        Some (MPages ps) \<Rightarrow>
          (case map_of ps ''new_page'' of Some p \<Rightarrow> if map_of ps ''current'' = Some p then None else Some p | None \<Rightarrow> None)
      | _ \<Rightarrow> None)"

definition set_page :: "nat \<Rightarrow> anode \<Rightarrow> anode" where
  "set_page p n =
     (case map_of (anMeta n) ''paginationData'' of
        Some (MPages ps) \<Rightarrow> n\<lparr>anMeta := obj_set ''paginationData'' (MPages (obj_set ''current'' p ps)) (anMeta n)\<rparr>
      | _ \<Rightarrow> n)"

definition show_folder :: "nat \<Rightarrow> nat option \<Rightarrow> bool \<Rightarrow> dmodel \<Rightarrow> dmodel" where
  "show_folder i page force s =
     (let t = publish ''context_loading'' (s\<lparr>dmOnce := dmOnce s @ [OnceLoaded i, OnceError i]\<rparr>)
      in if force then
           reload_node True i (case page of Some p \<Rightarrow> if p = 0 then t else set_node i (set_page p) t | None \<Rightarrow> t)
         else load_node i t)"

text \<open>A folder that is not in the tree is looked for by its path; when a part of the path is missing, the
  first folder missing is loaded and the change of context asked for again.\<close>

definition requireContextChange :: "nat \<Rightarrow> bool \<Rightarrow> dmodel \<Rightarrow> dmodel" where
  "requireContextChange i0 force0 s0 =
     (let s = setSelectedNodes [] s0;
          i = (if anPath (node s i0) = [] \<or> anPath (node s i0) = ''/'' then dmRoot s else i0);
          page = new_page (node s i);
          force = (force0 \<or> page \<noteq> None)
      in if i \<noteq> dmRoot s \<and> (anParent (node s i) = None \<or> anFake (node s i)) then
           (case findOrFake (dmRoot s) (anPath (node s i)) s of
              (t, Some c, f # fs) \<Rightarrow>
                load_node f (publish ''context_loading'' (t\<lparr>dmOnce := dmOnce t @ [OnceFirstLoad f c, OnceFirstError f]\<rparr>))
            | (t, Some c, []) \<Rightarrow> show_folder c page force t
            | (t, None, _) \<Rightarrow> t)
         else show_folder i page force s)"

text \<open>The answer to \<open>loadNode\<close>: the node itself is merged, its children replace those it had; then the
  callbacks run, those of the first load after those of the load.\<close>

definition alloc_all :: "anode list \<Rightarrow> dmodel \<Rightarrow> dmodel \<times> nat list" where
  "alloc_all ns s = (s\<lparr>trNodes := trNodes s @ ns\<rparr>, [length (trNodes s)..<length (trNodes s) + length ns])"

definition set_pages :: "(string, nat) obj option \<Rightarrow> anode \<Rightarrow> anode" where
  "set_pages pages n =
     (case pages of
        Some ps \<Rightarrow> n\<lparr>anMeta := obj_set ''paginationData'' (MPages ps) (anMeta n)\<rparr>
      | None \<Rightarrow> n\<lparr>anMeta := obj_del ''paginationData'' (anMeta n)\<rparr>)"

definition merge_answer :: "nat \<Rightarrow> anode list \<Rightarrow> (string, nat) obj option \<Rightarrow> dmodel \<Rightarrow> dmodel" where
  "merge_answer i answer pages s =
     (let path = anPath (node s i);
          shown = filter (\<lambda>n. anLabel n \<noteq> ''.pydio'') answer;
          origs = filter (\<lambda>n. anPath n = path) shown;
          s1 = (if origs = [] then s
                else let (c, t) = alloc (set_pages pages (last origs)) s
                     in replaceBy False i c (if pages = None then set_node i (set_pages None) t else t));
          (s2, cs) = alloc_all (filter (\<lambda>n. anPath n \<noteq> path) shown) s1
      in setChildren i cs s2)"

definition run_first :: "nat \<Rightarrow> dmodel \<Rightarrow> dmodel" where
  "run_first i s =
     (let waiting = List.map_filter (\<lambda>o1. case o1 of OnceFirstLoad f c \<Rightarrow> if f = i then Some c else None | _ \<Rightarrow> None) (dmOnce s)
      in foldl (\<lambda>t c. requireContextChange c False t)
           (s\<lparr>dmOnce := filter (\<lambda>o1. case o1 of OnceFirstLoad f c \<Rightarrow> f \<noteq> i | _ \<Rightarrow> True) (dmOnce s)\<rparr>) waiting)"

definition node_answered :: "nat \<Rightarrow> anode list \<Rightarrow> (string, nat) obj option \<Rightarrow> dmodel \<Rightarrow> dmodel" where
  "node_answered i answer pages s =
     (let s1 = merge_answer i answer pages (s\<lparr>dmRequests := remove1 i (dmRequests s)\<rparr>);
          s2 = notify_loaded i (set_node i (\<lambda>n. n\<lparr>anLoaded := True, anLoading := False\<rparr>) s1)
      in run_first i (notify i ''first_load'' s2))"

text \<open>A request that fails is only logged.\<close>

definition node_failed :: "nat \<Rightarrow> dmodel \<Rightarrow> dmodel" where
  "node_failed i s = s\<lparr>dmRequests := remove1 i (dmRequests s)\<rparr>"

definition leaf_answered :: "nat \<times> string \<Rightarrow> anode \<Rightarrow> dmodel \<Rightarrow> dmodel" where
  "leaf_answered r n s =
     (let (c, t) = alloc n (s\<lparr>dmLeafs := remove1 r (dmLeafs s)\<rparr>)
      in setSelectedNodes [c] (fst (addChildNode (fst r) c t)))"

section \<open>Changes on the server\<close>

definition select_in :: "bool \<Rightarrow> nat option \<Rightarrow> nat \<Rightarrow> dmodel \<Rightarrow> dmodel" where
  "select_in sel parent i s = (if sel \<and> parent \<noteq> None \<and> trContext s = parent then setSelectedNodes [i] s else s)"

definition parent_folder :: "string \<Rightarrow> dmodel \<Rightarrow> nat option" where
  "parent_folder path s =
     (case findInArbo s (dmRoot s) (strip_slash (getDirname path)) of
        Some p \<Rightarrow> Some p
      | None \<Rightarrow> if getDirname path = [] then Some (dmRoot s) else None)"

definition addNode :: "bool \<Rightarrow> nat \<Rightarrow> dmodel \<Rightarrow> dmodel" where
  "addNode sel i s =
     (let path = anPath (node s i);
          s1 = (case findInArbo s (dmRoot s) path of
                  None \<Rightarrow> s
                | Some e \<Rightarrow> let t = replaceBy True e i s in select_in sel (anParent (node t e)) e t)
      in case parent_folder path s1 of
           None \<Rightarrow> s1
         | Some p \<Rightarrow>
             (case addChildNode p i s1 of
                (t, None) \<Rightarrow> t
              | (t, Some a) \<Rightarrow> select_in sel (Some p) a t))"

definition remove_node :: "nat \<Rightarrow> dmodel \<Rightarrow> dmodel" where
  "remove_node i s = (case anParent (node s i) of Some p \<Rightarrow> removeChildNode p i s | None \<Rightarrow> s)"

definition removeNodeByPath :: "string \<Rightarrow> int option \<Rightarrow> dmodel \<Rightarrow> bool \<times> dmodel" where
  "removeNodeByPath path imTime s =
     (case findInArbo s (dmRoot s) (strip_slash path) of
        None \<Rightarrow> (False, s)
      | Some n \<Rightarrow>
          if (case (imTime, im_time (map_of (anMeta (node s n)) ''ajxp_im_time'')) of
                (Some t, Some (Some a)) \<Rightarrow> t \<noteq> 0 \<and> a \<ge> t | _ \<Rightarrow> False)
          then (False, s)
          else (True, remove_node n s))"

definition original_path :: "anode \<Rightarrow> string" where
  "original_path n = (case map_of (anMeta n) ''original_path'' of Some (MText t) \<Rightarrow> t | _ \<Rightarrow> [])"

definition move_node :: "nat \<Rightarrow> dmodel \<Rightarrow> dmodel" where
  "move_node i s =
     (let path = anPath (node s i);
          s1 = (case findInArbo s (dmRoot s) (strip_slash (original_path (node s i))) of
                  None \<Rightarrow> s | Some n \<Rightarrow> remove_node n s)
      in case parent_folder path s1 of
           None \<Rightarrow> s1
         | Some p \<Rightarrow> fst (addChildNode p i (set_node i (\<lambda>n. n\<lparr>anMeta := obj_set ''original_path'' MUndef (anMeta n)\<rparr>) s1)))"

definition search_meta :: "(string, mval) obj \<Rightarrow> (string, mval) obj \<Rightarrow> (string, mval) obj" where
  "search_meta old new =
     foldl (\<lambda>m (k, v). obj_set k v m)
       [(''search_result'', MFlag True),
        (''repository_id'', case map_of old ''repository_id'' of Some v \<Rightarrow> v | None \<Rightarrow> MUndef),
        (''repository_display'', case map_of old ''repository_display'' of Some v \<Rightarrow> v | None \<Rightarrow> MUndef)] new"

definition update_search :: "nat \<Rightarrow> dmodel \<Rightarrow> dmodel" where
  "update_search i s =
     (case dmSearch s of
        None \<Rightarrow> s
      | Some q \<Rightarrow>
          (case findChildByPath s q (anPath (node s i)) of
             None \<Rightarrow> s
           | Some r \<Rightarrow> replaceMetadata r (search_meta (anMeta (node s r)) (anMeta (node s i))) True s))"

definition updateNode :: "bool \<Rightarrow> nat \<Rightarrow> dmodel \<Rightarrow> dmodel" where
  "updateNode sel i s =
     (let path = anPath (node s i); original = original_path (node s i)
      in if original \<noteq> [] \<and> original \<noteq> path \<and> getDirname original \<noteq> getDirname path then move_node i s
         else if original = ''/'' \<and> path = ''/'' then
           (let t = replaceMetadata (dmRoot s) (anMeta (node s i)) False s
            in if sel \<and> trContext t = Some (dmRoot s) then setSelectedNodes [dmRoot s] t else t)
         else
           update_search i
             (case findInArbo s (dmRoot s) (strip_slash original) of
                None \<Rightarrow> s
              | Some n \<Rightarrow>
                  if isMoreRecentThan (node s n) (node s i) then s
                  else (let t = replaceBy True n i (set_node i (\<lambda>m. m\<lparr>anLoaded := anLoaded (node s n)\<rparr>) s)
                        in select_in sel (anParent (node t n)) n t)))"

text \<open>The search node has a provider of its own, an \<open>EmptyNodeProvider\<close>; its results take it over.\<close>

definition empty_provider :: nat where
  "empty_provider = 0"

definition getSearchNode :: "dmodel \<Rightarrow> nat \<times> dmodel" where
  "getSearchNode s =
     (case dmSearch s of
        Some q \<Rightarrow> (q, s)
      | None \<Rightarrow>
          (let (q, t) = alloc ((newNode ''/'' False ''Search Results'' ''mdi mdi-magnify'' (Some empty_provider))
                 \<lparr>anRoot := True, anMeta := [(''search_root'', MFlag True)]\<rparr>) s
           in (q, t\<lparr>dmSearch := Some q\<rparr>)))"

section \<open>Messages of the server\<close>

text \<open>A message with the nodes parsed; they are \<open>None\<close> when absent or of another workspace.\<close>

record ws_event =
  weType :: string
  weTarget :: "anode option"
  weSource :: "anode option"
  weHasSource :: bool

definition node_event :: "ws_event \<Rightarrow> dmodel \<Rightarrow> dmodel option" where
  "node_event ev s =
     (let type = (if weType ev = [] \<and> weTarget ev \<noteq> None then ''CREATE'' else weType ev)
      in if type = ''CREATE'' then
           (case weTarget ev of
              None \<Rightarrow> Some s
            | Some n \<Rightarrow>
                if anPath n = [] \<or> anPath n = ''/'' then Some s
                else Some (let (i, t) = alloc n s in addNode False i t))
         else if type \<in> {''UPDATE_PATH'', ''UPDATE_CONTENT'', ''UPDATE_META'', ''UPDATE_USER_META''} then
           (case weTarget ev of
              None \<Rightarrow> Some s
            | Some n \<Rightarrow>
                if weHasSource ev \<and> weSource ev = None then None
                else
                  (let from = (case weSource ev of Some m \<Rightarrow> if weHasSource ev then anPath m else anPath n | None \<Rightarrow> anPath n);
                       (i, t) = alloc (n\<lparr>anMeta := obj_set ''original_path'' (MText from) (anMeta n)\<rparr>) s
                   in Some (updateNode False i t)))
         else if type = ''DELETE'' then
           (case weSource ev of
              None \<Rightarrow> Some s
            | Some n \<Rightarrow> Some (snd (removeNodeByPath (''/'' @ anPath n) None s)))
         else Some s)"

end
