(* ===== verification/NodeTreeFacts.thy ===== *)
theory NodeTreeFacts
  imports NodeTree
begin

text \<open>
  The tree as a map from paths: what a walk from the root finds. A path is a list of names here; the
  invariant \<open>tree_wf\<close> says that the key of a child is its path and continues the path of its parent.
\<close>

section \<open>Paths\<close>

definition is_name :: "string \<Rightarrow> bool" where
  "is_name b \<longleftrightarrow> b \<noteq> [] \<and> CHR ''/'' \<notin> set b"

definition path_of :: "string list \<Rightarrow> string" where
  "path_of bs = concat (map (\<lambda>b. ''/'' @ b) bs)"

lemma path_of_simps [simp]:
  "path_of [] = []" "path_of (b # bs) = ''/'' @ b @ path_of bs" "path_of (bs @ cs) = path_of bs @ path_of cs"
  by (simp_all add: path_of_def)

lemma split_path_of: "list_all is_name bs \<Longrightarrow> js_split CHR ''/'' (path_of bs) = [] # bs"
proof (induction bs)
  case (Cons b bs)
  note IH = Cons.IH and prems = Cons.prems
  show ?case
  proof (cases bs)
    case Nil
    then show ?thesis using prems by (simp add: is_name_def js_split_no_sep)
  next
    case (Cons c cs)
    then obtain t where t: "path_of bs = CHR ''/'' # t" by simp
    moreover have "CHR ''/'' \<notin> set b" using prems by (simp add: is_name_def)
    ultimately show ?thesis using IH prems by (simp add: js_split_append)
  qed
qed simp

lemma path_parts_path_of: "list_all is_name bs \<Longrightarrow> path_parts (path_of bs) = bs"
  by (simp add: path_parts_def split_path_of) (auto simp: filter_id_conv list_all_iff is_name_def)

lemma path_of_inj: "list_all is_name bs \<Longrightarrow> list_all is_name cs \<Longrightarrow> path_of bs = path_of cs \<Longrightarrow> bs = cs"
  by (metis path_parts_path_of)

lemma path_of_Nil_iff [simp]: "path_of bs = [] \<longleftrightarrow> bs = []"
  by (cases bs) auto

lemma dirname_path_of: "is_name b \<Longrightarrow> getDirname (path_of (ds @ [b])) = path_of ds"
  by (simp add: getDirname_def is_name_def last_index_of_append)

lemma last_path_of: "list_all is_name bs \<Longrightarrow> bs \<noteq> [] \<Longrightarrow> last (path_of bs) \<noteq> CHR ''/''"
proof (cases bs rule: rev_cases)
  case (snoc ds b)
  moreover assume "list_all is_name bs"
  ultimately show ?thesis by (auto simp: is_name_def) (metis last_in_set)
qed simp

lemma strip_slash_path_of: "list_all is_name bs \<Longrightarrow> strip_slash (path_of bs) = path_of bs"
  using last_path_of [of bs] by (cases "bs = []") (simp_all add: strip_slash_def)

section \<open>The invariant\<close>

definition base :: "nat \<Rightarrow> anode list \<Rightarrow> nat \<Rightarrow> string" where
  "base r ns i = (if i = r then [] else anPath (ns ! i))"

definition child_map :: "anode list \<Rightarrow> nat \<Rightarrow> string \<Rightarrow> nat option" where
  "child_map ns i = map_of (anChildren (ns ! i))"

definition child_ok :: "nat \<Rightarrow> anode list \<Rightarrow> nat \<Rightarrow> string \<Rightarrow> nat \<Rightarrow> bool" where
  "child_ok r ns i k c \<longleftrightarrow> c < length ns \<and> c \<noteq> r \<and> anParent (ns ! c) = Some i \<and> anPath (ns ! c) = k \<and>
     (\<exists>b. is_name b \<and> k = base r ns i @ ''/'' @ b)"

definition tree_wf :: "nat \<Rightarrow> anode list \<Rightarrow> bool" where
  "tree_wf r ns \<longleftrightarrow> r < length ns \<and> (\<forall>i < length ns. distinct (map fst (anChildren (ns ! i))) \<and>
     (\<forall>k c. child_map ns i k = Some c \<longrightarrow> child_ok r ns i k c))"

lemma tree_wf_child:
  assumes "tree_wf r ns" "i < length ns" "map_of (anChildren (ns ! i)) k = Some c"
  shows "c < length ns \<and> c \<noteq> r \<and> anParent (ns ! c) = Some i \<and> anPath (ns ! c) = k \<and>
    (\<exists>b. is_name b \<and> k = base r ns i @ ''/'' @ b)"
  using assms unfolding tree_wf_def child_map_def child_ok_def by blast

lemma tree_wfI:
  assumes "r < length ns" "\<And>i. i < length ns \<Longrightarrow> distinct (map fst (anChildren (ns ! i)))"
    "\<And>i k c. i < length ns \<Longrightarrow> map_of (anChildren (ns ! i)) k = Some c \<Longrightarrow> child_ok r ns i k c"
  shows "tree_wf r ns"
  using assms by (simp add: tree_wf_def child_map_def)

lemma tree_wf_root: "tree_wf r ns \<Longrightarrow> r < length ns"
  by (simp add: tree_wf_def)

lemma tree_wf_distinct: "tree_wf r ns \<Longrightarrow> i < length ns \<Longrightarrow> distinct (map fst (anChildren (ns ! i)))"
  by (simp add: tree_wf_def)

abbreviation lookup :: "nat \<Rightarrow> anode list \<Rightarrow> string list \<Rightarrow> nat option" where
  "lookup r ns \<equiv> find_node ns r []"

lemma find_node_append:
  "find_node ns i crt (bs @ cs) = Option.bind (find_node ns i crt bs) (\<lambda>j. find_node ns j (crt @ path_of bs) cs)"
  by (induction bs arbitrary: i crt) (auto split: option.splits)

lemma lookup_snoc:
  "lookup r ns (bs @ [b]) = Option.bind (lookup r ns bs) (\<lambda>i. map_of (anChildren (ns ! i)) (path_of bs @ ''/'' @ b))"
  by (cases "lookup r ns bs") (auto simp: find_node_append split: option.splits)

lemma lookup_path:
  assumes "tree_wf r ns"
  shows "lookup r ns bs = Some i \<Longrightarrow> i < length ns \<and> base r ns i = path_of bs \<and> list_all is_name bs \<and>
    (bs \<noteq> [] \<longrightarrow> i \<noteq> r \<and> anPath (ns ! i) = path_of bs)"
proof (induction bs arbitrary: i rule: rev_induct)
  case Nil
  then show ?case using assms by (simp add: tree_wf_def base_def)
next
  case (snoc b bs)
  then obtain p where p: "lookup r ns bs = Some p" and i: "map_of (anChildren (ns ! p)) (path_of bs @ ''/'' @ b) = Some i"
    by (auto simp: lookup_snoc bind_eq_Some_conv)
  then have "p < length ns" "base r ns p = path_of bs" "list_all is_name bs" using snoc.IH by auto
  then show ?case using tree_wf_child [OF assms _ i] by (auto simp: base_def)
qed

lemma lookup_inj: "tree_wf r ns \<Longrightarrow> lookup r ns bs = Some i \<Longrightarrow> lookup r ns cs = Some i \<Longrightarrow> bs = cs"
  using lookup_path [of r ns bs i] lookup_path [of r ns cs i] by (metis path_of_inj)

lemma lookup_parent:
  assumes "tree_wf r ns" "lookup r ns (ds @ [b]) = Some i"
  shows "\<exists>p. lookup r ns ds = Some p \<and> p < length ns \<and> anParent (ns ! i) = Some p \<and>
    map_of (anChildren (ns ! p)) (path_of (ds @ [b])) = Some i"
proof -
  from assms(2) obtain p where p: "lookup r ns ds = Some p" and i: "map_of (anChildren (ns ! p)) (path_of ds @ ''/'' @ b) = Some i"
    by (auto simp: lookup_snoc bind_eq_Some_conv)
  then show ?thesis using lookup_path [OF assms(1) p] tree_wf_child [OF assms(1) _ i] by auto
qed

lemma lookup_names:
  assumes "tree_wf r ns" "lookup r ns ds = Some p" "lookup r ns (ds @ [b]) = Some i"
  shows "is_name b"
  using lookup_path [OF assms(1,3)] by simp

text \<open>Changing the children of one node at one key changes what is found at and below that key only.\<close>

lemma lookup_change:
  assumes wf: "tree_wf r ns" and p: "lookup r ns ds = Some p" and len: "length ns \<le> length ns'"
    and others: "\<And>j. j < length ns \<Longrightarrow> j \<noteq> p \<Longrightarrow> anChildren (ns' ! j) = anChildren (ns ! j)"
    and keys: "\<And>c. c \<notin> B \<Longrightarrow> map_of (anChildren (ns' ! p)) (path_of (ds @ [c])) = map_of (anChildren (ns ! p)) (path_of (ds @ [c]))"
  shows "(\<And>c. c \<in> B \<Longrightarrow> take (Suc (length ds)) qs \<noteq> ds @ [c]) \<Longrightarrow> lookup r ns' qs = lookup r ns qs"
proof (induction qs rule: rev_induct)
  case (snoc c qs)
  have "lookup r ns' qs = lookup r ns qs"
  proof (rule snoc.IH)
    fix b assume "b \<in> B"
    then show "take (Suc (length ds)) qs \<noteq> ds @ [b]" using snoc.prems [of b] by (cases "length qs \<ge> Suc (length ds)") auto
  qed
  moreover have "map_of (anChildren (ns' ! i)) (path_of (qs @ [c])) = map_of (anChildren (ns ! i)) (path_of (qs @ [c]))"
    if i: "lookup r ns qs = Some i" for i
  proof (cases "i = p")
    case True
    then have "qs = ds" using lookup_inj [OF wf i] p by simp
    then have "c \<notin> B" using snoc.prems [of c] by auto
    then show ?thesis using keys True \<open>qs = ds\<close> by simp
  next
    case False
    then show ?thesis using others lookup_path [OF wf i] by simp
  qed
  ultimately show ?case by (cases "lookup r ns qs") (simp_all add: lookup_snoc)
qed simp

lemma lookup_below:
  assumes "lookup r ns ds = Some p" "length ns \<le> length ns'" "lookup r ns' ds = Some p"
  shows "lookup r ns' (ds @ c # rest) = Option.bind (map_of (anChildren (ns' ! p)) (path_of (ds @ [c])))
    (\<lambda>i. find_node ns' i (path_of (ds @ [c])) rest)"
  using assms by (simp add: find_node_append split: option.split)

lemma find_node_childless: "anChildren (ns ! i) = [] \<Longrightarrow> find_node ns i crt bs = (if bs = [] then Some i else None)"
  by (cases bs) auto

section \<open>Operations that keep the invariant\<close>

text \<open>A node that is no child may change its path and parent, when it has no children itself.\<close>

definition loose :: "nat \<Rightarrow> anode list \<Rightarrow> nat \<Rightarrow> bool" where
  "loose r ns c \<longleftrightarrow> c \<noteq> r \<and> (\<forall>i < length ns. \<forall>k. map_of (anChildren (ns ! i)) k \<noteq> Some c)"

lemma wf_alloc:
  assumes "tree_wf r ns" "anChildren n = []"
  shows "tree_wf r (ns @ [n])" "loose r (ns @ [n]) (length ns)"
proof -
  show "tree_wf r (ns @ [n])"
  proof (rule tree_wfI)
    fix i k c assume i: "i < length (ns @ [n])" and c: "map_of (anChildren ((ns @ [n]) ! i)) k = Some c"
    then have "i < length ns" using assms(2) by (cases "i = length ns") auto
    then show "child_ok r (ns @ [n]) i k c"
      using c tree_wf_child [OF assms(1), of i k c] by (auto simp: child_ok_def nth_append base_def)
  next
    fix i assume "i < length (ns @ [n])"
    then show "distinct (map fst (anChildren ((ns @ [n]) ! i)))"
      using assms tree_wf_distinct [OF assms(1), of i] by (cases "i = length ns") (auto simp: nth_append)
  qed (use assms(1) in \<open>simp add: tree_wf_def\<close>)
  show "loose r (ns @ [n]) (length ns)"
    using assms tree_wf_child [OF assms(1)] tree_wf_root [OF assms(1)]
    by (fastforce simp: loose_def nth_append)
qed

lemma lookup_alloc:
  assumes "tree_wf r ns" "anChildren n = []"
  shows "lookup r (ns @ [n]) qs = lookup r ns qs"
proof (rule lookup_change [OF assms(1), where ds = "[]" and p = r and B = "{}"])
qed (use tree_wf_root [OF assms(1)] in \<open>auto simp: nth_append\<close>)

text \<open>Changing other fields.\<close>

lemma wf_fields:
  assumes "tree_wf r ns" and same: "anPath n = anPath (ns ! i)" "anChildren n = anChildren (ns ! i)" "anParent n = anParent (ns ! i)"
  shows "tree_wf r (ns[i := n])" "lookup r (ns[i := n]) qs = lookup r ns qs" "loose r (ns[i := n]) c = loose r ns c"
proof -
  have fields: "anPath (ns[i := n] ! j) = anPath (ns ! j)" "anChildren (ns[i := n] ! j) = anChildren (ns ! j)"
    "anParent (ns[i := n] ! j) = anParent (ns ! j)" if "j < length ns" for j
    using same that by (cases "i = j"; simp)+
  then have child: "child_ok r (ns[i := n]) j k c = child_ok r ns j k c" if "j < length ns" for j k c
    using that by (auto simp: child_ok_def base_def)
  show "tree_wf r (ns[i := n])"
    using assms(1) fields child by (simp add: tree_wf_def child_map_def)
  show "lookup r (ns[i := n]) qs = lookup r ns qs"
    by (rule lookup_change [OF assms(1), where ds = "[]" and p = r and B = "{}"])
      (use tree_wf_root [OF assms(1)] fields in auto)
  show "loose r (ns[i := n]) c = loose r ns c" using fields by (simp add: loose_def)
qed

lemma wf_loose:
  assumes "tree_wf r ns" "loose r ns c" "anChildren n = anChildren (ns ! c)" "anPath n = anPath (ns ! c) \<or> anChildren n = []"
  shows "tree_wf r (ns[c := n])" "lookup r (ns[c := n]) qs = lookup r ns qs" "loose r (ns[c := n]) d = loose r ns d"
proof -
  have children: "anChildren (ns[c := n] ! j) = anChildren (ns ! j)" if "j < length ns" for j
    using assms(3) that by (cases "c = j") auto
  have "c \<noteq> r" using assms(2) by (simp add: loose_def)
  show "tree_wf r (ns[c := n])"
  proof (rule tree_wfI)
    fix i k d assume i: "i < length (ns[c := n])" and d: "map_of (anChildren (ns[c := n] ! i)) k = Some d"
    then have d': "map_of (anChildren (ns ! i)) k = Some d" using children by simp
    have "d \<noteq> c" using d' i assms(2) by (auto simp: loose_def)
    moreover have "base r (ns[c := n]) i = base r ns i"
      using d i assms(4) by (cases "i = c") (auto simp: base_def)
    ultimately show "child_ok r (ns[c := n]) i k d"
      using tree_wf_child [OF assms(1) _ d'] i by (simp add: child_ok_def)
  qed (use assms(1) children in \<open>auto simp: tree_wf_def\<close>)
  show "lookup r (ns[c := n]) qs = lookup r ns qs"
    by (rule lookup_change [OF assms(1), where ds = "[]" and p = r and B = "{}"])
      (use tree_wf_root [OF assms(1)] children in auto)
  show "loose r (ns[c := n]) d = loose r ns d" using children by (simp add: loose_def)
qed

text \<open>Taking keys out of the map of a node, and putting a loose node in.\<close>

lemma wf_unlink:
  assumes wf: "tree_wf r ns" and p: "p < length ns"
    and sub: "\<And>k c. map_of (anChildren n) k = Some c \<Longrightarrow> map_of (anChildren (ns ! p)) k = Some c"
    and same: "anPath n = anPath (ns ! p)" "anParent n = anParent (ns ! p)" "distinct (map fst (anChildren n))"
  shows "tree_wf r (ns[p := n])"
    and "\<And>c. loose r ns c \<Longrightarrow> loose r (ns[p := n]) c"
    and "\<And>k c. map_of (anChildren (ns ! p)) k = Some c \<Longrightarrow> map_of (anChildren n) k = None \<Longrightarrow> loose r (ns[p := n]) c"
proof -
  have fields: "anPath (ns[p := n] ! j) = anPath (ns ! j)" "anParent (ns[p := n] ! j) = anParent (ns ! j)"
    if "j < length ns" for j using same that by (cases "p = j"; simp)+
  have old: "map_of (anChildren (ns ! j)) k = Some c" if "j < length ns" "map_of (anChildren (ns[p := n] ! j)) k = Some c" for j k c
    using that sub by (cases "p = j") auto
  show "tree_wf r (ns[p := n])"
  proof (rule tree_wfI)
    fix i k c assume i: "i < length (ns[p := n])" and c: "map_of (anChildren (ns[p := n] ! i)) k = Some c"
    moreover have "base r (ns[p := n]) i = base r ns i" using i fields by (simp add: base_def)
    ultimately show "child_ok r (ns[p := n]) i k c"
      using tree_wf_child [OF wf _ old] fields by (simp add: child_ok_def)
  next
    fix i assume "i < length (ns[p := n])"
    then show "distinct (map fst (anChildren (ns[p := n] ! i)))"
      using same(3) tree_wf_distinct [OF wf] by (cases "p = i") auto
  qed (use wf in \<open>simp add: tree_wf_def\<close>)
  show "loose r (ns[p := n]) c" if "loose r ns c" for c
    using that old by (fastforce simp: loose_def)
  show "loose r (ns[p := n]) c" if k: "map_of (anChildren (ns ! p)) k = Some c" "map_of (anChildren n) k = None" for k c
  proof -
    have c: "c \<noteq> r" "anParent (ns ! c) = Some p" "anPath (ns ! c) = k" using tree_wf_child [OF wf p k(1)] by auto
    have False if j: "j < length ns" "map_of (anChildren (ns[p := n] ! j)) l = Some c" for j l
      using tree_wf_child [OF wf j(1) old [OF j]] c j k(2) p by simp
    then show ?thesis using c(1) by (auto simp: loose_def)
  qed
qed

lemma wf_link:
  assumes wf: "tree_wf r ns" and p: "p < length ns" and c: "c < length ns" "loose r ns c" "anParent (ns ! c) = Some p"
    and path: "anPath (ns ! c) = base r ns p @ ''/'' @ b" "is_name b"
    and same: "anPath n = anPath (ns ! p)" "anParent n = anParent (ns ! p)" "distinct (map fst (anChildren n))"
    and children: "map_of (anChildren n) = (map_of (anChildren (ns ! p)))(anPath (ns ! c) \<mapsto> c)"
  shows "tree_wf r (ns[p := n])"
proof (rule tree_wfI)
  have fields: "anPath (ns[p := n] ! j) = anPath (ns ! j)" "anParent (ns[p := n] ! j) = anParent (ns ! j)"
    if "j < length ns" for j using same that by (cases "p = j"; simp)+
  fix i k d assume i: "i < length (ns[p := n])" and d: "map_of (anChildren (ns[p := n] ! i)) k = Some d"
  have base: "base r (ns[p := n]) i = base r ns i" using i fields by (simp add: base_def)
  show "child_ok r (ns[p := n]) i k d"
  proof (cases "i = p \<and> k = anPath (ns ! c)")
    case True
    then have "d = c" using d children p by simp
    then show ?thesis using True c path base fields by (auto simp: child_ok_def loose_def)
  next
    case False
    then have old: "map_of (anChildren (ns ! i)) k = Some d" using d i children by (cases "i = p") auto
    then show ?thesis using tree_wf_child [OF wf _ old] i base fields by (simp add: child_ok_def)
  qed
next
  fix i assume "i < length (ns[p := n])"
  then show "distinct (map fst (anChildren (ns[p := n] ! i)))"
    using same(3) tree_wf_distinct [OF wf] by (cases "p = i") auto
qed (use wf in \<open>simp add: tree_wf_def\<close>)

section \<open>The operations on nodes without children\<close>

lemma nodes_frame [simp]:
  "trNodes (publish ev s) = trNodes s" "trNodes (setContextNode i force s) = trNodes s"
  "trNodes (notify i ev s) = trNodes s" "trNodes (notify_parent i s) = trNodes s"
  by (simp_all add: publish_def setContextNode_def notify_def notify_parent_def Let_def split: option.split)

lemma trNodes_set_node [simp]: "trNodes (set_node i f s) = (trNodes s)[i := f (trNodes s ! i)]"
  by (simp add: set_node_def)

lemma replaceBy_same_path:
  assumes "anChildren (node s c) = []" "anPath (node s e) = anPath (node s c)" "e < length (trNodes s)"
    "anChildren (copy_fields override (node s c) (node s e)) = anChildren (node s e)"
  shows "replaceBy override e c s =
    notify_parent e (notify e ''node_replaced'' (set_node e (copy_fields override (node s c)) s))"
proof -
  have "anChildren (node (set_node e (copy_fields override (node s c)) s) c) = []"
    using assms by (cases "c = e") (simp_all add: set_node_def)
  then show ?thesis using assms(2) by (simp add: replaceBy_def Let_def)
qed

lemma copy_fields_sel [simp]:
  "anChildren (copy_fields override n e) = anChildren e" "anParent (copy_fields override n e) = anParent e"
  "anLeaf (copy_fields override n e) = anLeaf n"
  "anPath (copy_fields override n e) = (if anPath n = [] then anPath e else anPath n)"
  "anMeta (copy_fields override n e) = merge_meta override (anMeta n) (anMeta e)"
  by (simp_all add: copy_fields_def)

text \<open>Overriding with metadata whose keys differ takes them over.\<close>

lemma merge_meta_override: "distinct (map fst new) \<Longrightarrow> merge_meta True new old = new"
proof -
  have "foldl (\<lambda>m (k, v). obj_set k v m) acc new = acc @ new"
    if "distinct (map fst (acc @ new))" for acc :: "(string, mval) obj"
    using that
  proof (induction new arbitrary: acc)
    case (Cons kv new)
    then show ?case by (cases kv) (auto simp: obj_set_fresh)
  qed simp
  from this [of "[]"] show "distinct (map fst new) \<Longrightarrow> ?thesis" by (simp add: merge_meta_def case_prod_unfold)
qed

end
