(* ===== verification/DataModelFacts.thy ===== *)
theory DataModelFacts
  imports DataModel NodeTreeFacts "HOL-Library.Sublist"
begin

text \<open>
  What the operations of the data model do to the files shown: \<open>files\<close> gives for a path, as a list of
  names, whether a file or folder is there and its metadata.
\<close>

section \<open>The files shown\<close>

definition shown :: "nat \<Rightarrow> anode list \<Rightarrow> string list \<Rightarrow> (bool \<times> (string, mval) obj) option" where
  "shown r ns qs = map_option (\<lambda>i. (anLeaf (ns ! i), anMeta (ns ! i))) (lookup r ns qs)"

definition info :: "anode \<Rightarrow> bool \<times> (string, mval) obj" where
  "info n = (anLeaf n, anMeta n)"

text \<open>A file already there with a later or equal time of its metadata is kept.\<close>

definition held :: "(string list \<Rightarrow> (bool \<times> (string, mval) obj) option) \<Rightarrow> string list \<Rightarrow> bool \<times> (string, mval) obj \<Rightarrow> bool" where
  "held F path new \<longleftrightarrow> (case F path of Some old \<Rightarrow> more_recent (snd old) (snd new) | None \<Rightarrow> False)"

definition files :: "dmodel \<Rightarrow> string list \<Rightarrow> (bool \<times> (string, mval) obj) option" where
  "files s = shown (dmRoot s) (trNodes s)"

definition dm_wf :: "dmodel \<Rightarrow> bool" where
  "dm_wf s \<longleftrightarrow> tree_wf (dmRoot s) (trNodes s)"

text \<open>A node as \<open>parseTreeNode\<close> makes it: new, without children, with its metadata in a map.\<close>

definition fresh :: "nat \<Rightarrow> dmodel \<Rightarrow> bool" where
  "fresh i s \<longleftrightarrow> i < length (trNodes s) \<and> loose (dmRoot s) (trNodes s) i \<and> anChildren (node s i) = [] \<and>
     distinct (map fst (anMeta (node s i)))"

lemma loose_not_found:
  assumes "tree_wf r ns" "loose r ns c"
  shows "lookup r ns qs \<noteq> Some c"
proof (cases qs rule: rev_cases)
  case Nil
  then show ?thesis using assms(2) by (simp add: loose_def)
next
  case (snoc ds b)
  then show ?thesis using lookup_parent [OF assms(1), of ds b c] assms(2) by (auto simp: loose_def)
qed

lemma selected_frame [simp]:
  "trNodes (setSelectedNodes ns s) = trNodes s" "dmRoot (setSelectedNodes ns s) = dmRoot s"
  "trNodes (select_in sel p i s) = trNodes s" "dmRoot (select_in sel p i s) = dmRoot s"
  by (simp_all add: setSelectedNodes_def select_in_def publish_def)

lemma root_frame [simp]:
  "dmRoot (publish ev s) = dmRoot s" "dmRoot (setContextNode i force s) = dmRoot s" "dmRoot (set_node i f s) = dmRoot s"
  "dmRoot (notify i ev s) = dmRoot s" "dmRoot (notify_parent i s) = dmRoot s"
  by (simp_all add: publish_def setContextNode_def notify_def notify_parent_def set_node_def Let_def split: option.split)

section \<open>Adding\<close>

lemma adopt_sel [simp]:
  "anPath (adopt p q n) = anPath n" "anChildren (adopt p q n) = anChildren n" "anLeaf (adopt p q n) = anLeaf n"
  "anParent (adopt p q n) = Some p" "\<not> search_root q \<Longrightarrow> anMeta (adopt p q n) = anMeta n"
  by (simp_all add: adopt_def)

text \<open>A node that is not in the tree may change in anything but its path and children.\<close>

lemma loose_changed:
  assumes "tree_wf r ns" "loose r ns c" "anChildren n = anChildren (ns ! c)" "anPath n = anPath (ns ! c)"
  shows "tree_wf r (ns[c := n])" "lookup r (ns[c := n]) qs = lookup r ns qs"
    "loose r (ns[c := n]) d = loose r ns d" "shown r (ns[c := n]) = shown r ns"
proof -
  note wf = wf_loose [OF assms(1,2,3)]
  show "tree_wf r (ns[c := n])" "loose r (ns[c := n]) d = loose r ns d" using wf assms(4) by simp_all
  have l: "lookup r (ns[c := n]) qs = lookup r ns qs" for qs using wf(2) assms(4) by simp
  show "lookup r (ns[c := n]) qs = lookup r ns qs" by (rule l)
  have "lookup r ns qs = Some i \<Longrightarrow> ns[c := n] ! i = ns ! i" for qs i
    using loose_not_found [OF assms(1,2), of qs] by (cases "i = c") simp_all
  then show "shown r (ns[c := n]) = shown r ns"
    by (auto simp: fun_eq_iff shown_def l intro: option.map_cong0)
qed

lemma replace_found:
  assumes wf: "tree_wf r (trNodes s)" and e: "lookup r (trNodes s) es = Some e"
    and c: "loose r (trNodes s) c" "anChildren (node s c) = []" "anPath (node s c) = anPath (node s e)"
      "distinct (map fst (anMeta (node s c)))"
    and t: "t = replaceBy True e c s"
  shows "tree_wf r (trNodes t)" "length (trNodes t) = length (trNodes s)" "lookup r (trNodes t) qs = lookup r (trNodes s) qs"
    "shown r (trNodes t) qs = (if qs = es then Some (info (node s c)) else shown r (trNodes s) qs)"
    "loose r (trNodes t) d = loose r (trNodes s) d" "d \<noteq> e \<Longrightarrow> node t d = node s d"
    "search_root (node t d) = (if d = e then search_root (node s c) else search_root (node s d))"
    "dmRoot t = dmRoot s"
proof -
  let ?ns = "trNodes s" and ?e = "copy_fields True (node s c) (node s e)"
  have e_len: "e < length ?ns" using lookup_path [OF wf e] by simp
  have "c \<noteq> e" using loose_not_found [OF wf c(1)] e by auto
  have eq: "t = notify_parent e (notify e ''node_replaced'' (set_node e (copy_fields True (node s c)) s))"
    unfolding t by (rule replaceBy_same_path) (use c(2,3) e_len in simp_all)
  have nodes: "trNodes t = ?ns[e := ?e]" by (simp add: eq)
  show "dmRoot t = dmRoot s" by (simp add: eq)
  have same: "anPath ?e = anPath (node s e)" "anChildren ?e = anChildren (node s e)" "anParent ?e = anParent (node s e)"
    using c(3) by simp_all
  note wf' = wf_fields [OF wf same]
  show "tree_wf r (trNodes t)" "loose r (trNodes t) d = loose r (trNodes s) d" "length (trNodes t) = length (trNodes s)"
    unfolding nodes using wf'(1,3) by simp_all
  show l: "lookup r (trNodes t) qs = lookup r (trNodes s) qs" unfolding nodes by (rule wf'(2))
  show "d \<noteq> e \<Longrightarrow> node t d = node s d" by (simp add: nodes)
  have at: "node t e = ?e" unfolding nodes by (rule nth_list_update_eq [OF e_len])
  have meta: "anMeta ?e = anMeta (node s c)" using merge_meta_override [OF c(4)] by simp
  show "search_root (node t d) = (if d = e then search_root (node s c) else search_root (node s d))"
  proof (cases "d = e")
    case True
    then show ?thesis unfolding search_root_def True at meta by simp
  qed (simp add: nodes)
  show "shown r (trNodes t) qs = (if qs = es then Some (info (node s c)) else shown r (trNodes s) qs)"
  proof (cases "lookup r ?ns qs")
    case (Some i)
    moreover have "i = e \<longleftrightarrow> qs = es"
    proof
      show "qs = es \<Longrightarrow> i = e" using e Some by simp
      show "i = e \<Longrightarrow> qs = es" using lookup_inj [OF wf Some, of es] e by simp
    qed
    moreover have "node t i = (if qs = es then ?e else node s i)" using calculation at by (cases "i = e") (simp_all add: nodes)
    ultimately show ?thesis using meta unfolding shown_def l by (simp del: copy_fields_sel(5) add: info_def)
  qed (use e l in \<open>auto simp: shown_def\<close>)
qed

lemma link_new:
  assumes wf: "tree_wf r ns" and p: "lookup r ns ds = Some p" and none: "lookup r ns (ds @ [b]) = None" and b: "is_name b"
    and c: "c < length ns" "loose r ns c" "anChildren (ns ! c) = []" "anPath (ns ! c) = path_of (ds @ [b])" "anParent (ns ! c) = Some p"
    and ns': "ns' = ns[p := (ns ! p)\<lparr>anChildren := obj_set (anPath (ns ! c)) c (anChildren (ns ! p))\<rparr>]"
  shows "tree_wf r ns'" "shown r ns' qs = (if qs = ds @ [b] then Some (info (ns ! c)) else shown r ns qs)"
proof -
  have p_len: "p < length ns" and base: "base r ns p = path_of ds" using lookup_path [OF wf p] by auto
  have "p \<noteq> c" using loose_not_found [OF wf c(2)] p by auto
  let ?n = "(ns ! p)\<lparr>anChildren := obj_set (anPath (ns ! c)) c (anChildren (ns ! p))\<rparr>"
  have map: "map_of (anChildren ?n) = (map_of (anChildren (ns ! p)))(anPath (ns ! c) \<mapsto> c)"
    by (simp add: update_conv')
  show "tree_wf r ns'" unfolding ns'
    by (rule wf_link [OF wf p_len c(1,2,5)])
      (use map base c(4) b tree_wf_distinct [OF wf p_len] in \<open>auto simp: distinct_update\<close>)
  have others: "lookup r ns' qs = lookup r ns qs" if "take (Suc (length ds)) qs \<noteq> ds @ [b]" for qs
    by (rule lookup_change [OF wf p, where B = "{b}"]) (use that map p_len c(4) in \<open>auto simp: ns'\<close>)
  have kept: "lookup r ns' ds = Some p" using others [of ds] p by simp
  show "shown r ns' qs = (if qs = ds @ [b] then Some (info (ns ! c)) else shown r ns qs)"
  proof (cases "take (Suc (length ds)) qs = ds @ [b]")
    case False
    moreover have "anLeaf (ns' ! i) = anLeaf (ns ! i) \<and> anMeta (ns' ! i) = anMeta (ns ! i)" for i
      using p_len by (cases "i = p") (auto simp: ns')
    ultimately show ?thesis using others by (auto simp: shown_def)
  next
    case True
    then obtain rest where qs: "qs = ds @ b # rest" by (metis append.assoc append_Cons append_Nil append_take_drop_id)
    have "lookup r ns' qs = (if rest = [] then Some c else None)"
      unfolding qs using lookup_below [OF p _ kept, of b rest] map p_len c \<open>p \<noteq> c\<close>
      by (simp add: ns' find_node_childless)
    moreover have "lookup r ns qs = None"
      using none find_node_append [of ns r "[]" "ds @ [b]" rest] by (simp add: qs)
    moreover have "ns' ! c = ns ! c" using \<open>p \<noteq> c\<close> by (simp add: ns')
    ultimately show ?thesis by (simp add: shown_def qs info_def)
  qed
qed

text \<open>\<open>addChild\<close> of a new node in the folder it belongs to, once the node has its parent.\<close>

lemma add_adopted:
  assumes wf: "tree_wf r (trNodes s)" and p: "lookup r (trNodes s) ds = Some p" and b: "is_name b"
    and c: "c < length (trNodes s)" "loose r (trNodes s) c" "anChildren (node s c) = []" "anPath (node s c) = path_of (ds @ [b])"
      "anParent (node s c) = Some p" "distinct (map fst (anMeta (node s c)))"
    and t: "t = (case findChildByPath s p (anPath (node s c)) of
        Some e \<Rightarrow> if isMoreRecentThan (node s e) (node s c) then s else replaceBy True e c s
      | None \<Rightarrow> notify p ''child_added'' (set_node p (\<lambda>n. n\<lparr>anChildren := obj_set (anPath (node s c)) c (anChildren n)\<rparr>) s))"
  shows "tree_wf r (trNodes t) \<and> dmRoot t = dmRoot s \<and>
    (\<forall>qs. shown r (trNodes t) qs = (if qs = ds @ [b] \<and> \<not> held (shown r (trNodes s)) (ds @ [b]) (info (node s c))
       then Some (info (node s c)) else shown r (trNodes s) qs))"
proof -
  have find: "findChildByPath s p (anPath (node s c)) = lookup r (trNodes s) (ds @ [b])"
    using p c(4) by (simp add: findChildByPath_def lookup_snoc)
  show ?thesis
  proof (cases "lookup r (trNodes s) (ds @ [b])")
    case None
    then have "\<not> held (shown r (trNodes s)) (ds @ [b]) (info (node s c))" by (simp add: held_def shown_def)
    moreover have nodes: "trNodes t = (trNodes s)[p := (trNodes s ! p)\<lparr>anChildren := obj_set (anPath (trNodes s ! c)) c (anChildren (trNodes s ! p))\<rparr>]"
      and "dmRoot t = dmRoot s" using t find None by simp_all
    ultimately show ?thesis using link_new [OF wf p None b c(1-5) nodes] by simp
  next
    case (Some e)
    then have held: "held (shown r (trNodes s)) (ds @ [b]) (info (node s c)) \<longleftrightarrow> isMoreRecentThan (node s e) (node s c)"
      by (simp add: isMoreRecentThan_def held_def shown_def info_def)
    show ?thesis
    proof (cases "isMoreRecentThan (node s e) (node s c)")
      case True
      then show ?thesis using t find Some held wf by simp
    next
      case False
      then have replaced: "t = replaceBy True e c s" using t find Some by simp
      have path: "anPath (node s c) = anPath (node s e)" using lookup_path [OF wf Some] c(4) by simp
      note rf = replace_found [OF wf Some c(2,3) path c(6) replaced]
      show ?thesis using rf(1,4,8) held False by simp
    qed
  qed
qed

lemma addChild_new:
  assumes wf: "tree_wf r (trNodes s)" and p: "lookup r (trNodes s) ds = Some p" "\<not> search_root (node s p)" and b: "is_name b"
    and c: "c < length (trNodes s)" "loose r (trNodes s) c" "anChildren (node s c) = []" "anPath (node s c) = path_of (ds @ [b])"
      "distinct (map fst (anMeta (node s c)))"
    and t: "(t, res) = addChildNode p c s"
  shows "tree_wf r (trNodes t)" "dmRoot t = dmRoot s"
    "shown r (trNodes t) qs = (if qs = ds @ [b] \<and> \<not> held (shown r (trNodes s)) (ds @ [b]) (info (node s c))
       then Some (info (node s c)) else shown r (trNodes s) qs)"
proof -
  let ?s = "set_node c (adopt p (node s p)) s"
  have ns: "trNodes ?s = (trNodes s)[c := adopt p (node s p) (trNodes s ! c)]" by simp
  note ad = loose_changed [OF wf c(2), of "adopt p (node s p) (node s c)", OF adopt_sel(2,1), folded ns]
  have at: "node ?s c = adopt p (node s p) (node s c)" using c(1) by (simp add: set_node_def)
  have c': "c < length (trNodes ?s)" "loose r (trNodes ?s) c" "anChildren (node ?s c) = []" "anPath (node ?s c) = path_of (ds @ [b])"
    "anParent (node ?s c) = Some p" "distinct (map fst (anMeta (node ?s c)))" "info (node ?s c) = info (node s c)"
    unfolding at using c p(2) ad(3) by (simp_all add: info_def)
  have "lookup r (trNodes ?s) ds = Some p" using ad(2) p(1) by simp
  note aa = add_adopted [OF ad(1) this b c'(1-6) refl]
  have "t = fst (addChildNode p c s)" by (simp flip: t)
  then have "t = (case findChildByPath ?s p (anPath (node ?s c)) of
        Some e \<Rightarrow> if isMoreRecentThan (node ?s e) (node ?s c) then ?s else replaceBy True e c ?s
      | None \<Rightarrow> notify p ''child_added'' (set_node p (\<lambda>n. n\<lparr>anChildren := obj_set (anPath (node ?s c)) c (anChildren n)\<rparr>) ?s))"
    by (simp add: addChildNode_def add_child_def Let_def split: option.split)
  then show "tree_wf r (trNodes t)" "dmRoot t = dmRoot s"
    "shown r (trNodes t) qs = (if qs = ds @ [b] \<and> \<not> held (shown r (trNodes s)) (ds @ [b]) (info (node s c))
       then Some (info (node s c)) else shown r (trNodes s) qs)"
    using aa ad(4) c'(7) by simp_all
qed

lemma findInArbo_path:
  assumes "list_all is_name bs"
  shows "findInArbo s r (path_of bs) = (if bs = [] then None else lookup r (trNodes s) bs)"
  using assms by (simp add: findInArbo_def path_parts_path_of)

lemma parent_folder_path:
  assumes "list_all is_name (ds @ [b])"
  shows "parent_folder (path_of (ds @ [b])) s = lookup (dmRoot s) (trNodes s) ds"
  using assms dirname_path_of [of b ds] strip_slash_path_of [of ds] findInArbo_path [of ds s "dmRoot s"]
  by (cases "ds = []") (simp_all add: parent_folder_def del: path_of_simps split: option.split)

lemma replace_existing:
  fixes s :: dmodel
  assumes wf: "tree_wf r (trNodes s)" and c: "loose r (trNodes s) i" "anChildren (node s i) = []"
      "distinct (map fst (anMeta (node s i)))" "anPath (node s i) = path_of path" "path \<noteq> []"
    and s1: "s1 = (case lookup r (trNodes s) path of None \<Rightarrow> s
        | Some e \<Rightarrow> let t = replaceBy True e i s in select_in sel (anParent (node t e)) e t)"
  shows "tree_wf r (trNodes s1)" "dmRoot s1 = dmRoot s" "length (trNodes s1) = length (trNodes s)" "loose r (trNodes s1) i"
    "node s1 i = node s i" "lookup r (trNodes s1) qs = lookup r (trNodes s) qs"
    "lookup r (trNodes s) ds = Some p \<Longrightarrow> ds \<noteq> path \<Longrightarrow> search_root (node s1 p) = search_root (node s p)"
    "shown r (trNodes s1) qs = (if qs = path \<and> lookup r (trNodes s) path \<noteq> None then Some (info (node s i))
       else shown r (trNodes s) qs)"
proof -
  let ?goal = "\<lambda>qs ds p. tree_wf r (trNodes s1) \<and> dmRoot s1 = dmRoot s \<and> length (trNodes s1) = length (trNodes s) \<and>
    loose r (trNodes s1) i \<and> node s1 i = node s i \<and> lookup r (trNodes s1) qs = lookup r (trNodes s) qs \<and>
    (lookup r (trNodes s) ds = Some p \<longrightarrow> ds \<noteq> path \<longrightarrow> search_root (node s1 p) = search_root (node s p)) \<and>
    shown r (trNodes s1) qs = (if qs = path \<and> lookup r (trNodes s) path \<noteq> None then Some (info (node s i))
       else shown r (trNodes s) qs)"
  have "?goal qs ds p" for qs ds p
  proof (cases "lookup r (trNodes s) path")
    case None
    then show ?thesis using s1 wf c by simp
  next
    case (Some e)
    have eq: "anPath (node s i) = anPath (node s e)" using lookup_path [OF wf Some] c(4,5) by simp
    note rf = replace_found [OF wf Some c(1,2) eq c(3) refl]
    have nodes: "trNodes s1 = trNodes (replaceBy True e i s)" "dmRoot s1 = dmRoot (replaceBy True e i s)"
      using s1 Some by (simp_all add: Let_def)
    have "i \<noteq> e" using loose_not_found [OF wf c(1)] Some by auto
    moreover have "p \<noteq> e" if "lookup r (trNodes s) ds = Some p" "ds \<noteq> path"
      using lookup_inj [OF wf that(1), of path] that(2) Some by auto
    ultimately show ?thesis
      unfolding nodes using rf(1,2,3,8) rf(4) [of qs] rf(5) [of i] rf(6) [of i] rf(7) [of p] c(1) Some by simp
  qed
  then show "tree_wf r (trNodes s1)" "dmRoot s1 = dmRoot s" "length (trNodes s1) = length (trNodes s)" "loose r (trNodes s1) i"
    "node s1 i = node s i" "lookup r (trNodes s1) qs = lookup r (trNodes s) qs"
    "lookup r (trNodes s) ds = Some p \<Longrightarrow> ds \<noteq> path \<Longrightarrow> search_root (node s1 p) = search_root (node s p)"
    "shown r (trNodes s1) qs = (if qs = path \<and> lookup r (trNodes s) path \<noteq> None then Some (info (node s i))
       else shown r (trNodes s) qs)"
    by blast+
qed

lemma addNode_files:
  assumes wf: "dm_wf s" and i: "fresh i s" "anPath (node s i) = path_of (ds @ [b])" "list_all is_name (ds @ [b])"
    and plain: "\<And>p. lookup (dmRoot s) (trNodes s) ds = Some p \<Longrightarrow> \<not> search_root (node s p)"
  shows "dm_wf (addNode sel i s)"
    "files (addNode sel i s) qs = (if qs = ds @ [b] \<and> files s ds \<noteq> None then Some (info (node s i)) else files s qs)"
proof -
  let ?r = "dmRoot s" and ?path = "ds @ [b]"
  let ?look = "lookup ?r (trNodes s)"
  have wf': "tree_wf ?r (trNodes s)" using wf by (simp add: dm_wf_def)
  have c: "i < length (trNodes s)" "loose ?r (trNodes s) i" "anChildren (node s i) = []" "distinct (map fst (anMeta (node s i)))"
    using i(1) by (simp_all add: fresh_def)
  define s1 where "s1 = (case ?look ?path of None \<Rightarrow> s
      | Some e \<Rightarrow> let t = replaceBy True e i s in select_in sel (anParent (node t e)) e t)"
  note r1 = replace_existing [OF wf' c(2,3,4) i(2) _ s1_def]
  have parent: "parent_folder (path_of ?path) s1 = ?look ds"
    using parent_folder_path [OF i(3), of s1] r1(2,6) by simp
  have found: "findInArbo s ?r (path_of ?path) = ?look ?path"
    using findInArbo_path [OF i(3), of s ?r] by simp
  have add: "addNode sel i s = (case ?look ds of None \<Rightarrow> s1 | Some p \<Rightarrow>
      (case addChildNode p i s1 of (t, None) \<Rightarrow> t | (t, Some a) \<Rightarrow> select_in sel (Some p) a t))"
    unfolding parent [symmetric] unfolding addNode_def Let_def i(2) found s1_def by (rule refl)
  have "dm_wf (addNode sel i s) \<and>
    (\<forall>qs. files (addNode sel i s) qs = (if qs = ?path \<and> files s ds \<noteq> None then Some (info (node s i)) else files s qs))"
  proof (cases "?look ds")
    case None
    then have "?look ?path = None" by (simp add: lookup_snoc)
    then show ?thesis using wf None by (simp add: add s1_def files_def shown_def)
  next
    case (Some p)
    obtain t res where t: "(t, res) = addChildNode p i s1" by (metis surj_pair)
    have nodes: "trNodes (addNode sel i s) = trNodes t" "dmRoot (addNode sel i s) = dmRoot t"
      using t Some by (auto simp: add split: option.splits prod.splits)
    have p: "lookup ?r (trNodes s1) ds = Some p" "\<not> search_root (node s1 p)"
      using r1(6,7) Some plain by simp_all
    have ci: "i < length (trNodes s1)" "loose ?r (trNodes s1) i" "anChildren (node s1 i) = []"
      "anPath (node s1 i) = path_of ?path" "distinct (map fst (anMeta (node s1 i)))"
      using r1(3-5) c i(2) by simp_all
    note ac = addChild_new [OF r1(1) p _ ci t]
    have "shown ?r (trNodes s1) ?path = Some (info (node s1 i))" if "held (shown ?r (trNodes s1)) ?path (info (node s1 i))"
      using that r1(5) r1(8) [of ?path] by (auto simp: held_def shown_def split: if_splits)
    then have "shown ?r (trNodes t) qs = (if qs = ?path then Some (info (node s i)) else shown ?r (trNodes s1) qs)" for qs
      using ac(3) i(3) r1(5) by auto
    then show ?thesis using ac(1,2) r1(2,8) i(3) Some by (auto simp: dm_wf_def files_def nodes shown_def)
  qed
  then show "dm_wf (addNode sel i s)"
    "files (addNode sel i s) qs = (if qs = ds @ [b] \<and> files s ds \<noteq> None then Some (info (node s i)) else files s qs)"
    by blast+
qed

section \<open>Removing\<close>

lemma prefix_take: "prefix ps qs \<longleftrightarrow> take (length ps) qs = ps"
  by (metis append_eq_conv_conj prefix_def append_take_drop_id)

lemma lookup_prefix: "lookup r ns ps = None \<Longrightarrow> prefix ps qs \<Longrightarrow> lookup r ns qs = None"
  by (auto simp: prefix_def find_node_append)

text \<open>Taking keys out of the children of the folder \<open>ds\<close>.\<close>

lemma unlink_shown:
  assumes wf: "tree_wf r ns" and p: "lookup r ns ds = Some p" and len: "length ns' = length ns"
    and others: "\<And>j. j < length ns \<Longrightarrow> j \<noteq> p \<Longrightarrow> anChildren (ns' ! j) = anChildren (ns ! j)"
    and gone: "\<And>c. c \<in> B \<Longrightarrow> map_of (anChildren (ns' ! p)) (path_of (ds @ [c])) = None"
    and keys: "\<And>c. c \<notin> B \<Longrightarrow> map_of (anChildren (ns' ! p)) (path_of (ds @ [c])) = map_of (anChildren (ns ! p)) (path_of (ds @ [c]))"
    and same: "\<And>j qs. lookup r ns qs = Some j \<Longrightarrow> \<forall>c \<in> B. \<not> prefix (ds @ [c]) qs \<Longrightarrow> info (ns' ! j) = info (ns ! j)"
  shows "shown r ns' qs = (if \<exists>c \<in> B. prefix (ds @ [c]) qs then None else shown r ns qs)"
proof (cases "\<exists>c \<in> B. prefix (ds @ [c]) qs")
  case False
  then have "lookup r ns' qs = lookup r ns qs"
    by (intro lookup_change [OF wf p, where B = B]) (use len others keys in \<open>auto simp: prefix_take\<close>)
  moreover have "info (ns' ! j) = info (ns ! j)" if "lookup r ns qs = Some j" for j using same [OF that] False by blast
  ultimately show ?thesis using False by (cases "lookup r ns qs") (simp_all add: shown_def info_def)
next
  case True
  then obtain c rest where c: "c \<in> B" "qs = ds @ c # rest" by (auto simp: prefix_def)
  have "lookup r ns' ds = lookup r ns ds"
    by (rule lookup_change [OF wf p, where B = B]) (use len others keys in auto)
  then have "lookup r ns' qs = None" using lookup_below [OF p, of ns' c rest] p len gone [OF c(1)] c(2) by simp
  then show ?thesis using True by (simp add: shown_def)
qed

lemma unlink_child:
  assumes wf: "tree_wf r ns" and p: "lookup r ns ds = Some p" "map_of (anChildren (ns ! p)) (path_of (ds @ [b])) = Some e"
    and e: "lookup r ns (ds @ [b]) = Some e" "e \<noteq> p"
    and ns': "ns' = (ns[p := (ns ! p)\<lparr>anChildren := obj_del (path_of (ds @ [b])) (anChildren (ns ! p))\<rparr>])[e := (ns ! e)\<lparr>anParent := None\<rparr>]"
  shows "tree_wf r ns'" "loose r ns c \<Longrightarrow> loose r ns' c \<and> ns' ! c = ns ! c"
proof -
  let ?n = "(ns ! p)\<lparr>anChildren := obj_del (path_of (ds @ [b])) (anChildren (ns ! p))\<rparr>"
  have p_len: "p < length ns" using lookup_path [OF wf p(1)] by simp
  have map: "map_of (anChildren ?n) = (map_of (anChildren (ns ! p)))(path_of (ds @ [b]) := None)"
    by (simp add: delete_conv')
  have dist: "distinct (map fst (anChildren ?n))" using tree_wf_distinct [OF wf p_len] by (simp add: distinct_delete)
  have sub: "map_of (anChildren ?n) k = Some x \<Longrightarrow> map_of (anChildren (ns ! p)) k = Some x" for k x
    unfolding map by (simp split: if_splits)
  have same: "anPath ?n = anPath (ns ! p)" "anParent ?n = anParent (ns ! p)" by simp_all
  have wf1: "tree_wf r (ns[p := ?n])" by (rule wf_unlink(1) [OF wf p_len]) (use sub same dist in blast)+
  have loose1: "loose r (ns[p := ?n]) c" if "loose r ns c" for c
    by (rule wf_unlink(2) [OF wf p_len]) (use sub same dist that in blast)+
  have "map_of (anChildren ?n) (path_of (ds @ [b])) = None" by (simp only: map fun_upd_same)
  then have "loose r (ns[p := ?n]) e"
    by (intro wf_unlink(3) [OF wf p_len _ same dist p(2)]) (use sub in blast)+
  note wl = wf_loose [OF wf1 this, of "(ns ! e)\<lparr>anParent := None\<rparr>"]
  have at: "ns[p := ?n] ! e = ns ! e" using e(2) by simp
  show "tree_wf r ns'" unfolding ns' by (rule wl(1)) (simp_all add: at del: path_of_simps)
  have "c \<noteq> p \<and> c \<noteq> e" if "loose r ns c" using loose_not_found [OF wf that] p(1) e(1) by auto
  then show "loose r ns c \<Longrightarrow> loose r ns' c \<and> ns' ! c = ns ! c"
    using loose1 [of c] wl(3) [of c] unfolding ns' by (simp add: at del: path_of_simps)
qed

lemma removed_nodes:
  fixes s :: dmodel
  assumes wf: "tree_wf r (trNodes s)" and e: "lookup r (trNodes s) (ds @ [b]) = Some e"
  obtains p where "lookup r (trNodes s) ds = Some p" "map_of (anChildren (node s p)) (path_of (ds @ [b])) = Some e" "e \<noteq> p"
    "dmRoot (remove_node e s) = dmRoot s"
    "trNodes (remove_node e s) = ((trNodes s)[p := (node s p)\<lparr>anChildren := obj_del (path_of (ds @ [b])) (anChildren (node s p))\<rparr>])
       [e := (node s e)\<lparr>anParent := None\<rparr>]"
proof -
  obtain p where p: "lookup r (trNodes s) ds = Some p" "anParent (node s e) = Some p"
    "map_of (anChildren (node s p)) (path_of (ds @ [b])) = Some e" using lookup_parent [OF wf e] by blast
  have "e \<noteq> p" using lookup_inj [OF wf e] p(1) by auto
  moreover have "anPath (node s e) = path_of (ds @ [b])" using lookup_path [OF wf e] by auto
  ultimately show thesis using that [OF p(1,3)] p(2)
    by (simp add: remove_node_def removeChildNode_def list_update_swap Let_def del: path_of_simps)
qed

lemma remove_found:
  fixes s :: dmodel
  assumes wf: "tree_wf r (trNodes s)" and e: "lookup r (trNodes s) (ds @ [b]) = Some e"
  shows "tree_wf r (trNodes (remove_node e s))" "dmRoot (remove_node e s) = dmRoot s"
    "length (trNodes (remove_node e s)) = length (trNodes s)"
    "shown r (trNodes (remove_node e s)) qs = (if prefix (ds @ [b]) qs then None else shown r (trNodes s) qs)"
    "loose r (trNodes s) c \<Longrightarrow> loose r (trNodes (remove_node e s)) c \<and> node (remove_node e s) c = node s c"
    "lookup r (trNodes s) cs = Some q \<Longrightarrow> \<not> prefix (ds @ [b]) cs \<Longrightarrow> lookup r (trNodes (remove_node e s)) cs = Some q"
    "search_root (node (remove_node e s) i) = search_root (node s i)"
proof -
  let ?ns = "trNodes s" and ?t = "remove_node e s"
  obtain p where p: "lookup r ?ns ds = Some p" "map_of (anChildren (?ns ! p)) (path_of (ds @ [b])) = Some e" "e \<noteq> p"
    and root: "dmRoot ?t = dmRoot s"
    and nodes: "trNodes ?t = (?ns[p := (?ns ! p)\<lparr>anChildren := obj_del (path_of (ds @ [b])) (anChildren (?ns ! p))\<rparr>])
       [e := (?ns ! e)\<lparr>anParent := None\<rparr>]"
    by (rule removed_nodes [OF wf e])
  note un = unlink_child [OF wf p(1,2) e p(3) nodes]
  show "tree_wf r (trNodes ?t)" "dmRoot ?t = dmRoot s" by (rule un(1), rule root)
  show len: "length (trNodes ?t) = length ?ns" by (simp add: nodes)
  show "loose r ?ns c \<Longrightarrow> loose r (trNodes ?t) c \<and> node ?t c = node s c" by (rule un(2))
  have "p < length ?ns" "e < length ?ns" using lookup_path [OF wf p(1)] lookup_path [OF wf e] by auto
  then have children: "anChildren (node ?t j) = (if j = p then obj_del (path_of (ds @ [b])) (anChildren (?ns ! p)) else anChildren (?ns ! j))"
    and infos: "info (node ?t j) = info (?ns ! j)" for j
    using p(3) by (auto simp: nodes nth_list_update info_def)
  have map: "map_of (anChildren (node ?t p)) = (map_of (anChildren (?ns ! p)))(path_of (ds @ [b]) := None)"
    by (simp add: children delete_conv')
  have "shown r (trNodes ?t) qs = (if \<exists>c \<in> {b}. prefix (ds @ [c]) qs then None else shown r ?ns qs)"
    by (rule unlink_shown [OF wf p(1) len]) (use children infos map in auto)
  then show "shown r (trNodes ?t) qs = (if prefix (ds @ [b]) qs then None else shown r ?ns qs)" by simp
  have "lookup r (trNodes ?t) cs = lookup r ?ns cs" if "\<not> prefix (ds @ [b]) cs"
    by (rule lookup_change [OF wf p(1), where B = "{b}"]) (use len children map that in \<open>auto simp: prefix_take\<close>)
  then show "lookup r ?ns cs = Some q \<Longrightarrow> \<not> prefix (ds @ [b]) cs \<Longrightarrow> lookup r (trNodes ?t) cs = Some q" by simp
  show "search_root (node ?t i) = search_root (node s i)"
    using infos [of i] by (simp add: search_root_def info_def)
qed

lemma removeNodeByPath_files:
  assumes wf: "dm_wf s" and ps: "list_all is_name ps" "ps \<noteq> []" and t: "(ok, t) = removeNodeByPath (path_of ps) None s"
  shows "ok \<longleftrightarrow> files s ps \<noteq> None" "dm_wf t" "files t qs = (if prefix ps qs then None else files s qs)"
proof -
  have wf': "tree_wf (dmRoot s) (trNodes s)" using wf by (simp add: dm_wf_def)
  have find: "findInArbo s (dmRoot s) (strip_slash (path_of ps)) = lookup (dmRoot s) (trNodes s) ps"
    using findInArbo_path [OF ps(1)] strip_slash_path_of [OF ps(1)] ps(2) by simp
  obtain ds b where db: "ps = ds @ [b]" using ps(2) by (metis rev_exhaust)
  have "(ok \<longleftrightarrow> files s ps \<noteq> None) \<and> dm_wf t \<and> files t qs = (if prefix ps qs then None else files s qs)"
  proof (cases "lookup (dmRoot s) (trNodes s) ps")
    case None
    then have "ok = False" "t = s" using t find by (simp_all add: removeNodeByPath_def)
    then show ?thesis using None wf lookup_prefix [OF None, of qs] by (auto simp: files_def shown_def)
  next
    case (Some e)
    then have "ok = True" "t = remove_node e s" using t find by (simp_all add: removeNodeByPath_def)
    then show ?thesis using remove_found(1,2,4) [OF wf' Some [unfolded db]] Some
      by (simp add: files_def shown_def dm_wf_def db)
  qed
  then show "ok \<longleftrightarrow> files s ps \<noteq> None" "dm_wf t" "files t qs = (if prefix ps qs then None else files s qs)" by blast+
qed

section \<open>Moving and renaming\<close>

lemma info_set_meta [simp]: "info (n\<lparr>anMeta := m\<rparr>) = (anLeaf n, m)"
  by (simp add: info_def)

definition without :: "string list \<Rightarrow> (string list \<Rightarrow> 'v option) \<Rightarrow> string list \<Rightarrow> 'v option" where
  "without ps F = (\<lambda>qs. if prefix ps qs then None else F qs)"

definition put :: "string list \<Rightarrow> string \<Rightarrow> bool \<times> (string, mval) obj \<Rightarrow> (string list \<Rightarrow> (bool \<times> (string, mval) obj) option) \<Rightarrow>
    string list \<Rightarrow> (bool \<times> (string, mval) obj) option" where
  "put ds b new F = (if F ds = None \<or> held F (ds @ [b]) new then F else F(ds @ [b] \<mapsto> new))"

text \<open>The node is taken from its old place; then it is added at its new one.\<close>

lemma move_removes:
  assumes wf: "tree_wf (dmRoot s) (trNodes s)" and c: "loose (dmRoot s) (trNodes s) i" and os: "os \<noteq> []"
    and s1: "s1 = (case lookup (dmRoot s) (trNodes s) os of None \<Rightarrow> s | Some n \<Rightarrow> remove_node n s)"
  shows "tree_wf (dmRoot s) (trNodes s1) \<and> dmRoot s1 = dmRoot s \<and> length (trNodes s1) = length (trNodes s) \<and>
    loose (dmRoot s) (trNodes s1) i \<and> node s1 i = node s i \<and> shown (dmRoot s) (trNodes s1) = without os (files s) \<and>
    (\<forall>j. search_root (node s1 j) = search_root (node s j)) \<and>
    (\<forall>cs q. lookup (dmRoot s) (trNodes s1) cs = Some q \<longrightarrow> lookup (dmRoot s) (trNodes s) cs = Some q)"
proof (cases "lookup (dmRoot s) (trNodes s) os")
  case None
  have "without os (files s) = files s"
    using lookup_prefix [OF None] by (auto simp: without_def files_def shown_def fun_eq_iff)
  then show ?thesis using wf c None by (simp add: s1 files_def)
next
  case (Some n)
  let ?r = "dmRoot s"
  obtain od ob where od: "os = od @ [ob]" using os by (metis rev_exhaust)
  have eq: "s1 = remove_node n s" using Some by (simp add: s1)
  note rm = remove_found [OF wf Some [unfolded od]]
  have shown1: "shown ?r (trNodes s1) = without os (files s)"
    using rm(4) by (simp add: eq files_def od without_def fun_eq_iff)
  have "lookup ?r (trNodes s) cs = Some q" if q: "lookup ?r (trNodes s1) cs = Some q" for cs q
  proof -
    have "without os (files s) cs \<noteq> None" using q shown1 [symmetric] by (simp add: shown_def)
    then have "\<not> prefix os cs" "files s cs \<noteq> None" by (auto simp: without_def split: if_splits)
    moreover from this obtain q' where "lookup ?r (trNodes s) cs = Some q'" by (auto simp: files_def shown_def)
    ultimately show ?thesis using rm(6) [of cs q'] q by (simp add: eq od)
  qed
  then show ?thesis using rm(1-3,7) rm(5) [OF c] shown1 by (simp add: eq)
qed

lemma move_adds:
  fixes s1 s2 :: dmodel
  assumes w: "tree_wf r (trNodes s1)" "loose r (trNodes s1) i" and len: "i < length (trNodes s1)" and p: "lookup r (trNodes s1) ds = Some p"
    and i: "anPath (node s1 i) = path_of (ds @ [b])" "anChildren (node s1 i) = []" "distinct (map fst (anMeta (node s1 i)))"
    and b: "is_name b" and plain: "\<not> search_root (node s1 p)"
    and s2: "s2 = set_node i (\<lambda>n. n\<lparr>anMeta := obj_set ''original_path'' MUndef (anMeta n)\<rparr>) s1"
    and t: "t = fst (addChildNode p i s2)"
  shows "tree_wf r (trNodes t)" "dmRoot t = dmRoot s1"
    "shown r (trNodes t) = put ds b (anLeaf (node s1 i), obj_set ''original_path'' MUndef (anMeta (node s1 i))) (shown r (trNodes s1))"
proof -
  let ?n = "(node s1 i)\<lparr>anMeta := obj_set ''original_path'' MUndef (anMeta (node s1 i))\<rparr>"
  have n2: "trNodes s2 = (trNodes s1)[i := ?n]" by (simp add: s2)
  note w2 = loose_changed [OF w, of ?n, simplified, folded n2]
  have at: "node s2 i = ?n" using len by (simp add: n2)
  have "i \<noteq> p" using loose_not_found [OF w] p by auto
  then have p2: "lookup r (trNodes s2) ds = Some p" "\<not> search_root (node s2 p)" using p w2(2) plain by (simp_all add: n2)
  have ci: "i < length (trNodes s2)" "loose r (trNodes s2) i" "anChildren (node s2 i) = []"
    "anPath (node s2 i) = path_of (ds @ [b])" "distinct (map fst (anMeta (node s2 i)))"
    using w w2(3) len i unfolding at by (simp_all add: n2 distinct_update del: path_of_simps)
  obtain t' res where t': "(t', res) = addChildNode p i s2" by (metis surj_pair)
  have tt: "t = t'" by (simp add: t flip: t')
  note ac = addChild_new [OF w2(1) p2 b ci t', folded tt]
  show "tree_wf r (trNodes t)" "dmRoot t = dmRoot s1" using ac(1,2) by (simp_all add: s2)
  have "shown r (trNodes s1) ds \<noteq> None" using p by (simp add: shown_def)
  then show "shown r (trNodes t) = put ds b (anLeaf (node s1 i), obj_set ''original_path'' MUndef (anMeta (node s1 i))) (shown r (trNodes s1))"
    using ac(3) w2(4) by (auto simp: put_def fun_eq_iff at)
qed

lemma move_node_files:
  assumes wf: "dm_wf s" and i: "fresh i s" "anPath (node s i) = path_of (ds @ [b])" "list_all is_name (ds @ [b])"
    and org: "original_path (node s i) = path_of os" "list_all is_name os" "os \<noteq> []"
    and plain: "\<And>p. lookup (dmRoot s) (trNodes s) ds = Some p \<Longrightarrow> \<not> search_root (node s p)"
  shows "dm_wf (move_node i s)"
    "files (move_node i s) =
       put ds b (anLeaf (node s i), obj_set ''original_path'' MUndef (anMeta (node s i))) (without os (files s))"
proof -
  let ?r = "dmRoot s" and ?path = "ds @ [b]"
  let ?new = "(anLeaf (node s i), obj_set ''original_path'' MUndef (anMeta (node s i)))"
  have c: "i < length (trNodes s)" "loose ?r (trNodes s) i" "anChildren (node s i) = []" "distinct (map fst (anMeta (node s i)))"
    using i(1) by (simp_all add: fresh_def)
  define s1 where "s1 = (case lookup ?r (trNodes s) os of None \<Rightarrow> s | Some n \<Rightarrow> remove_node n s)"
  note s1 = move_removes [OF wf [unfolded dm_wf_def] c(2) org(3) s1_def]
  have find: "findInArbo s ?r (strip_slash (path_of os)) = lookup ?r (trNodes s) os"
    using findInArbo_path [OF org(2)] strip_slash_path_of [OF org(2)] org(3) by simp
  have parent: "parent_folder (path_of ?path) s1 = lookup ?r (trNodes s1) ds" using parent_folder_path [OF i(3), of s1] s1 by simp
  define s2 where "s2 = set_node i (\<lambda>n. n\<lparr>anMeta := obj_set ''original_path'' MUndef (anMeta n)\<rparr>) s1"
  have move: "move_node i s = (case lookup ?r (trNodes s1) ds of None \<Rightarrow> s1 | Some p \<Rightarrow> fst (addChildNode p i s2))"
    unfolding parent [symmetric] unfolding move_node_def Let_def i(2) org(1) find s1_def s2_def by (rule refl)
  have "dm_wf (move_node i s) \<and> files (move_node i s) = put ds b ?new (without os (files s))"
  proof (cases "lookup ?r (trNodes s1) ds")
    case None
    then have "shown ?r (trNodes s1) ds = None" by (simp add: shown_def)
    then show ?thesis using None s1 by (simp add: move dm_wf_def files_def put_def)
  next
    case (Some p)
    have "\<not> search_root (node s1 p)" using s1 Some plain by blast
    then have ma: "tree_wf ?r (trNodes (move_node i s))" "dmRoot (move_node i s) = dmRoot s1"
      "shown ?r (trNodes (move_node i s)) = put ds b (anLeaf (node s1 i), obj_set ''original_path'' MUndef (anMeta (node s1 i))) (shown ?r (trNodes s1))"
      using move_adds [OF _ _ _ Some _ _ _ _ _ s2_def refl, where b = b] s1 c i(2,3) Some by (simp_all add: move del: path_of_simps)
    then show ?thesis using s1 by (simp add: dm_wf_def files_def)
  qed
  then show "dm_wf (move_node i s)" "files (move_node i s) = put ds b ?new (without os (files s))" by blast+
qed

text \<open>Removing all children of a node.\<close>

lemma nth_update: "xs[i := y] ! j = (if j = i \<and> i < length xs then y else xs ! j)"
  by (cases "i < length xs") (auto simp: nth_list_update list_update_beyond)

lemma obj_del_all: "foldl (\<lambda>m k. obj_del k m) m ks = filter (\<lambda>(k, v). k \<notin> set ks) m"
proof (induction ks arbitrary: m)
  case (Cons x ks)
  then show ?case by (auto simp: AList.delete_eq case_prod_unfold intro: filter_cong)
qed simp

lemma remove_children:
  fixes s :: dmodel
  assumes "\<forall>(k, d) \<in> set es. anPath (node s d) = k \<and> d \<noteq> e" "e < length (trNodes s)"
    and t: "t = foldl (\<lambda>t (k, d). removeChildNode e d t) s es"
  shows "length (trNodes t) = length (trNodes s)" "dmRoot t = dmRoot s"
    "anPath (node t j) = anPath (node s j)" "info (node t j) = info (node s j)"
    "j \<noteq> e \<Longrightarrow> anChildren (node t j) = anChildren (node s j)"
    "anChildren (node t e) = foldl (\<lambda>m k. obj_del k m) (anChildren (node s e)) (map fst es)"
    "j \<notin> snd ` set es \<Longrightarrow> anParent (node t j) = anParent (node s j)"
proof -
  have "length (trNodes t) = length (trNodes s) \<and> dmRoot t = dmRoot s \<and>
    anPath (node t j) = anPath (node s j) \<and> info (node t j) = info (node s j) \<and>
    (j \<noteq> e \<longrightarrow> anChildren (node t j) = anChildren (node s j)) \<and>
    anChildren (node t e) = foldl (\<lambda>m k. obj_del k m) (anChildren (node s e)) (map fst es) \<and>
    (j \<notin> snd ` set es \<longrightarrow> anParent (node t j) = anParent (node s j))"
    using assms
  proof (induction es arbitrary: s)
    case (Cons kd es)
    obtain k d where kd: "kd = (k, d)" by (cases kd)
    let ?s = "removeChildNode e d s"
    have d: "d \<noteq> e" "anPath (node s d) = k" using Cons.prems(1) kd by simp_all
    have len: "length (trNodes ?s) = length (trNodes s)" "dmRoot ?s = dmRoot s"
      by (simp_all add: removeChildNode_def Let_def)
    have nodes: "trNodes ?s = ((trNodes s)[d := (node s d)\<lparr>anParent := None\<rparr>])[e := (node s e)\<lparr>anChildren := obj_del k (anChildren (node s e))\<rparr>]"
      using d by (simp add: removeChildNode_def Let_def)
    have fields: "anPath (node ?s i) = anPath (node s i)" "info (node ?s i) = info (node s i)"
      "i \<noteq> e \<Longrightarrow> anChildren (node ?s i) = anChildren (node s i)" "i \<noteq> d \<Longrightarrow> anParent (node ?s i) = anParent (node s i)" for i
      unfolding nodes using Cons.prems(2) d(1) by (simp_all only: nth_update length_list_update) (simp_all add: info_def)
    have ce: "anChildren (node ?s e) = obj_del k (anChildren (node s e))"
      using Cons.prems(2) unfolding nodes by simp
    have "\<forall>(k, d) \<in> set es. anPath (node ?s d) = k \<and> d \<noteq> e" using Cons.prems(1) fields(1) by auto
    moreover have "e < length (trNodes ?s)" using Cons.prems(2) len by simp
    moreover have "t = foldl (\<lambda>t (k, d). removeChildNode e d t) ?s es" using Cons.prems(3) kd by simp
    ultimately show ?case using Cons.IH [of ?s] len fields ce kd by auto
  qed simp
  then show "length (trNodes t) = length (trNodes s)" "dmRoot t = dmRoot s"
    "anPath (node t j) = anPath (node s j)" "info (node t j) = info (node s j)"
    "j \<noteq> e \<Longrightarrow> anChildren (node t j) = anChildren (node s j)"
    "anChildren (node t e) = foldl (\<lambda>m k. obj_del k m) (anChildren (node s e)) (map fst es)"
    "j \<notin> snd ` set es \<Longrightarrow> anParent (node t j) = anParent (node s j)" by blast+
qed

text \<open>A renamed node: it changes its key in the map of its folder and has no children left.\<close>

definition child_renamed :: "anode list \<Rightarrow> nat \<Rightarrow> nat \<Rightarrow> string \<Rightarrow> string \<Rightarrow> anode list \<Rightarrow> bool" where
  "child_renamed ns p e old new ns' \<longleftrightarrow> length ns' = length ns \<and> anChildren (ns' ! e) = [] \<and>
     distinct (map fst (anChildren (ns' ! p))) \<and>
     map_of (anChildren (ns' ! p)) = (map_of (anChildren (ns ! p)))(new \<mapsto> e, old := None) \<and>
     (\<forall>j < length ns. anPath (ns' ! j) = (if j = e then new else anPath (ns ! j)) \<and>
        (anParent (ns ! j) \<noteq> Some e \<longrightarrow> anParent (ns' ! j) = anParent (ns ! j)) \<and>
        (j \<noteq> e \<longrightarrow> info (ns' ! j) = info (ns ! j) \<and> (j \<noteq> p \<longrightarrow> anChildren (ns' ! j) = anChildren (ns ! j))))"

lemma renamed_wf:
  assumes wf: "tree_wf r ns" and e: "lookup r ns (ds @ [a]) = Some e" and ab: "a \<noteq> b" "is_name b"
    and p: "lookup r ns ds = Some p" and ren: "child_renamed ns p e (path_of (ds @ [a])) (path_of (ds @ [b])) ns'"
  shows "tree_wf r ns'"
proof (rule tree_wfI)
  note ren = ren [unfolded child_renamed_def]
  have base_p: "p < length ns" "base r ns p = path_of ds" using lookup_path [OF wf p] by auto
  have e': "e < length ns" "e \<noteq> r" "anPath (ns ! e) = path_of (ds @ [a])" using lookup_path [OF wf e] by auto
  have "e \<noteq> p" using lookup_inj [OF wf e, of ds] p by auto
  have ep: "anParent (ns ! e) = Some p" "map_of (anChildren (ns ! p)) (path_of (ds @ [a])) = Some e"
    using lookup_parent [OF wf e] p by auto
  have diff: "path_of (ds @ [b]) \<noteq> path_of (ds @ [a])" using ab(1) by simp
  show "r < length ns'" using tree_wf_root [OF wf] ren by simp
  show "distinct (map fst (anChildren (ns' ! i)))" if "i < length ns'" for i
    using that ren tree_wf_distinct [OF wf] by (cases "i = p"; cases "i = e") auto
  fix i k c assume i: "i < length ns'" and c: "map_of (anChildren (ns' ! i)) k = Some c"
  then have "i \<noteq> e" using ren by auto
  then have base_i: "base r ns' i = base r ns i" using i ren by (simp add: base_def)
  show "child_ok r ns' i k c"
  proof (cases "i = p \<and> k = path_of (ds @ [b])")
    case True
    then have "c = e" using c ren diff by (simp del: path_of_simps)
    moreover have "anParent (ns' ! e) = Some p" using ren e'(1) ep(1) \<open>e \<noteq> p\<close> by simp
    ultimately show ?thesis using True base_i base_p ren e' ab(2) by (auto simp: child_ok_def)
  next
    case False
    then have old: "map_of (anChildren (ns ! i)) k = Some c \<and> \<not> (i = p \<and> k = path_of (ds @ [a]))"
      using c ren i \<open>i \<noteq> e\<close> by (cases "i = p") (auto simp del: path_of_simps split: if_splits)
    then have ok: "c < length ns" "c \<noteq> r" "anParent (ns ! c) = Some i" "anPath (ns ! c) = k" "\<exists>b. is_name b \<and> k = base r ns i @ ''/'' @ b"
      using tree_wf_child [OF wf, of i k c] i ren by auto
    then have "c \<noteq> e" using old ep e'(3) by auto
    then show ?thesis using ok ren \<open>i \<noteq> e\<close> base_i by (simp add: child_ok_def)
  qed
qed

lemma renamed_lookup:
  assumes wf: "tree_wf r ns" and e: "lookup r ns (ds @ [a]) = Some e"
    and p: "lookup r ns ds = Some p" and ren: "child_renamed ns p e (path_of (ds @ [a])) (path_of (ds @ [b])) ns'"
  shows "\<not> prefix (ds @ [b]) qs \<Longrightarrow> \<not> prefix (ds @ [a]) qs \<Longrightarrow> lookup r ns' qs = lookup r ns qs"
proof (induction qs rule: rev_induct)
  case (snoc c qs)
  note ren = ren [unfolded child_renamed_def]
  have IH: "lookup r ns' qs = lookup r ns qs" using snoc by (simp add: prefix_snoc)
  have "map_of (anChildren (ns' ! i)) (path_of (qs @ [c])) = map_of (anChildren (ns ! i)) (path_of (qs @ [c]))"
    if i: "lookup r ns qs = Some i" for i
  proof (cases "i = p")
    case True
    then have "qs = ds" using lookup_inj [OF wf i, of ds] p by simp
    moreover from this have "c \<noteq> a" "c \<noteq> b" using snoc.prems by auto
    ultimately show ?thesis using ren True by simp
  next
    case False
    have "i \<noteq> e"
    proof
      assume "i = e"
      then have "qs = ds @ [a]" using lookup_inj [OF wf i, of "ds @ [a]"] e by simp
      then show False using snoc.prems(2) by simp
    qed
    then show ?thesis using ren lookup_path [OF wf i] False by simp
  qed
  then show ?case using IH by (cases "lookup r ns qs") (simp_all add: lookup_snoc)
qed simp

lemma renamed_shown:
  assumes wf: "tree_wf r ns" and e: "lookup r ns (ds @ [a]) = Some e" and ab: "a \<noteq> b"
    and p: "lookup r ns ds = Some p" and ren: "child_renamed ns p e (path_of (ds @ [a])) (path_of (ds @ [b])) ns'"
  shows "shown r ns' qs = (if prefix (ds @ [b]) qs then (if qs = ds @ [b] then Some (info (ns' ! e)) else None)
       else if prefix (ds @ [a]) qs then None else shown r ns qs)"
proof -
  note others = renamed_lookup [OF wf e p ren] and ren = ren [unfolded child_renamed_def]
  have kept: "lookup r ns' ds = Some p" using others [of ds] p by simp
  have below: "lookup r ns' (ds @ c # rest) = (if c = b \<and> rest = [] then Some e else None)" if "c \<in> {a, b}" for c rest
    using that lookup_below [OF p _ kept, of c rest] ren ab by (auto simp: find_node_childless)
  show ?thesis
  proof (cases "prefix (ds @ [b]) qs \<or> prefix (ds @ [a]) qs")
    case True
    then obtain c rest where c: "qs = ds @ c # rest" "c \<in> {a, b}" by (auto simp: prefix_def)
    then have "prefix (ds @ [b]) qs \<longleftrightarrow> c = b" "prefix (ds @ [a]) qs \<longleftrightarrow> c = a" by (auto simp: prefix_def)
    then show ?thesis using below [OF c(2), of rest] c ab by (auto simp: shown_def info_def)
  next
    case False
    moreover have "info (ns' ! i) = info (ns ! i)" if i: "lookup r ns qs = Some i" for i
    proof -
      have "i \<noteq> e" using lookup_inj [OF wf i, of "ds @ [a]"] e False by auto
      then show ?thesis using ren lookup_path [OF wf i] by simp
    qed
    ultimately show ?thesis using others [of qs] by (cases "lookup r ns qs") (simp_all add: shown_def info_def)
  qed
qed

lemma map_of_renamed:
  "a \<noteq> b \<Longrightarrow> map_of (obj_del a (obj_set b v m)) = (map_of m)(b \<mapsto> v, a := None)"
  by (auto simp: update_conv' delete_conv')

text \<open>The two steps of \<open>replaceBy\<close> on a folder that changes its path: the key is changed and the fields
  copied, then its children are removed.\<close>

lemma rename_key_nodes:
  fixes s :: dmodel
  assumes "anParent (node s e) = Some p" "anPath (node s e) = old" "e \<noteq> p" "e < length (trNodes s)" "p < length (trNodes s)"
    and s1: "s1 = set_node e (copy_fields True (node s c)) (rename_key e new s)" and c: "c \<noteq> e"
  shows "dmRoot s1 = dmRoot s" "length (trNodes s1) = length (trNodes s)"
    "node s1 j = (if j = e then copy_fields True (node s c) (node s e)
       else if j = p then (node s p)\<lparr>anChildren := obj_del old (obj_set new e (anChildren (node s p)))\<rparr> else node s j)"
  using assms by (simp_all add: s1 rename_key_def nth_update)

lemma drop_kids:
  fixes s :: dmodel
  assumes e: "e < length (trNodes s)" and kids: "\<forall>(k, d) \<in> set (anChildren (node s e)). anPath (node s d) = k \<and> d \<noteq> e"
    and t: "t = set_node e (\<lambda>n. n\<lparr>anLoaded := False\<rparr>) (foldl (\<lambda>t (k, d). removeChildNode e d t) s (anChildren (node s e)))"
  shows "length (trNodes t) = length (trNodes s)" "dmRoot t = dmRoot s" "anChildren (node t e) = []"
    "anPath (node t j) = anPath (node s j)" "info (node t j) = info (node s j)"
    "j \<noteq> e \<Longrightarrow> anChildren (node t j) = anChildren (node s j)"
    "j \<notin> snd ` set (anChildren (node s e)) \<Longrightarrow> anParent (node t j) = anParent (node s j)"
proof -
  define u where "u = foldl (\<lambda>t (k, d). removeChildNode e d t) s (anChildren (node s e))"
  note rc = remove_children [OF kids e u_def]
  have "anChildren (node u e) = []" using rc(6) by (force simp: obj_del_all filter_empty_conv)
  moreover have "node t j = (if j = e then (node u e)\<lparr>anLoaded := False\<rparr> else node u j)" for j
    using rc(1) e by (simp add: t u_def [symmetric] nth_update)
  moreover have "length (trNodes t) = length (trNodes u)" "dmRoot t = dmRoot u" by (simp_all add: t u_def)
  ultimately show "length (trNodes t) = length (trNodes s)" "dmRoot t = dmRoot s" "anChildren (node t e) = []"
    "anPath (node t j) = anPath (node s j)" "info (node t j) = info (node s j)"
    "j \<noteq> e \<Longrightarrow> anChildren (node t j) = anChildren (node s j)"
    "j \<notin> snd ` set (anChildren (node s e)) \<Longrightarrow> anParent (node t j) = anParent (node s j)"
    using rc(1-5,7) by (auto simp: info_def)
qed

lemma kids_of:
  assumes wf: "tree_wf r ns" and e: "e < length ns"
  shows "(k, d) \<in> set (anChildren (ns ! e)) \<Longrightarrow> anPath (ns ! d) = k \<and> anParent (ns ! d) = Some e"
  using tree_wf_child [OF wf e] tree_wf_distinct [OF wf e] by fastforce

lemma replaceBy_steps:
  fixes s :: dmodel
  assumes wf: "tree_wf r (trNodes s)" and e: "lookup r (trNodes s) (ds @ [a]) = Some e" and ab: "a \<noteq> b"
    and c: "loose r (trNodes s) c" "anChildren (node s c) = []" "anPath (node s c) = path_of (ds @ [b])"
    and p: "lookup r (trNodes s) ds = Some p"
    and leaf: "anLeaf (node s c) \<Longrightarrow> anChildren (node s e) = []"
  obtains s2 where "replaceBy True e c s = notify_parent e (notify e ''node_replaced'' s2)" "dmRoot s2 = dmRoot s"
    "child_renamed (trNodes s) p e (path_of (ds @ [a])) (path_of (ds @ [b])) (trNodes s2)"
    "info (node s2 e) = info (copy_fields True (node s c) (node s e))"
proof -
  let ?ns = "trNodes s" and ?new = "path_of (ds @ [b])" and ?old = "path_of (ds @ [a])" and ?kids = "anChildren (node s e)"
  have e': "e < length ?ns" "anPath (?ns ! e) = ?old" and p': "p < length ?ns" "anParent (?ns ! e) = Some p"
    using lookup_path [OF wf e] lookup_path [OF wf p] lookup_parent [OF wf e] p by auto
  have ne: "e \<noteq> p" "c \<noteq> e" "c \<noteq> p" using lookup_inj [OF wf e, of ds] p loose_not_found [OF wf c(1)] e by auto
  have diff: "?old \<noteq> ?new" using ab by simp
  define s1 where "s1 = set_node e (copy_fields True (node s c)) (rename_key e ?new s)"
  note s1 = rename_key_nodes [OF p'(2) e'(2) ne(1) e'(1) p'(1) s1_def ne(2)]
  have at_e: "anChildren (node s1 e) = ?kids" using s1(3) by simp
  define s2 where "s2 = (if \<not> anLeaf (node s c) \<and> ?kids \<noteq> []
      then set_node e (\<lambda>n. n\<lparr>anLoaded := False\<rparr>) (foldl (\<lambda>t (k, d). removeChildNode e d t) s1 (anChildren (node s1 e)))
      else s1)"
  have "anChildren (node s1 c) = []" using s1(3) [of c] ne(2,3) c(2) by simp
  then have t: "replaceBy True e c s = notify_parent e (notify e ''node_replaced'' s2)"
    using diff e'(2) c(3) at_e unfolding replaceBy_def s2_def s1_def by (simp add: Let_def del: path_of_simps)
  have kids: "\<forall>(k, d) \<in> set (anChildren (node s1 e)). anPath (node s1 d) = k \<and> d \<noteq> e"
    unfolding at_e using kids_of [OF wf e'(1)] p'(2) ne(1) s1(3) by fastforce
  have s2: "length (trNodes s2) = length ?ns \<and> dmRoot s2 = dmRoot s \<and> anChildren (node s2 e) = [] \<and>
    (\<forall>j. anPath (node s2 j) = anPath (node s1 j) \<and> info (node s2 j) = info (node s1 j) \<and>
      (j \<noteq> e \<longrightarrow> anChildren (node s2 j) = anChildren (node s1 j)) \<and>
      (j \<notin> snd ` set ?kids \<longrightarrow> anParent (node s2 j) = anParent (node s1 j)))"
  proof (cases "\<not> anLeaf (node s c) \<and> ?kids \<noteq> []")
    case False
    then have "?kids = []" using leaf by blast
    then show ?thesis using s1(1,2) at_e by (simp add: s2_def)
  next
    case True
    have "e < length (trNodes s1)" using e'(1) s1(2) by simp
    note dk = drop_kids [OF this kids, of s2]
    show ?thesis using dk True s1(1,2) at_e by (simp add: s2_def)
  qed
  have "j \<in> snd ` set ?kids \<Longrightarrow> anParent (?ns ! j) = Some e" for j using kids_of [OF wf e'(1)] by fastforce
  then have other: "j \<notin> snd ` set ?kids" if "anParent (?ns ! j) \<noteq> Some e" for j using that by blast
  have same: "anParent (node s1 j) = anParent (?ns ! j)" for j using s1(3) [of j] by simp
  have parents: "anParent (node s2 j) = anParent (?ns ! j)" if "anParent (?ns ! j) \<noteq> Some e" for j
    using s2 same [of j] other [OF that] by metis
  have children_p: "anChildren (node s2 p) = obj_del ?old (obj_set ?new e (anChildren (?ns ! p)))"
    using s2 ne(1) s1(3) [of p] by simp
  have "map_of (anChildren (node s2 p)) = (map_of (anChildren (?ns ! p)))(?new \<mapsto> e, ?old := None)"
    "distinct (map fst (anChildren (node s2 p)))"
    unfolding children_p using map_of_renamed [OF diff, of e] tree_wf_distinct [OF wf p'(1)]
    by (simp_all add: distinct_update distinct_delete del: path_of_simps)
  then have "child_renamed ?ns p e ?old ?new (trNodes s2)"
    using s2 parents s1(3) c(3) by (simp add: child_renamed_def info_def del: path_of_simps)
  then show thesis using that [OF t] s2 s1(3) [of e] by simp
qed

lemma replaceBy_renames:
  fixes s :: dmodel
  assumes wf: "tree_wf r (trNodes s)" and e: "lookup r (trNodes s) (ds @ [a]) = Some e" and ab: "a \<noteq> b" "is_name b"
    and c: "loose r (trNodes s) c" "anChildren (node s c) = []" "anPath (node s c) = path_of (ds @ [b])"
      "distinct (map fst (anMeta (node s c)))"
    and leaf: "anLeaf (node s c) \<Longrightarrow> anChildren (node s e) = []"
    and t: "t = replaceBy True e c s"
  shows "tree_wf r (trNodes t)" "dmRoot t = dmRoot s"
    "shown r (trNodes t) qs = (if prefix (ds @ [b]) qs then (if qs = ds @ [b] then Some (info (node s c)) else None)
       else if prefix (ds @ [a]) qs then None else shown r (trNodes s) qs)"
proof -
  obtain p where p: "lookup r (trNodes s) ds = Some p" using lookup_parent [OF wf e] by blast
  obtain s2 where s2: "t = notify_parent e (notify e ''node_replaced'' s2)" "dmRoot s2 = dmRoot s"
    "child_renamed (trNodes s) p e (path_of (ds @ [a])) (path_of (ds @ [b])) (trNodes s2)"
    "info (node s2 e) = info (copy_fields True (node s c) (node s e))"
    unfolding t using replaceBy_steps [OF wf e ab(1) c(1-3) p leaf] by blast
  have "info (node s2 e) = info (node s c)" using s2(4) merge_meta_override [OF c(4)] by (simp add: info_def)
  then show "tree_wf r (trNodes t)" "dmRoot t = dmRoot s"
    "shown r (trNodes t) qs = (if prefix (ds @ [b]) qs then (if qs = ds @ [b] then Some (info (node s c)) else None)
       else if prefix (ds @ [a]) qs then None else shown r (trNodes s) qs)"
    using renamed_wf [OF wf e ab p s2(3)] renamed_shown [OF wf e ab(1) p s2(3)] s2(2) by (simp_all add: s2(1))
qed

section \<open>Updates\<close>

definition renamed_files where
  "renamed_files ds a b new F = (\<lambda>qs. if prefix (ds @ [b]) qs then (if qs = ds @ [b] then Some new else None)
     else if prefix (ds @ [a]) qs then None else F qs)"

definition updated_files where
  "updated_files od a ds b new F =
     (if od \<noteq> ds then put ds b (fst new, obj_set ''original_path'' MUndef (snd new)) (without (od @ [a]) F)
      else if F (ds @ [a]) = None \<or> held F (ds @ [a]) new then F
      else if a = b then F(ds @ [b] \<mapsto> new) else renamed_files ds a b new F)"

lemma no_children:
  assumes wf: "tree_wf r ns" and e: "lookup r ns ps = Some e" and none: "\<And>c. lookup r ns (ps @ [c]) = None"
    and r: "ps \<noteq> []"
  shows "anChildren (ns ! e) = []"
proof (rule ccontr)
  assume "anChildren (ns ! e) \<noteq> []"
  then obtain k c where kc: "(k, c) \<in> set (anChildren (ns ! e))" by (cases "anChildren (ns ! e)") auto
  have e': "e < length ns" "base r ns e = path_of ps" using lookup_path [OF wf e] by auto
  have m: "map_of (anChildren (ns ! e)) k = Some c" using kc tree_wf_distinct [OF wf e'(1)] by simp
  then obtain b where "k = path_of ps @ ''/'' @ b" using tree_wf_child [OF wf e'(1) m] e'(2) by auto
  then show False using none [of b] e m by (simp add: lookup_snoc)
qed

lemma update_search_none: "dmSearch s = None \<Longrightarrow> update_search i s = s"
  by (simp add: update_search_def)

lemma search_selected [simp]:
  "dmSearch (setSelectedNodes ns s) = dmSearch s" "dmSearch (select_in sel p i s) = dmSearch s"
  by (simp_all add: setSelectedNodes_def select_in_def publish_def)

lemma search_frame [simp]:
  "dmSearch (publish ev s) = dmSearch s" "dmSearch (setContextNode i force s) = dmSearch s" "dmSearch (set_node i f s) = dmSearch s"
  "dmSearch (notify i ev s) = dmSearch s" "dmSearch (notify_parent i s) = dmSearch s"
  by (simp_all add: publish_def setContextNode_def notify_def notify_parent_def set_node_def Let_def split: option.split)

lemma foldl_frame: "(\<And>t x. g (f t x) = g t) \<Longrightarrow> g (foldl f s xs) = g s"
  by (induction xs arbitrary: s) simp_all

lemma search_removed [simp]: "dmSearch (removeChildNode p c s) = dmSearch s"
  by (simp add: removeChildNode_def Let_def)

lemma search_replaced_by:
  fixes s :: dmodel
  shows "dmSearch (replace_by fuel override e c s) = dmSearch s"
proof (induction fuel arbitrary: override e c s)
  case (Suc fuel)
  have add: "dmSearch (fst (add_child (replace_by fuel True) p d t)) = dmSearch t" for p d and t :: dmodel
    using Suc.IH by (simp add: add_child_def Let_def split: option.split)
  have "dmSearch (rename_key e path s) = dmSearch s" for path by (simp add: rename_key_def split: option.split)
  moreover have "dmSearch (foldl (\<lambda>t (k, d). removeChildNode e d t) t xs) = dmSearch t" for xs :: "(string \<times> nat) list" and t :: dmodel
    by (rule foldl_frame) (simp add: case_prod_unfold)
  moreover have "dmSearch (foldl (\<lambda>t (k, d). fst (add_child (replace_by fuel True) e d t)) t xs) = dmSearch t" for xs :: "(string \<times> nat) list" and t :: dmodel
    by (rule foldl_frame) (simp add: case_prod_unfold add)
  ultimately show ?case by (simp add: Let_def)
qed simp

lemma search_replaceBy [simp]:
  fixes s :: dmodel
  shows "dmSearch (replaceBy override e c s) = dmSearch s"
  unfolding replaceBy_def by (rule search_replaced_by)

lemma search_kept [simp]:
  fixes s :: dmodel
  shows "dmSearch (fst (addChildNode p c s)) = dmSearch s" "dmSearch (remove_node i s) = dmSearch s"
  by (simp_all add: addChildNode_def add_child_def remove_node_def Let_def split: option.split)

lemma search_changed [simp]:
  "dmSearch (addNode sel i s) = dmSearch s" "dmSearch (move_node i s) = dmSearch s"
  "dmSearch (snd (removeNodeByPath path t s)) = dmSearch s"
  by (auto simp: addNode_def move_node_def removeNodeByPath_def Let_def case_prod_unfold split: option.split)

text \<open>An update of a node that is shown in the same folder and not newer.\<close>

definition replaced :: "nat \<Rightarrow> nat \<Rightarrow> dmodel \<Rightarrow> dmodel" where
  "replaced n i s = replaceBy True n i (set_node i (\<lambda>m. m\<lparr>anLoaded := anLoaded (node s n)\<rparr>) s)"

lemma replaced_files:
  assumes wf: "tree_wf (dmRoot s) (trNodes s)" and i: "fresh i s" "anPath (node s i) = path_of (ds @ [b])" "is_name b"
    and n: "lookup (dmRoot s) (trNodes s) (ds @ [a]) = Some n"
    and leaf: "a \<noteq> b \<Longrightarrow> anLeaf (node s i) \<Longrightarrow> \<forall>c. files s (ds @ [a] @ [c]) = None"
  shows "dm_wf (replaced n i s)"
    "files (replaced n i s) = (if a = b then (files s)(ds @ [b] \<mapsto> info (node s i)) else renamed_files ds a b (info (node s i)) (files s))"
proof -
  let ?r = "dmRoot s" and ?n = "(node s i)\<lparr>anLoaded := anLoaded (node s n)\<rparr>"
  let ?s = "set_node i (\<lambda>m. m\<lparr>anLoaded := anLoaded (node s n)\<rparr>) s" and ?t = "replaced n i s"
  have c: "i < length (trNodes s)" "loose ?r (trNodes s) i" "anChildren (node s i) = []" "distinct (map fst (anMeta (node s i)))"
    using i(1) by (simp_all add: fresh_def)
  have n2: "trNodes ?s = (trNodes s)[i := ?n]" by simp
  note w2 = loose_changed [OF wf c(2), of ?n, simplified, folded n2]
  have sh2: "shown ?r (trNodes ?s) = files s" using w2(4) by (simp add: files_def)
  have at: "node ?s i = ?n" using c(1) by simp
  have e: "lookup ?r (trNodes ?s) (ds @ [a]) = Some n" using n w2(2) by simp
  have ci: "loose ?r (trNodes ?s) i" "anChildren (node ?s i) = []" "anPath (node ?s i) = path_of (ds @ [b])"
    "distinct (map fst (anMeta (node ?s i)))" "info (node ?s i) = info (node s i)"
    unfolding at using w2(3) c i(2) by (simp_all add: info_def del: path_of_simps)
  have "dm_wf ?t \<and> files ?t = (if a = b then (files s)(ds @ [b] \<mapsto> info (node s i)) else renamed_files ds a b (info (node s i)) (files s))"
  proof (cases "a = b")
    case True
    have "anPath (node ?s i) = anPath (node ?s n)" using lookup_path [OF w2(1) e] ci(3) True by simp
    note rf = replace_found [OF w2(1) e ci(1,2) this ci(4) replaced_def]
    have "dmRoot ?t = ?r" using rf(8) by simp
    moreover have "files ?t = (files s)(ds @ [b] \<mapsto> info (node s i))"
      using rf(4) sh2 ci(5) True \<open>dmRoot ?t = ?r\<close> by (simp add: files_def fun_eq_iff)
    ultimately show ?thesis using rf(1) True by (simp add: dm_wf_def)
  next
    case False
    have "anChildren (node ?s n) = []" if l: "anLeaf (node ?s i)"
    proof (rule no_children [OF w2(1) e])
      have "\<forall>c. files s (ds @ [a] @ [c]) = None" using leaf [OF False] l at by simp
      then show "lookup ?r (trNodes ?s) ((ds @ [a]) @ [c]) = None" for c using w2(2) by (simp add: files_def shown_def)
    qed simp
    note rn = replaceBy_renames [OF w2(1) e False i(3) ci(1-4) this replaced_def]
    have "dmRoot ?t = ?r" using rn(2) by simp
    moreover have "files ?t = renamed_files ds a b (info (node s i)) (files s)"
      using rn(3) sh2 ci(5) \<open>dmRoot ?t = ?r\<close> by (simp add: files_def renamed_files_def fun_eq_iff)
    ultimately show ?thesis using rn(1) False by (simp add: dm_wf_def)
  qed
  then show "dm_wf ?t" "files ?t = (if a = b then (files s)(ds @ [b] \<mapsto> info (node s i)) else renamed_files ds a b (info (node s i)) (files s))"
    by blast+
qed

lemma updateNode_cases:
  assumes i: "anPath (node s i) = path_of (ds @ [b])" "list_all is_name (ds @ [b])"
    and org: "original_path (node s i) = path_of (od @ [a])" "list_all is_name (od @ [a])"
    and search: "dmSearch s = None"
  shows "updateNode sel i s = (if od \<noteq> ds then move_node i s else
      (case lookup (dmRoot s) (trNodes s) (od @ [a]) of
         None \<Rightarrow> s
       | Some n \<Rightarrow> if isMoreRecentThan (node s n) (node s i) then s
                  else select_in sel (anParent (node (replaced n i s) n)) n (replaced n i s)))"
proof -
  have names: "is_name a" "is_name b" "list_all is_name od" "list_all is_name ds" using i(2) org(2) by simp_all
  have moved: "(path_of (od @ [a]) \<noteq> [] \<and> path_of (od @ [a]) \<noteq> path_of (ds @ [b]) \<and>
      getDirname (path_of (od @ [a])) \<noteq> getDirname (path_of (ds @ [b]))) \<longleftrightarrow> od \<noteq> ds"
    using dirname_path_of [OF names(1), of od] dirname_path_of [OF names(2), of ds] path_of_inj [OF names(3,4)]
      path_of_inj [OF org(2) i(2)] by (auto simp del: path_of_simps)
  have not_root: "path_of (ds @ [b]) \<noteq> ''/''" using names(2) by (cases ds) (auto simp: is_name_def)
  have find: "findInArbo s (dmRoot s) (strip_slash (path_of (od @ [a]))) = lookup (dmRoot s) (trNodes s) (od @ [a])"
    using findInArbo_path [OF org(2)] strip_slash_path_of [OF org(2)] by simp
  have none: "update_search i t = t" if "dmSearch t = dmSearch s" for t using that search by (simp add: update_search_def)
  show ?thesis
    using not_root unfolding updateNode_def Let_def i(1) org(1) find moved replaced_def
    by (auto simp: none simp del: path_of_simps split: option.split)
qed

lemma files_select: "files (select_in sel p i s) = files s" "dm_wf (select_in sel p i s) = dm_wf s"
  by (simp_all add: files_def dm_wf_def)

lemma updateNode_files:
  assumes wf: "dm_wf s" and i: "fresh i s" "anPath (node s i) = path_of (ds @ [b])" "list_all is_name (ds @ [b])"
    and org: "original_path (node s i) = path_of (od @ [a])" "list_all is_name (od @ [a])"
    and plain: "\<And>p. lookup (dmRoot s) (trNodes s) ds = Some p \<Longrightarrow> \<not> search_root (node s p)"
    and leaf: "od = ds \<Longrightarrow> a \<noteq> b \<Longrightarrow> anLeaf (node s i) \<Longrightarrow> \<forall>c. files s (ds @ [a] @ [c]) = None"
    and search: "dmSearch s = None"
  shows "dm_wf (updateNode sel i s)" "files (updateNode sel i s) = updated_files od a ds b (info (node s i)) (files s)"
proof -
  let ?new = "info (node s i)"
  note upd = updateNode_cases [OF i(2,3) org search, of sel]
  have "dm_wf (updateNode sel i s) \<and> files (updateNode sel i s) = updated_files od a ds b ?new (files s)"
  proof (cases "od = ds")
    case False
    note move = move_node_files [OF wf i org _ plain]
    then show ?thesis using False by (simp add: upd updated_files_def info_def)
  next
    case True
    show ?thesis
    proof (cases "lookup (dmRoot s) (trNodes s) (ds @ [a])")
      case None
      then have "files s (ds @ [a]) = None" by (simp add: files_def shown_def)
      then show ?thesis using None True wf by (simp add: upd updated_files_def)
    next
      case (Some n)
      have held: "held (files s) (ds @ [a]) ?new \<longleftrightarrow> isMoreRecentThan (node s n) (node s i)" "files s (ds @ [a]) \<noteq> None"
        using Some by (simp_all add: held_def files_def shown_def info_def isMoreRecentThan_def)
      have "is_name b" using i(3) by simp
      note rf = replaced_files [OF wf [unfolded dm_wf_def] i(1,2) this Some leaf [OF True]]
      show ?thesis using Some held True wf rf
        by (cases "isMoreRecentThan (node s n) (node s i)") (auto simp: upd updated_files_def files_select)
    qed
  qed
  then show "dm_wf (updateNode sel i s)" "files (updateNode sel i s) = updated_files od a ds b ?new (files s)" by blast+
qed

end
