(* ===== verification/DataModelEvents.thy ===== *)
theory DataModelEvents
  imports DataModelFacts
begin

text \<open>
  The messages of the server and what they are to do to the files shown. \<open>event_files\<close> says it without
  nodes, on the map from paths to files; \<open>node_event_files\<close> shows that the code does just that.
\<close>

section \<open>The specification\<close>

definition clean :: "string \<Rightarrow> bool" where
  "clean path \<longleftrightarrow> path_parts path \<noteq> [] \<and> path = path_of (path_parts path)"

definition parsed :: "anode \<Rightarrow> bool" where
  "parsed n \<longleftrightarrow> clean (anPath n) \<and> anChildren n = [] \<and> distinct (map fst (anMeta n)) \<and> \<not> search_root n"

definition update_source :: "ws_event \<Rightarrow> anode \<Rightarrow> string" where
  "update_source ev n = (case weSource ev of Some m \<Rightarrow> if weHasSource ev then anPath m else anPath n | None \<Rightarrow> anPath n)"

definition is_update :: "string \<Rightarrow> bool" where
  "is_update type \<longleftrightarrow> type \<in> {''UPDATE_PATH'', ''UPDATE_CONTENT'', ''UPDATE_META'', ''UPDATE_USER_META''}"

definition event_type :: "ws_event \<Rightarrow> string" where
  "event_type ev = (if weType ev = [] \<and> weTarget ev \<noteq> None then ''CREATE'' else weType ev)"

definition created_files where
  "created_files ps new F = (if F (butlast ps) = None then F else F(ps \<mapsto> new))"

definition event_files where
  "event_files ev F =
     (if event_type ev = ''CREATE'' then
        (case weTarget ev of None \<Rightarrow> F | Some n \<Rightarrow> created_files (path_parts (anPath n)) (info n) F)
      else if is_update (event_type ev) then
        (case weTarget ev of
           None \<Rightarrow> F
         | Some n \<Rightarrow>
             (let os = path_parts (update_source ev n); ps = path_parts (anPath n)
              in updated_files (butlast os) (last os) (butlast ps) (last ps)
                   (anLeaf n, obj_set ''original_path'' (MText (update_source ev n)) (anMeta n)) F))
      else if event_type ev = ''DELETE'' then
        (case weSource ev of None \<Rightarrow> F | Some n \<Rightarrow> without (path_parts (anPath n)) F)
      else F)"

text \<open>What the messages must respect: paths are made of names, an update with a source has that source in
  the workspace, and what is renamed to a file is no folder with files.\<close>

definition event_ok where
  "event_ok F ev \<longleftrightarrow> pred_option parsed (weTarget ev) \<and> pred_option (\<lambda>m. clean (anPath m)) (weSource ev) \<and>
     (weHasSource ev \<longrightarrow> weSource ev \<noteq> None) \<and>
     (\<forall>n c. weTarget ev = Some n \<longrightarrow> anLeaf n \<longrightarrow> update_source ev n \<noteq> anPath n \<longrightarrow>
        F (path_parts (update_source ev n) @ [c]) = None)"

section \<open>The code\<close>

definition plain_files where
  "plain_files F \<longleftrightarrow> (\<forall>qs l m. F qs = Some (l, m) \<longrightarrow> \<not> search_flag m)"

definition dm_ok :: "dmodel \<Rightarrow> bool" where
  "dm_ok s \<longleftrightarrow> dm_wf s \<and> dmSearch s = None \<and> plain_files (files s)"

lemma path_parts_names: "list_all is_name (path_parts path)"
  using js_split_parts [of _ "CHR ''/''" path] by (auto simp: path_parts_def is_name_def list_all_iff)

lemma clean_split:
  assumes "clean path"
  obtains ds b where "path_parts path = ds @ [b]" "path = path_of (ds @ [b])" "list_all is_name (ds @ [b])"
    "butlast (path_parts path) = ds" "last (path_parts path) = b"
proof -
  obtain ds b where "path_parts path = ds @ [b]" using assms by (metis clean_def rev_exhaust)
  then show ?thesis using that [of ds b] assms path_parts_names [of path] by (simp add: clean_def del: path_of_simps)
qed

lemma plain_lookup:
  assumes "plain_files (files s)" "lookup (dmRoot s) (trNodes s) ds = Some p"
  shows "\<not> search_root (node s p)"
  using assms(1) [unfolded plain_files_def, rule_format, of ds "anLeaf (node s p)" "anMeta (node s p)"] assms(2)
  by (simp add: files_def shown_def search_root_def)

lemma plain_change:
  "plain_files F \<Longrightarrow> \<not> search_flag (snd new) \<Longrightarrow> plain_files (F(ps \<mapsto> new))"
  "plain_files F \<Longrightarrow> plain_files (without ps F)"
  "plain_files F \<Longrightarrow> \<not> search_flag (snd new) \<Longrightarrow> plain_files (put ds b new F)"
  "plain_files F \<Longrightarrow> \<not> search_flag (snd new) \<Longrightarrow> plain_files (renamed_files ds a b new F)"
  by (auto simp: plain_files_def without_def put_def renamed_files_def)

lemma search_flag_original [simp]: "search_flag (obj_set ''original_path'' v m) = search_flag m"
  by (simp add: search_flag_def update_conv')

lemma plain_event:
  assumes "plain_files F" "event_ok F ev"
  shows "plain_files (event_files ev F)"
proof -
  have flag: "\<not> search_flag (anMeta n)" if "weTarget ev = Some n" for n
    using assms(2) that by (simp add: event_ok_def parsed_def search_root_def)
  then show ?thesis using assms(1)
    by (auto simp: event_files_def created_files_def updated_files_def Let_def info_def intro!: plain_change split: option.split)
qed

lemma alloc_fresh:
  assumes wf: "dm_wf s" and n: "anChildren n = []" "distinct (map fst (anMeta n))" and t: "(i, t) = alloc n s"
  shows "dm_wf t" "fresh i t" "node t i = n" "files t = files s" "dmSearch t = dmSearch s" "dmRoot t = dmRoot s"
proof -
  have wf': "tree_wf (dmRoot s) (trNodes s)" using wf by (simp add: dm_wf_def)
  have i: "i = length (trNodes s)" "trNodes t = trNodes s @ [n]" "dmRoot t = dmRoot s" "dmSearch t = dmSearch s"
    using t by (simp_all add: alloc_def)
  note al = wf_alloc [OF wf' n(1)]
  show "dm_wf t" using al i by (simp add: dm_wf_def)
  show "node t i = n" by (simp add: i)
  show "fresh i t" using al(2) n by (simp add: fresh_def i)
  show "dmSearch t = dmSearch s" "dmRoot t = dmRoot s" by (simp_all add: i)
  show "files t = files s"
  proof
    fix qs
    show "files t qs = files s qs"
      using lookup_alloc [OF wf' n(1), of qs] lookup_path [OF wf', of qs]
      by (cases "lookup (dmRoot s) (trNodes s) qs") (auto simp: files_def shown_def i nth_append)
  qed
qed

lemma search_updateNode:
  assumes "dmSearch s = None"
  shows "dmSearch (updateNode sel i s) = None"
proof -
  have none: "update_search i t = t" if "dmSearch t = None" for t using that by (simp add: update_search_def)
  show ?thesis using assms by (auto simp: updateNode_def Let_def none replaceMetadata_def split: option.split)
qed

lemma clean_not_root: "clean path \<Longrightarrow> path \<noteq> [] \<and> path \<noteq> ''/''"
  by (auto simp: clean_def path_parts_def)

lemma type_update: "event_type ev \<noteq> ''CREATE'' \<Longrightarrow> event_type ev = weType ev \<and> \<not> (weType ev = [] \<and> weTarget ev \<noteq> None)"
  by (auto simp: event_type_def split: if_splits)

lemma create_event:
  assumes s: "dm_wf s" "dmSearch s = None" "plain_files (files s)" and type: "event_type ev = ''CREATE''"
    and n: "weTarget ev = Some n" "clean (anPath n)" "anChildren n = []" "distinct (map fst (anMeta n))"
  shows "\<exists>t. node_event ev s = Some t \<and> dm_wf t \<and> dmSearch t = None \<and> files t = event_files ev (files s)"
proof -
  obtain ds b where db: "path_parts (anPath n) = ds @ [b]" "anPath n = path_of (ds @ [b])" "list_all is_name (ds @ [b])"
    by (rule clean_split [OF n(2)])
  obtain i t where t: "alloc n s = (i, t)" by (metis surj_pair)
  note al = alloc_fresh [OF s(1) n(3,4) t [symmetric]]
  have plain: "\<And>p. lookup (dmRoot t) (trNodes t) ds = Some p \<Longrightarrow> \<not> search_root (node t p)"
    using plain_lookup [of t] s(3) al(4) by simp
  have path: "anPath (node t i) = path_of (ds @ [b])" using al(3) db(2) by simp
  note add = addNode_files [OF al(1,2) path db(3) plain, of False]
  have "files (addNode False i t) = created_files (ds @ [b]) (info n) (files s)"
    using add(2) al(3,4) by (auto simp: created_files_def fun_eq_iff)
  moreover have "node_event ev s = Some (addNode False i t)"
    using type n(1) t clean_not_root [OF n(2)] by (simp add: node_event_def event_type_def Let_def)
  ultimately show ?thesis using add(1) al(5) s(2) type n(1) db(1) by (simp add: event_files_def)
qed

lemma update_event:
  assumes s: "dm_wf s" "dmSearch s = None" "plain_files (files s)"
    and type: "event_type ev \<noteq> ''CREATE''" "is_update (event_type ev)" and ok: "event_ok (files s) ev" and n: "weTarget ev = Some n"
  shows "\<exists>t. node_event ev s = Some t \<and> dm_wf t \<and> dmSearch t = None \<and> files t = event_files ev (files s)"
proof -
  let ?src = "update_source ev n"
  let ?n = "n\<lparr>anMeta := obj_set ''original_path'' (MText ?src) (anMeta n)\<rparr>"
  have n': "clean (anPath n)" "anChildren n = []" "distinct (map fst (anMeta n))"
    and src: "clean ?src" and has: "\<not> (weHasSource ev \<and> weSource ev = None)"
    using ok n by (auto simp: event_ok_def parsed_def update_source_def split: option.split)
  obtain ds b where db: "path_parts (anPath n) = ds @ [b]" "anPath n = path_of (ds @ [b])" "list_all is_name (ds @ [b])"
    by (rule clean_split [OF n'(1)])
  obtain od a where oa: "path_parts ?src = od @ [a]" "?src = path_of (od @ [a])" "list_all is_name (od @ [a])"
    by (rule clean_split [OF src])
  obtain i t where t: "alloc ?n s = (i, t)" by (metis surj_pair)
  have "anChildren ?n = []" "distinct (map fst (anMeta ?n))" using n' by (simp_all add: distinct_update)
  note al = alloc_fresh [OF s(1) this t [symmetric]]
  have plain: "\<And>p. lookup (dmRoot t) (trNodes t) ds = Some p \<Longrightarrow> \<not> search_root (node t p)"
    using plain_lookup [of t] s(3) al(4) by simp
  have path: "anPath (node t i) = path_of (ds @ [b])" using al(3) db(2) by simp
  have org: "original_path (node t i) = path_of (od @ [a])"
    unfolding oa(2) [symmetric] using al(3) by (simp add: original_path_def update_conv')
  have leaf: "\<forall>c. files t (ds @ [a] @ [c]) = None" if "od = ds" "a \<noteq> b" "anLeaf (node t i)"
  proof -
    have "?src \<noteq> anPath n" using that oa(2) db(2) by simp
    then have "files s ((od @ [a]) @ [c]) = None" for c using ok n that(3) al(3) oa(1) by (simp add: event_ok_def)
    then show ?thesis using al(4) that(1) by simp
  qed
  have none: "dmSearch t = None" using al(5) s(2) by simp
  note up = updateNode_files [OF al(1,2) path db(3) org oa(3) plain leaf none, of False]
  have "node_event ev s = Some (updateNode False i t)"
    using type type_update [OF type(1)] n has t
    unfolding node_event_def update_source_def is_update_def Let_def by (auto split: option.split)
  then show ?thesis using up al(3,4) type n db(1) oa(1) search_updateNode [OF none]
    by (simp add: event_files_def Let_def info_def)
qed

lemma double_slash:
  assumes "list_all is_name ps" "ps \<noteq> []"
  shows "removeNodeByPath (''/'' @ path_of ps) im s = removeNodeByPath (path_of ps) im s"
proof -
  have "path_of ps \<noteq> []" using assms(2) by simp
  then have "strip_slash (''/'' @ path_of ps) = ''/'' @ strip_slash (path_of ps)"
    using strip_slash_path_of [OF assms(1)] last_path_of [OF assms] by (simp add: strip_slash_def)
  then show ?thesis by (simp add: removeNodeByPath_def findInArbo_def path_parts_def)
qed

lemma delete_event:
  assumes s: "dm_wf s" "dmSearch s = None" and type: "event_type ev = ''DELETE''" and n: "weSource ev = Some n" "clean (anPath n)"
  shows "\<exists>t. node_event ev s = Some t \<and> dm_wf t \<and> dmSearch t = None \<and> files t = event_files ev (files s)"
proof -
  obtain ds b where db: "path_parts (anPath n) = ds @ [b]" "anPath n = path_of (ds @ [b])" "list_all is_name (ds @ [b])"
    by (rule clean_split [OF n(2)])
  obtain k t where t: "removeNodeByPath (path_of (ds @ [b])) None s = (k, t)" by (metis surj_pair)
  note rm = removeNodeByPath_files [OF s(1) db(3) _ t [symmetric]]
  have "weType ev = ''DELETE''" using type by (auto simp: event_type_def split: if_splits)
  then have "node_event ev s = Some t"
    using n(1) double_slash [OF db(3), of None s] t
    by (simp add: node_event_def Let_def db(2) del: path_of_simps)
  moreover have "dmSearch (snd (removeNodeByPath (path_of (ds @ [b])) None s)) = None" using s(2) by simp
  then have "dmSearch t = None" unfolding t by simp
  ultimately show ?thesis using rm(2,3) type n(1) db(1) by (auto simp: event_files_def is_update_def without_def fun_eq_iff)
qed

lemma node_event_files:
  assumes ok: "dm_ok s" and ev: "event_ok (files s) ev"
  shows "\<exists>t. node_event ev s = Some t \<and> dm_ok t \<and> files t = event_files ev (files s)"
proof -
  have s: "dm_wf s" "dmSearch s = None" "plain_files (files s)" using ok by (simp_all add: dm_ok_def)
  have parsed: "weTarget ev = Some n \<Longrightarrow> parsed n" "weSource ev = Some n \<Longrightarrow> clean (anPath n)" for n
    using ev by (simp_all add: event_ok_def)
  have ignored: "node_event ev s = Some s \<and> event_files ev (files s) = files s"
    if "event_type ev = ''CREATE'' \<or> is_update (event_type ev) \<longrightarrow> weTarget ev = None"
      "event_type ev = ''DELETE'' \<longrightarrow> weSource ev = None"
    unfolding node_event_def event_files_def Let_def event_type_def [symmetric] is_update_def [symmetric] using that by auto
  have "\<exists>t. node_event ev s = Some t \<and> dm_wf t \<and> dmSearch t = None \<and> files t = event_files ev (files s)"
  proof (cases "weTarget ev \<noteq> None \<and> (event_type ev = ''CREATE'' \<or> is_update (event_type ev))")
    case True
    then obtain n where n: "weTarget ev = Some n" "parsed n" using parsed(1) by auto
    show ?thesis
    proof (cases "event_type ev = ''CREATE''")
      case True
      then show ?thesis using create_event [OF s True n(1)] n(2) by (simp add: parsed_def)
    next
      case False
      then show ?thesis using update_event [OF s False _ ev n(1)] \<open>_ \<and> _\<close> by simp
    qed
  next
    case False
    show ?thesis
    proof (cases "event_type ev = ''DELETE'' \<and> weSource ev \<noteq> None")
      case True
      then show ?thesis using delete_event [OF s(1,2)] parsed(2) by auto
    next
      case no_delete: False
      have "node_event ev s = Some s \<and> event_files ev (files s) = files s" by (rule ignored) (use False no_delete in auto)
      then show ?thesis using s by simp
    qed
  qed
  then show ?thesis using plain_event [OF s(3) ev] by (auto simp: dm_ok_def)
qed

text \<open>A sequence of messages; it stops at one that throws.\<close>

definition node_events :: "ws_event list \<Rightarrow> dmodel \<Rightarrow> dmodel option" where
  "node_events evs s = foldl (\<lambda>t ev. Option.bind t (node_event ev)) (Some s) evs"

primrec events_ok where
  "events_ok F [] = True"
| "events_ok F (ev # evs) = (event_ok F ev \<and> events_ok (event_files ev F) evs)"

lemma node_events_files:
  assumes "dm_ok s" "events_ok (files s) evs"
  shows "\<exists>t. node_events evs s = Some t \<and> dm_ok t \<and> files t = foldl (\<lambda>F ev. event_files ev F) (files s) evs"
  using assms
proof (induction evs arbitrary: s)
  case (Cons ev evs)
  then obtain t where t: "node_event ev s = Some t" "dm_ok t" "files t = event_files ev (files s)"
    using node_event_files [of s ev] by auto
  then show ?case using Cons.IH [of t] Cons.prems(2) by (simp add: node_events_def)
qed (simp add: node_events_def)

end
