(* ===== verification/DataModelLoading.thy ===== *)
theory DataModelLoading
  imports DataModelFacts
begin

text \<open>
  Lemmas on loading a folder: what asking for it and the answer of the server change.
\<close>

section \<open>Asking\<close>

lemma drop_children_frame [simp]:
  fixes s :: dmodel
  shows "dmRequests (drop_children True i s) = dmRequests s" "trContext (drop_children True i s) = trContext s"
    "anLoading (node (drop_children True i s) j) = anLoading (node s j)" "length (trNodes (drop_children True i s)) = length (trNodes s)"
proof -
  have "dmRequests (foldl (\<lambda>t kc. drop_child True i kc t) s xs) = dmRequests s \<and>
    trContext (foldl (\<lambda>t kc. drop_child True i kc t) s xs) = trContext s \<and>
    anLoading (node (foldl (\<lambda>t kc. drop_child True i kc t) s xs) j) = anLoading (node s j) \<and>
    length (trNodes (foldl (\<lambda>t kc. drop_child True i kc t) s xs)) = length (trNodes s)" for xs
    by (induction xs arbitrary: s) (auto simp: drop_child_def set_node_def nth_update case_prod_unfold)
  then show "dmRequests (drop_children True i s) = dmRequests s" "trContext (drop_children True i s) = trContext s"
    "anLoading (node (drop_children True i s) j) = anLoading (node s j)" "length (trNodes (drop_children True i s)) = length (trNodes s)"
    by (simp_all add: drop_children_def)
qed

lemma requests_frame [simp]:
  "dmRequests (publish ev s) = dmRequests s" "dmRequests (set_node i f s) = dmRequests s" "dmRequests (notify i ev s) = dmRequests s"
  "trContext (publish ev s) = trContext s" "trContext (set_node i f s) = trContext s"
  "ev \<noteq> ''node_replaced'' \<Longrightarrow> trContext (notify i ev s) = trContext s"
  by (simp_all add: publish_def set_node_def notify_def setContextNode_def Let_def)

lemma selected_requests [simp]:
  "dmRequests (setSelectedNodes ns s) = dmRequests s" "trContext (setSelectedNodes ns s) = trContext s"
  "dmOnce (setSelectedNodes ns s) = dmOnce s"
  by (simp_all add: setSelectedNodes_def publish_def)

text \<open>A folder of the tree that is not the root and is no placeholder.\<close>

definition plain_folder :: "nat \<Rightarrow> dmodel \<Rightarrow> bool" where
  "plain_folder i s \<longleftrightarrow> i < length (trNodes s) \<and> i \<noteq> dmRoot s \<and> anPath (node s i) \<notin> {[], ''/''} \<and>
     anParent (node s i) \<noteq> None \<and> \<not> anFake (node s i)"

lemma require_plain:
  assumes "plain_folder i s"
  shows "requireContextChange i force s =
    show_folder i (new_page (node s i)) (force \<or> new_page (node s i) \<noteq> None) (setSelectedNodes [] s)"
  using assms by (auto simp: plain_folder_def requireContextChange_def Let_def)

lemma require_loading:
  assumes "plain_folder i s" "anLoading (node s i)"
  shows "dmRequests (requireContextChange i force s) = dmRequests s" "trContext (requireContextChange i force s) = trContext s"
    "anLoading (node (requireContextChange i force s) i)"
proof -
  note eq = require_plain [OF assms(1), of force]
  have "anLoading (set_page p (node s i))" for p using assms(2) by (simp add: set_page_def split: option.split mval.split)
  then show "dmRequests (requireContextChange i force s) = dmRequests s" "trContext (requireContextChange i force s) = trContext s"
    "anLoading (node (requireContextChange i force s) i)"
    using assms unfolding eq
    by (auto simp: show_folder_def reload_node_def load_node_def plain_folder_def Let_def nth_update publish_def
        split: option.split)
qed

lemma setChildren_children:
  assumes "p < length (trNodes s)" "p \<notin> set cs" "distinct (map (\<lambda>c. anPath (node s c)) cs)"
  shows "anChildren (node (setChildren p cs s) p) = map (\<lambda>c. (anPath (node s c), c)) cs"
    "c \<in> set cs \<Longrightarrow> c < length (trNodes s) \<Longrightarrow> anParent (node (setChildren p cs s) c) = Some p"
    "trContext (setChildren p cs s) = trContext s"
    "length (trNodes (setChildren p cs s)) = length (trNodes s)"
    "anPath (node (setChildren p cs s) j) = anPath (node s j)"
proof -
  define f where "f = (\<lambda>(t :: 'a tree_scheme) c. set_node c (\<lambda>n. n\<lparr>anParent := Some p\<rparr>)
      (set_node p (\<lambda>n. n\<lparr>anChildren := obj_set (anPath (node t c)) c (anChildren n)\<rparr>) t))"
  have "anChildren (node (foldl f t cs) p) = anChildren (node t p) @ map (\<lambda>c. (anPath (node s c), c)) cs \<and>
      (\<forall>c. c \<in> set cs \<or> anParent (node t c) = Some p \<longrightarrow> c < length (trNodes s) \<longrightarrow> anParent (node (foldl f t cs) c) = Some p) \<and>
      trContext (foldl f t cs) = trContext t \<and> length (trNodes (foldl f t cs)) = length (trNodes t) \<and>
      (\<forall>j. anPath (node (foldl f t cs) j) = anPath (node s j))"
    if "length (trNodes t) = length (trNodes s)" "\<And>j. anPath (node t j) = anPath (node s j)"
      "distinct (map fst (anChildren (node t p)) @ map (\<lambda>c. anPath (node s c)) cs)" for t :: "'a tree_scheme"
    using that assms(2)
  proof (induction cs arbitrary: t)
    case (Cons c cs)
    have t: "node (f t c) j = (if j = c \<and> c < length (trNodes s) then (node t c)\<lparr>anParent := Some p\<rparr>
        else if j = p then (node t p)\<lparr>anChildren := obj_set (anPath (node s c)) c (anChildren (node t p))\<rparr> else node t j)"
      "length (trNodes (f t c)) = length (trNodes s)" "trContext (f t c) = trContext t" for j
      using Cons.prems(1,2,4) assms(1) by (auto simp: f_def nth_update set_node_def)
    have "anChildren (node (f t c) p) = anChildren (node t p) @ [(anPath (node s c), c)]"
      using Cons.prems(3,4) t(1) [of p] by (auto simp: obj_set_fresh)
    moreover have "anPath (node (f t c) j) = anPath (node s j)" for j using Cons.prems(2) t(1) [of j] by simp
    moreover have "anParent (node (f t c) d) = Some p" if "d = c \<or> anParent (node t d) = Some p" "d < length (trNodes s)" for d
      using that t(1) [of d] by auto
    ultimately show ?case using Cons.IH [of "f t c"] Cons.prems(1,3,4) t(2,3) by auto
  qed simp
  note all = this
  let ?t = "set_node p (\<lambda>n. n\<lparr>anChildren := []\<rparr>) s"
  have "setChildren p cs s = foldl f ?t cs" by (simp add: setChildren_def f_def)
  moreover have "anPath (node ?t j) = anPath (node s j)" for j by (simp add: nth_update)
  moreover have "anChildren (node ?t p) = []" using assms(1) by simp
  ultimately show "anChildren (node (setChildren p cs s) p) = map (\<lambda>c. (anPath (node s c), c)) cs"
    "c \<in> set cs \<Longrightarrow> c < length (trNodes s) \<Longrightarrow> anParent (node (setChildren p cs s) c) = Some p"
    "trContext (setChildren p cs s) = trContext s" "length (trNodes (setChildren p cs s)) = length (trNodes s)"
    "anPath (node (setChildren p cs s) j) = anPath (node s j)"
    using all [of ?t] assms(3) by (simp_all add: set_node_def)
qed

section \<open>The answer\<close>

lemma context_loaded_pow:
  "n > 0 \<Longrightarrow> dmPending s = None \<Longrightarrow> trContext ((context_loaded i ^^ n) s) = Some i \<and>
     trNodes ((context_loaded i ^^ n) s) = trNodes s \<and> dmPending ((context_loaded i ^^ n) s) = None \<and>
     dmOnce ((context_loaded i ^^ n) s) = dmOnce s"
proof (induction n)
  case (Suc n)
  then show ?case
    by (cases n) (simp_all add: context_loaded_def pick_pending_def publish_def setContextNode_def)
qed simp

lemma notify_loaded_shown:
  assumes "OnceLoaded i \<in> set (dmOnce s)" "dmPending s = None"
  shows "trContext (notify_loaded i s) = Some i" "trNodes (notify_loaded i s) = trNodes s"
    "dmOnce (notify_loaded i s) = filter (\<lambda>o1. o1 \<noteq> OnceLoaded i) (dmOnce s)"
proof -
  let ?t = "notify i ''loaded'' s"
  have once: "dmOnce ?t = dmOnce s" "dmPending ?t = None" using assms(2) by (simp_all add: notify_def Let_def)
  have "length (filter (\<lambda>o1. o1 = OnceLoaded i) (dmOnce s)) > 0"
    using assms(1) by (auto simp: filter_empty_conv)
  note pow = context_loaded_pow [OF this, of "?t\<lparr>dmOnce := filter (\<lambda>o1. o1 \<noteq> OnceLoaded i) (dmOnce s)\<rparr>" i]
  show "trContext (notify_loaded i s) = Some i" "trNodes (notify_loaded i s) = trNodes s"
    "dmOnce (notify_loaded i s) = filter (\<lambda>o1. o1 \<noteq> OnceLoaded i) (dmOnce s)"
    using pow once by (simp_all add: notify_loaded_def Let_def)
qed

lemma run_first_none:
  assumes "\<And>c. OnceFirstLoad i c \<notin> set (dmOnce s)"
  shows "run_first i s = s"
proof -
  have "List.map_filter (\<lambda>o1. case o1 of OnceFirstLoad f c \<Rightarrow> if f = i then Some c else None | _ \<Rightarrow> None) xs = []"
    if "\<And>c. OnceFirstLoad i c \<notin> set xs" for xs
    using that by (induction xs) (auto simp: map_filter_simps split: once.splits)
  note none = this [OF assms]
  have "filter (\<lambda>o1. case o1 of OnceFirstLoad f c \<Rightarrow> f \<noteq> i | _ \<Rightarrow> True) (dmOnce s) = dmOnce s"
    using assms by (intro filter_True) (auto split: once.splits)
  then show ?thesis by (simp add: run_first_def none)
qed

text \<open>The node itself is merged into the one asked for, whose path and children stay.\<close>

lemma merged_self:
  fixes s :: dmodel
  assumes "i < length (trNodes s)" "anChildren n = []" "anPath n = anPath (node s i)"
    and t: "t = (let (c, u) = alloc (set_pages pages n) s
      in replaceBy False i c (if pages = None then set_node i (set_pages None) u else u))"
  shows "length (trNodes t) = Suc (length (trNodes s))" "j < length (trNodes s) \<Longrightarrow> anPath (node t j) = anPath (node s j)"
    "dmOnce t = dmOnce s" "dmPending t = dmPending s"
proof -
  let ?n = "set_pages pages n" and ?c = "length (trNodes s)"
  have n: "anChildren ?n = []" "anPath ?n = anPath n" using assms(2) by (simp_all add: set_pages_def split: option.split)
  define u where "u = s\<lparr>trNodes := trNodes s @ [?n]\<rparr>"
  define v where "v = (if pages = None then set_node i (set_pages None) u else u)"
  have ui: "node u i = node s i" "node u ?c = ?n" using assms(1) by (simp_all add: u_def nth_append)
  have vc: "node v ?c = ?n" using assms(1) ui by (simp add: v_def)
  have vi: "anPath (node v i) = anPath (node s i)" "length (trNodes v) = Suc ?c"
    using assms(1) ui by (auto simp: v_def u_def nth_append set_pages_def)
  have vj: "anPath (node v j) = anPath (node u j)" for j by (simp add: v_def nth_update set_pages_def)
  have "replaceBy False i ?c v = notify_parent i (notify i ''node_replaced'' (set_node i (copy_fields False (node v ?c)) v))"
    by (rule replaceBy_same_path) (use vc vi n assms(1,3) in simp_all)
  then have t': "t = notify_parent i (notify i ''node_replaced'' (set_node i (copy_fields False ?n) v))"
    unfolding t by (simp add: alloc_def u_def [symmetric] v_def [symmetric] vc)
  show "length (trNodes t) = Suc (length (trNodes s))" using vi by (simp add: t')
  show "j < length (trNodes s) \<Longrightarrow> anPath (node t j) = anPath (node s j)"
    using vj [of j] vi n(2) assms(1,3) by (auto simp: t' nth_update u_def nth_append)
  have "dmOnce (notify_parent i w) = dmOnce w" "dmOnce (notify i ev w) = dmOnce w" "dmOnce (set_node i f w) = dmOnce w"
    "dmPending (notify_parent i w) = dmPending w" "dmPending (notify i ev w) = dmPending w" "dmPending (set_node i f w) = dmPending w"
    for ev f and w :: dmodel by (simp_all add: notify_parent_def notify_def setContextNode_def publish_def set_node_def Let_def split: option.split)
  then show "dmOnce t = dmOnce s" "dmPending t = dmPending s" by (simp_all add: t' v_def u_def)
qed

lemma setChildren_once [simp]:
  fixes s :: dmodel
  shows "dmOnce (setChildren p cs s) = dmOnce s" "dmPending (setChildren p cs s) = dmPending s"
proof -
  have set: "dmOnce (set_node j f w) = dmOnce w" "dmPending (set_node j f w) = dmPending w" for j f and w :: dmodel
    by (simp_all add: set_node_def)
  show "dmOnce (setChildren p cs s) = dmOnce s" "dmPending (setChildren p cs s) = dmPending s"
    unfolding setChildren_def by (rule trans [OF foldl_frame]; simp add: set)+
qed

text \<open>What the answer makes of the folder: its children are the nodes kept of the answer.\<close>

definition kept_nodes :: "string \<Rightarrow> anode list \<Rightarrow> anode list" where
  "kept_nodes path answer = filter (\<lambda>n. anPath n \<noteq> path) (filter (\<lambda>n. anLabel n \<noteq> ''.pydio'') answer)"

lemma merge_answer_steps:
  fixes s :: dmodel
  assumes i: "i < length (trNodes s)" and pend: "dmPending s = None" and ans: "list_all (\<lambda>n. anChildren n = []) answer"
  obtains s1 where "merge_answer i answer pages s = setChildren i
      [length (trNodes s1)..<length (trNodes s1) + length (kept_nodes (anPath (node s i)) answer)]
      (s1\<lparr>trNodes := trNodes s1 @ kept_nodes (anPath (node s i)) answer\<rparr>)"
    "length (trNodes s) \<le> length (trNodes s1)" "dmOnce s1 = dmOnce s" "dmPending s1 = None"
proof -
  let ?path = "anPath (node s i)"
  let ?origs = "filter (\<lambda>n. anPath n = ?path) (filter (\<lambda>n. anLabel n \<noteq> ''.pydio'') answer)"
  define s1 where "s1 = (if ?origs = [] then s
                else let (c, t) = alloc (set_pages pages (last ?origs)) s
                     in replaceBy False i c (if pages = None then set_node i (set_pages None) t else t))"
  have "length (trNodes s) \<le> length (trNodes s1) \<and> dmOnce s1 = dmOnce s \<and> dmPending s1 = None"
  proof (cases "?origs = []")
    case True
    then show ?thesis using pend by (simp add: s1_def)
  next
    case False
    then have "last ?origs \<in> set answer" "anPath (last ?origs) = ?path" using last_in_set [OF False] by auto
    then have "anChildren (last ?origs) = []" "anPath (last ?origs) = anPath (node s i)" using ans(1) by (simp_all add: list_all_iff)
    note merged_self [OF i this refl]
    then show ?thesis using pend False unfolding s1_def by simp
  qed
  moreover have "merge_answer i answer pages s = setChildren i
      [length (trNodes s1)..<length (trNodes s1) + length (kept_nodes ?path answer)] (s1\<lparr>trNodes := trNodes s1 @ kept_nodes ?path answer\<rparr>)"
    unfolding merge_answer_def kept_nodes_def s1_def Let_def alloc_all_def by (simp add: case_prod_unfold)
  ultimately show thesis using that by blast
qed

lemma merge_answer_children:
  fixes s :: dmodel
  assumes i: "i < length (trNodes s)" and pend: "dmPending s = None"
    and ans: "list_all (\<lambda>n. anChildren n = []) answer" "distinct (map anPath answer)"
    and m: "m = merge_answer i answer pages s"
  shows "map fst (anChildren (node m i)) = map anPath (kept_nodes (anPath (node s i)) answer)"
    "list_all (\<lambda>(k, c). c \<noteq> i \<and> anParent (node m c) = Some i \<and> anPath (node m c) = k) (anChildren (node m i))"
    "i < length (trNodes m)" "dmOnce m = dmOnce s" "dmPending m = None"
proof -
  let ?ks = "kept_nodes (anPath (node s i)) answer"
  obtain s1 where s1: "m = setChildren i [length (trNodes s1)..<length (trNodes s1) + length ?ks] (s1\<lparr>trNodes := trNodes s1 @ ?ks\<rparr>)"
    "length (trNodes s) \<le> length (trNodes s1)" "dmOnce s1 = dmOnce s" "dmPending s1 = None"
    unfolding m by (rule merge_answer_steps [OF i pend ans(1)])
  define s2 where "s2 = s1\<lparr>trNodes := trNodes s1 @ ?ks\<rparr>"
  let ?cs = "[length (trNodes s1)..<length (trNodes s1) + length ?ks]"
  have paths: "map (\<lambda>c. anPath (node s2 c)) ?cs = map anPath ?ks"
    by (rule nth_equalityI) (simp_all add: s2_def nth_append)
  have "distinct (map anPath ?ks)" using ans(2) by (simp add: kept_nodes_def distinct_map_filter)
  then have pre: "i < length (trNodes s2)" "i \<notin> set ?cs" "distinct (map (\<lambda>c. anPath (node s2 c)) ?cs)"
    using i s1(2) paths by (auto simp: s2_def)
  note sc = setChildren_children [OF pre, folded s1(1) [folded s2_def]]
  show "map fst (anChildren (node m i)) = map anPath ?ks" using sc(1) paths by (simp add: comp_def)
  have "c \<noteq> i \<and> anParent (node m c) = Some i \<and> anPath (node m c) = anPath (node s2 c)" if "c \<in> set ?cs" for c
    using sc(2) [OF that] sc(5) [of c] that pre(2) by (auto simp: s2_def)
  then show "list_all (\<lambda>(k, c). c \<noteq> i \<and> anParent (node m c) = Some i \<and> anPath (node m c) = k) (anChildren (node m i))"
    unfolding sc(1) by (auto simp: list_all_iff)
  show "i < length (trNodes m)" using pre(1) sc(4) by simp
  show "dmOnce m = dmOnce s" "dmPending m = None" using s1(3,4) by (simp_all add: s1(1))
qed

lemma node_answered_shown:
  assumes i: "i < length (trNodes s)" "OnceLoaded i \<in> set (dmOnce s)" "\<And>c. OnceFirstLoad i c \<notin> set (dmOnce s)"
    and pend: "dmPending s = None" and ans: "list_all (\<lambda>n. anChildren n = []) answer" "distinct (map anPath answer)"
    and t: "t = node_answered i answer pages s"
  shows "trContext t = Some i" "anLoaded (node t i)" "\<not> anLoading (node t i)"
    "map fst (anChildren (node t i)) = map anPath (filter (\<lambda>n. anPath n \<noteq> anPath (node s i) \<and> anLabel n \<noteq> ''.pydio'') answer)"
    "list_all (\<lambda>(k, c). anParent (node t c) = Some i \<and> anPath (node t c) = k) (anChildren (node t i))"
proof -
  let ?s = "s\<lparr>dmRequests := remove1 i (dmRequests s)\<rparr>"
  define m where "m = merge_answer i answer pages ?s"
  have m: "map fst (anChildren (node m i)) = map anPath (kept_nodes (anPath (node s i)) answer)"
    "list_all (\<lambda>(k, c). c \<noteq> i \<and> anParent (node m c) = Some i \<and> anPath (node m c) = k) (anChildren (node m i))"
    "i < length (trNodes m)" "dmOnce m = dmOnce s" "dmPending m = None"
    using merge_answer_children [OF _ _ ans m_def] i(1) pend by simp_all
  define s3 where "s3 = set_node i (\<lambda>n. n\<lparr>anLoaded := True, anLoading := False\<rparr>) m"
  have once: "dmOnce s3 = dmOnce s" "dmPending s3 = None" using m(4,5) by (simp_all add: s3_def set_node_def)
  have "OnceLoaded i \<in> set (dmOnce s3)" using i(2) once by simp
  note nl = notify_loaded_shown [OF this once(2)]
  let ?u = "notify i ''first_load'' (notify_loaded i s3)"
  have "dmOnce ?u = dmOnce (notify_loaded i s3)" "trContext ?u = trContext (notify_loaded i s3)" by (simp_all add: notify_def Let_def)
  then have u: "run_first i ?u = ?u" "trContext ?u = Some i" "trNodes ?u = trNodes s3"
    using run_first_none [of i ?u] i(3) nl once(1) by auto
  have t': "t = ?u" using u(1) unfolding t node_answered_def m_def [symmetric] Let_def s3_def by simp
  show "trContext t = Some i" using u(2) t' by simp
  have nodes: "node t j = (if j = i then (node m i)\<lparr>anLoaded := True, anLoading := False\<rparr> else node m j)" for j
    using u(3) t' m(3) by (simp add: s3_def nth_update)
  show "anLoaded (node t i)" "\<not> anLoading (node t i)" by (simp_all add: nodes)
  show "map fst (anChildren (node t i)) = map anPath (filter (\<lambda>n. anPath n \<noteq> anPath (node s i) \<and> anLabel n \<noteq> ''.pydio'') answer)"
    using m(1) by (simp add: nodes kept_nodes_def conj_commute)
  show "list_all (\<lambda>(k, c). anParent (node t c) = Some i \<and> anPath (node t c) = k) (anChildren (node t i))"
    using m(2) by (auto simp: nodes list_all_iff)
qed

end
