(* ===== verification/DataModelProperties.thy ===== *)
theory DataModelProperties
  imports DataModelEvents DataModelLoading
begin

text \<open>Properties of the tree of files and of the data model that holds it.\<close>

section \<open>Messages\<close>


definition small_model :: dmodel where
  "small_model = newDataModel (newNode ''/'' False ''Files'' [] None)"

definition small_events :: "ws_event list" where
  "small_events =
     [\<lparr>weType = ''CREATE'', weTarget = Some (newNode ''/a'' False ''a'' [] None), weSource = None, weHasSource = False\<rparr>,
      \<lparr>weType = [], weTarget = Some (newNode ''/a/b'' True ''b'' [] None), weSource = None, weHasSource = False\<rparr>,
      \<lparr>weType = ''UPDATE_PATH'', weTarget = Some (newNode ''/c'' False ''c'' [] None),
       weSource = Some (newNode ''/a'' False ''a'' [] None), weHasSource = True\<rparr>]"



text \<open>A message of a created node replaces what is known of the file, even when that is newer: only
  updates compare the times.\<close>

lemma create_ignores_time:
  assumes "dm_ok s" "event_ok (files s) ev" "weType ev = ''CREATE''" "weTarget ev = Some n"
    and "files s (butlast (path_parts (anPath n))) \<noteq> None" "held (files s) (path_parts (anPath n)) (info n)"
  shows "\<exists>t. node_event ev s = Some t \<and> files t (path_parts (anPath n)) = Some (info n)"
  using node_event_files [OF assms(1,2)] assms(3-5) by (auto simp: event_files_def event_type_def created_files_def)

text \<open>An update whose source is in another workspace throws: the node moved here is not shown.\<close>

lemma foreign_source_throws:
  assumes "is_update (weType ev)" "weTarget ev = Some n" "weHasSource ev" "weSource ev = None"
  shows "node_event ev s = None"
  using assms by (auto simp: node_event_def is_update_def Let_def)

section \<open>Loading a folder\<close>

text \<open>C7. A folder whose request failed is never loaded again: it stays marked as loading, so that asking
  for it once more, with or without a reload, sends no request and shows nothing.\<close>

theorem failed_folder_stays_closed:
  assumes "plain_folder i s" "\<not> anLoading (node s i)" "\<not> anLoaded (node s i)" "new_page (node s i) = None" "i \<notin> set (dmRequests s)"
  shows "let t = node_failed i (requireContextChange i False s) in
    dmRequests (requireContextChange i False s) = dmRequests s @ [i] \<and> dmRequests t = dmRequests s \<and>
    dmRequests (requireContextChange i force t) = dmRequests s \<and> trContext (requireContextChange i force t) = trContext s"
proof -
  let ?u = "requireContextChange i False s"
  have eq: "?u = load_node i (publish ''context_loading'' ((setSelectedNodes [] s)\<lparr>dmOnce := dmOnce s @ [OnceLoaded i, OnceError i]\<rparr>))"
    using require_plain [OF assms(1), of False] assms(4) by (simp add: show_folder_def)
  have u: "dmRequests ?u = dmRequests s @ [i]" "trContext ?u = trContext s" "anLoading (node ?u i)"
    "plain_folder i (node_failed i ?u)"
    using assms unfolding eq by (simp_all add: load_node_def Let_def plain_folder_def node_failed_def)
  have t: "dmRequests (node_failed i ?u) = dmRequests s" "trContext (node_failed i ?u) = trContext s" "anLoading (node (node_failed i ?u) i)"
    using u assms(5) by (simp_all add: node_failed_def remove1_append)
  show ?thesis using require_loading [OF u(4) t(3)] u(1) t by (simp add: Let_def)
qed

definition folder_model :: dmodel where
  "folder_model = the (node_event (hd small_events) small_model)"

lemma failed_folder_stays_closed_witness:
  "let t = node_failed 1 (requireContextChange 1 False folder_model) in
     dmRequests (requireContextChange 1 False folder_model) = [1] \<and> dmRequests (requireContextChange 1 True t) = []"
proof -
  have "plain_folder 1 folder_model \<and> \<not> anLoading (node folder_model 1) \<and> \<not> anLoaded (node folder_model 1) \<and>
    new_page (node folder_model 1) = None \<and> dmRequests folder_model = []" by code_simp
  then show ?thesis using failed_folder_stays_closed [of 1 folder_model True] by (simp add: Let_def)
qed

text \<open>C8. The answer for the folder asked for makes it the folder shown: it is loaded, its children are the
  nodes of the answer in their order, without itself and the hidden \<open>.pydio\<close>, and they have it as parent.\<close>

theorem answered_folder_shown:
  assumes "i < length (trNodes s)" "OnceLoaded i \<in> set (dmOnce s)" "\<And>c. OnceFirstLoad i c \<notin> set (dmOnce s)"
    and "dmPending s = None" "list_all (\<lambda>n. anChildren n = []) answer" "distinct (map anPath answer)"
    and "t = node_answered i answer pages s"
  shows "trContext t = Some i \<and> anLoaded (node t i) \<and> \<not> anLoading (node t i) \<and>
    map fst (anChildren (node t i)) = map anPath (filter (\<lambda>n. anPath n \<noteq> anPath (node s i) \<and> anLabel n \<noteq> ''.pydio'') answer) \<and>
    list_all (\<lambda>(k, c). anParent (node t c) = Some i \<and> anPath (node t c) = k) (anChildren (node t i))"
  using node_answered_shown [OF assms] by blast

definition asked_model :: dmodel where
  "asked_model = requireContextChange 1 False folder_model"

definition small_answer :: "anode list" where
  "small_answer = [newNode ''/a'' False ''a'' [] None, newNode ''/a/b'' True ''b'' [] None, newNode ''/a/.pydio'' True ''.pydio'' [] None]"

lemma answered_folder_shown_witness:
  "trContext (node_answered 1 small_answer None asked_model) = Some 1 \<and>
   map fst (anChildren (node (node_answered 1 small_answer None asked_model) 1)) = [''/a/b'']"
proof -
  have "1 < length (trNodes asked_model)" "dmOnce asked_model = [OnceLoaded 1, OnceError 1]" "dmPending asked_model = None"
    "list_all (\<lambda>n. anChildren n = []) small_answer" "distinct (map anPath small_answer)"
    "map anPath (filter (\<lambda>n. anPath n \<noteq> anPath (node asked_model 1) \<and> anLabel n \<noteq> ''.pydio'') small_answer) = [''/a/b'']"
    by code_simp+
  then show ?thesis using answered_folder_shown [of 1 asked_model small_answer _ None, OF _ _ _ _ _ _ refl] by simp
qed

end
