(* ===== verification/SearchBox.thy ===== *)
theory SearchBox
  imports DataModel Json Systems
begin

text \<open>
  The search of files: the component \<open>ui/HOCs/search/withSearch.js\<close>, which keeps the values, facets,
  history and saved searches, and shows the results under the search node of the data model, and the
  query \<open>core/http/SearchApi.es6\<close> makes of the values.

  A state is that of the component together with its data model, the requests on their way, and the
  storage of the browser. \<open>setState\<close> takes effect at once, as it does in the answers of requests. The
  number of \<open>loaded\<close> observers waiting on the search node is \<open>sbOnce\<close>. The values are what JSON can
  hold; dates are numbers. The user is known when terms are stored. Left out: \<open>humanize\<close> (display
  text) and the callbacks of the parent components.
\<close>

section \<open>Values and facets\<close>

type_synonym search_values = "(string, json) obj"

fun json_truthy :: "json \<Rightarrow> bool" where
  "json_truthy JNull = False"
| "json_truthy (JBool b) = b"
| "json_truthy (JNum i) = (i \<noteq> 0)"
| "json_truthy (JStr s) = (s \<noteq> [])"
| "json_truthy (JArr xs) = True"
| "json_truthy (JObj ms) = True"

definition json_text :: "json option \<Rightarrow> string" where
  "json_text v = (case v of Some (JStr s) \<Rightarrow> s | _ \<Rightarrow> [])"

record facet =
  fcField :: string
  fcLabel :: string
  fcMin :: int
  fcMax :: int
  fcStart :: int
  fcEnd :: int

definition range_value :: "int \<Rightarrow> int \<Rightarrow> json" where
  "range_value a b = JObj [(''from'', JNum a), (''to'', JNum b)]"

text \<open>What one facet adds; \<open>term\<close> is the text searched for.\<close>

definition facet_data :: "string \<Rightarrow> facet \<Rightarrow> search_values \<Rightarrow> search_values" where
  "facet_data text f d =
     (if fcField f = ''Size'' then obj_set ''ajxp_bytesize'' (range_value (fcMin f) (fcMax f)) d
      else if fcField f = ''ModifTime'' then obj_set ''ajxp_modiftime'' (range_value (fcStart f * 1000) (fcEnd f * 1000)) d
      else if fcField f = ''Extension'' then obj_set ''ajxp_mime'' (JStr (fcLabel f)) d
      else if fcField f = ''NodeType'' then obj_set ''ajxp_mime'' (JStr (''ajxp_'' @ fcLabel f)) d
      else if fcField f = ''TextContent'' then obj_set ''Content'' (JStr text) (obj_set ''basenameOrContent'' (JStr []) d)
      else if fcField f = ''Basename'' then
        obj_set ''basename'' (JStr (js_replace text ''*'' [] @ ''*'')) (obj_set ''basenameOrContent'' (JStr []) d)
      else if starts_with ''Meta.'' (fcField f) then obj_set (''ajxp_meta_'' @ drop 5 (fcField f)) (JStr (fcLabel f)) d
      else d)"

definition mergeFacets :: "search_values \<Rightarrow> facet list \<Rightarrow> search_values" where
  "mergeFacets values facets =
     foldl (\<lambda>m (k, v). obj_set k v m) values
       (foldl (\<lambda>d f. facet_data (json_text (map_of values ''basenameOrContent'')) f d) [] facets)"

section \<open>The query\<close>

record search_query =
  qPathPrefix :: "json option"
  qFileName :: "json option"
  qFileNameOrContent :: "json option"
  qContent :: "json option"
  qType :: "string option"
  qExtension :: "json option"
  qMinDate :: "string option"
  qMaxDate :: "string option"
  qMinSize :: "string option"
  qMaxSize :: "string option"
  qFreeString :: "string option"

definition empty_query :: search_query where
  "empty_query = \<lparr>qPathPrefix = None, qFileName = None, qFileNameOrContent = None, qContent = None, qType = None,
     qExtension = None, qMinDate = None, qMaxDate = None, qMinSize = None, qMaxSize = None, qFreeString = None\<rparr>"

definition autoQuote :: "json \<Rightarrow> json" where
  "autoQuote v = (case v of JStr t \<Rightarrow> if CHR '' '' \<in> set t then JStr ([CHR 34] @ t @ [CHR 34]) else v | _ \<Rightarrow> v)"

text \<open>A value as a string, as \<open>+\<close> makes it.\<close>

fun js_text :: "json \<Rightarrow> string" where
  "js_text JNull = ''null''"
| "js_text (JBool b) = (if b then ''true'' else ''false'')"
| "js_text (JNum i) = print_int i"
| "js_text (JStr s) = s"
| "js_text (JArr xs) = js_join '','' (map (\<lambda>x. if x = JNull then [] else js_text x) xs)"
| "js_text (JObj ms) = ''[object Object]''"

definition member :: "string \<Rightarrow> json \<Rightarrow> json option" where
  "member k v = (case v of JObj ms \<Rightarrow> map_of ms k | _ \<Rightarrow> None)"

definition has_range :: "json \<Rightarrow> bool" where
  "has_range v \<longleftrightarrow> member ''from'' v \<noteq> None \<or> member ''to'' v \<noteq> None"

definition seconds :: "json option \<Rightarrow> string option" where
  "seconds v = (case v of Some (JNum ms) \<Rightarrow> if ms = 0 then None else Some (print_int (ms div 1000)) | _ \<Rightarrow> None)"

definition as_int :: "json option \<Rightarrow> int option" where
  "as_int v = (case v of Some (JNum i) \<Rightarrow> Some i | Some (JStr s) \<Rightarrow> parse_int s | _ \<Rightarrow> None)"

definition size_bound :: "(int \<Rightarrow> bool) \<Rightarrow> json option \<Rightarrow> string option" where
  "size_bound ok v = (case as_int v of Some i \<Rightarrow> if i > 0 \<and> ok i then map_option js_text v else None | None \<Rightarrow> None)"

text \<open>One key of the values: it changes the query or the free terms.\<close>

definition query_key :: "string \<times> json \<Rightarrow> search_query \<times> (string, json) obj \<Rightarrow> search_query \<times> (string, json) obj" where
  "query_key = (\<lambda>(k, v) (q, free).
     if starts_with ''ajxp_meta_'' k then
       (q, obj_set (if drop 10 k = ''TextContent'' then drop 10 k else ''Meta.'' @ drop 10 k) (autoQuote v) free)
     else if k = ''ajxp_mime'' then
       (if v = JStr ''ajxp_folder'' then q\<lparr>qType := Some ''COLLECTION''\<rparr>
        else if v = JStr ''ajxp_file'' then q\<lparr>qType := Some ''LEAF''\<rparr>
        else q\<lparr>qType := Some ''LEAF'', qExtension := Some v\<rparr>, free)
     else if k = ''basename'' then (q, obj_set ''Basename'' (autoQuote v) free)
     else if k = ''basenameOrContent'' then (q\<lparr>qFileNameOrContent := Some (autoQuote v)\<rparr>, free)
     else if k = ''Content'' then (q\<lparr>qContent := Some (autoQuote v)\<rparr>, free)
     else if k = ''ajxp_modiftime'' \<and> has_range v then
       (q\<lparr>qMinDate := (case seconds (member ''from'' v) of None \<Rightarrow> qMinDate q | d \<Rightarrow> d),
          qMaxDate := (case seconds (member ''to'' v) of None \<Rightarrow> qMaxDate q | d \<Rightarrow> d)\<rparr>, free)
     else if k = ''ajxp_bytesize'' \<and> has_range v then
       (q\<lparr>qMinSize := (case size_bound (\<lambda>_. True) (member ''from'' v) of None \<Rightarrow> qMinSize q | d \<Rightarrow> d),
          qMaxSize := (case size_bound (\<lambda>i. i < 1099511627776) (member ''to'' v) of None \<Rightarrow> qMaxSize q | d \<Rightarrow> d)\<rparr>, free)
     else (q, free))"

definition free_string :: "(string, json) obj \<Rightarrow> string option" where
  "free_string free =
     (if free = [] then None
      else Some (js_join '' '' (map (\<lambda>(k, v). ''+'' @ k @ '':'' @ (if v = JBool True then ''T*'' else js_text v)) free)))"

definition search_query :: "search_values \<Rightarrow> json option \<Rightarrow> search_query" where
  "search_query values scope =
     (let q = (if scope = Some (JStr ''all'') then empty_query
               else empty_query\<lparr>qPathPrefix := Some (case scope of Some v \<Rightarrow> v | None \<Rightarrow> JNull)\<rparr>)
      in if obj_keys values = [''basename''] then q\<lparr>qFileName := map_option autoQuote (map_of values ''basename'')\<rparr>
         else (let (q1, free) = fold query_key values (q, []) in q1\<lparr>qFreeString := free_string free\<rparr>))"

section \<open>The component\<close>

record search_request =
  rqQuery :: search_query
  rqLimit :: nat
  rqTerm :: "json option"

record search_box =
  sbValues :: search_values
  sbLimit :: nat
  sbEmpty :: bool
  sbLoading :: bool
  sbFacets :: "facet list"
  sbActive :: "facet list"
  sbHistory :: "json list"
  sbSaved :: "json list"
  sbModel :: dmodel
  sbNodeValues :: "(search_values \<times> facet list) option"    \<comment> \<open>the values the search node holds\<close>
  sbOnce :: nat
  sbTimer :: bool
  sbRequests :: "search_request list"
  sbStore :: "(string, string) obj"

definition history_key :: "string \<Rightarrow> string \<Rightarrow> string" where
  "history_key ident user = ''cells.search-engine.'' @ ident @ ''.'' @ user"

definition saved_key :: "string \<Rightarrow> string \<Rightarrow> string" where
  "saved_key ident user = ''cells.search-engine.saved.'' @ ident @ ''.'' @ user"

definition stored_list :: "string \<Rightarrow> (string, string) obj \<Rightarrow> json list" where
  "stored_list key store =
     (case map_of store key of
        None \<Rightarrow> []
      | Some i \<Rightarrow> if i = [] then [] else (case parse_json i of Some (JArr xs) \<Rightarrow> xs | _ \<Rightarrow> []))"

text \<open>A new component, once the history and the saved searches are loaded.\<close>

definition newSearch :: "string option \<Rightarrow> string \<Rightarrow> string \<Rightarrow> search_values \<Rightarrow> dmodel \<Rightarrow> (string, string) obj \<Rightarrow> search_box" where
  "newSearch ident user scope values m store =
     \<lparr>sbValues = foldl (\<lambda>o1 (k, v). obj_set k v o1) [(''scope'', JStr scope)] values, sbLimit = 30, sbEmpty = True, sbLoading = False,
      sbFacets = [], sbActive = [],
      sbHistory = (case ident of None \<Rightarrow> [] | Some h \<Rightarrow> stored_list (history_key h user) store),
      sbSaved = (case ident of None \<Rightarrow> [] | Some h \<Rightarrow> stored_list (saved_key h user) store),
      sbModel = m, sbNodeValues = None, sbOnce = 0, sbTimer = False, sbRequests = [], sbStore = store\<rparr>"

definition pushHistory :: "string \<Rightarrow> string \<Rightarrow> json \<Rightarrow> search_box \<Rightarrow> search_box" where
  "pushHistory ident user text b =
     (if \<not> json_truthy text then b
      else (let h = text # take 19 (filter (\<lambda>f. f \<noteq> text) (sbHistory b))
            in b\<lparr>sbHistory := h, sbStore := obj_set (history_key ident user) (print_json (JArr h)) (sbStore b)\<rparr>))"

definition search_id :: "json \<Rightarrow> json option" where
  "search_id j = member ''searchID'' j"

definition pushSavedSearches :: "string \<Rightarrow> string \<Rightarrow> string \<Rightarrow> string \<Rightarrow> search_box \<Rightarrow> search_box" where
  "pushSavedSearches ident user label uuid b =
     (let i = (case map_of (sbValues b) ''searchID'' of Some v \<Rightarrow> if json_truthy v then v else JStr uuid | None \<Rightarrow> JStr uuid);
          new = obj_set ''searchID'' i (obj_set ''searchLABEL'' (JStr label) (sbValues b));
          saved = filter (\<lambda>v. search_id v \<noteq> Some i) (sbSaved b) @ [JObj new]
      in b\<lparr>sbSaved := saved, sbStore := obj_set (saved_key ident user) (print_json (JArr saved)) (sbStore b), sbValues := new\<rparr>)"

definition removeSavedSearch :: "string \<Rightarrow> string \<Rightarrow> json \<Rightarrow> search_box \<Rightarrow> search_box" where
  "removeSavedSearch ident user uuid b =
     (let saved = filter (\<lambda>v. search_id v \<noteq> Some uuid) (sbSaved b);
          c = b\<lparr>sbSaved := saved, sbStore := obj_set (saved_key ident user) (print_json (JArr saved)) (sbStore b)\<rparr>
      in if map_of (sbValues b) ''searchID'' = Some uuid then c\<lparr>sbValues := obj_del ''searchID'' (sbValues b)\<rparr> else c)"

text \<open>The end of a search: the observers waiting show the search node.\<close>

definition search_loaded :: "nat \<Rightarrow> search_box \<Rightarrow> search_box" where
  "search_loaded q b = b\<lparr>sbModel := ((setContextNode q True) ^^ sbOnce b) (notify q ''loaded'' (sbModel b)), sbOnce := 0\<rparr>"

definition on_model :: "(dmodel \<Rightarrow> dmodel) \<Rightarrow> search_box \<Rightarrow> search_box" where
  "on_model f b = b\<lparr>sbModel := f (sbModel b)\<rparr>"

definition performSearch :: "search_box \<Rightarrow> search_box" where
  "performSearch b0 =
     (let (q, m) = getSearchNode (sbModel b0);
          b = b0\<lparr>sbNodeValues := Some (sbValues b0, sbActive b0), sbOnce := Suc (sbOnce b0),
                 sbModel := set_node q (\<lambda>n. n\<lparr>anLoaded := False\<rparr>) (setChildren q [] m)\<rparr>;
          wanted = obj_del ''scope'' (sbValues b0)
      in if wanted = [] \<or>
            (obj_keys wanted = [''basenameOrContent''] \<and> \<not> json_truthy (the (map_of wanted ''basenameOrContent''))) then
           (search_loaded q (on_model (\<lambda>m. set_node q (\<lambda>n. n\<lparr>anLoaded := True\<rparr>) (clearNode q m)) b))
             \<lparr>sbLoading := False, sbEmpty := True, sbFacets := [], sbActive := []\<rparr>
         else
           (on_model (\<lambda>m. notify q ''loading'' (set_node q (\<lambda>n. n\<lparr>anLoading := True\<rparr>) m)) b)
             \<lparr>sbLoading := True, sbEmpty := False,
              sbRequests := sbRequests b0 @
                [\<lparr>rqQuery = search_query (mergeFacets (sbValues b0) (sbActive b0)) (map_of (sbValues b0) ''scope''),
                  rqLimit = sbLimit b0, rqTerm = map_of (sbValues b0) ''basenameOrContent''\<rparr>]\<rparr>)"

definition add_results :: "nat \<Rightarrow> anode list \<Rightarrow> dmodel \<Rightarrow> dmodel" where
  "add_results q answer m = (let (t, cs) = alloc_all answer m in foldl (\<lambda>t c. fst (addChildNode q c t)) t cs)"

definition search_answered :: "string option \<Rightarrow> string \<Rightarrow> search_request \<Rightarrow> anode list \<Rightarrow> facet list \<Rightarrow> search_box \<Rightarrow> search_box" where
  "search_answered ident user r answer facets b0 =
     (let (q, m) = getSearchNode (sbModel b0);
          m1 = set_node q (\<lambda>n. n\<lparr>anLoading := False, anLoaded := True\<rparr>) (add_results q answer (clearNode q m));
          b = search_loaded q (b0\<lparr>sbModel := m1, sbRequests := remove1 r (sbRequests b0)\<rparr>);
          c = (case (ident, rqTerm r) of
                 (Some h, Some text) \<Rightarrow> pushHistory h user text b
               | _ \<Rightarrow> b)
      in c\<lparr>sbLoading := False, sbFacets := facets\<rparr>)"

definition search_failed :: "search_request \<Rightarrow> search_box \<Rightarrow> search_box" where
  "search_failed r b0 =
     (let (q, m) = getSearchNode (sbModel b0);
          b = b0\<lparr>sbModel := set_node q (\<lambda>n. n\<lparr>anLoading := False\<rparr>) (clearNode q m), sbRequests := remove1 r (sbRequests b0)\<rparr>
      in (search_loaded q b)\<lparr>sbLoading := False\<rparr>)"

definition setValues :: "search_values \<Rightarrow> search_box \<Rightarrow> search_box" where
  "setValues new b =
     (let kept = filter (\<lambda>(k, v). json_truthy v) new;
          scope = (case map_of kept ''scope'' of Some v \<Rightarrow> Some v | None \<Rightarrow> map_of (sbValues b) ''scope'')
      in b\<lparr>sbValues := (case scope of Some v \<Rightarrow> [(''scope'', v)] | None \<Rightarrow> []) @ obj_del ''scope'' kept,
           sbFacets := [], sbActive := [], sbTimer := True\<rparr>)"

definition setLimit :: "nat \<Rightarrow> search_box \<Rightarrow> search_box" where
  "setLimit n b = performSearch (b\<lparr>sbLimit := n\<rparr>)"

definition same_facet :: "facet \<Rightarrow> facet \<Rightarrow> bool" where
  "same_facet s f \<longleftrightarrow> fcField s = fcField f \<and> fcLabel s = fcLabel f"

definition toggleFacet :: "facet \<Rightarrow> bool \<Rightarrow> search_box \<Rightarrow> search_box" where
  "toggleFacet f toggle b =
     performSearch (b\<lparr>sbActive := (if toggle then sbActive b @ [f] else filter (\<lambda>s. \<not> same_facet s f) (sbActive b))\<rparr>)"

section \<open>Steps\<close>

text \<open>What happens to the component: the user's changes, the timer of the delayed search, the request to
  reload, answers and failures, saved searches, and any change of the data model by others.\<close>

inductive search_step :: "string option \<Rightarrow> string \<Rightarrow> search_box \<Rightarrow> search_box \<Rightarrow> bool"
  for ident :: "string option" and user :: string where
  changed: "search_step ident user b (setValues new b)"
| delayed: "sbTimer b \<Longrightarrow> search_step ident user b (performSearch (b\<lparr>sbTimer := False\<rparr>))"
| submitted: "search_step ident user b (performSearch b)"
| limited: "search_step ident user b (setLimit n b)"
| toggled: "search_step ident user b (toggleFacet f t b)"
| answered: "r \<in> set (sbRequests b) \<Longrightarrow> search_step ident user b (search_answered ident user r answer facets b)"
| failed: "r \<in> set (sbRequests b) \<Longrightarrow> search_step ident user b (search_failed r b)"
| saved: "ident = Some h \<Longrightarrow> search_step ident user b (pushSavedSearches h user label uuid b)"
| forgotten: "ident = Some h \<Longrightarrow> search_step ident user b (removeSavedSearch h user i b)"
| elsewhere: "search_step ident user b (b\<lparr>sbModel := m\<rparr>)"

end
