(* ===== verification/SearchFacts.thy ===== *)
theory SearchFacts
  imports SearchBox DataModelFacts
begin

text \<open>
  Lemmas on the search: the results an answer puts under the search node, and the history and the
  saved searches, which are in the storage of the browser as they are in the component.
\<close>

section \<open>Results\<close>

text \<open>The first of each path.\<close>

definition firsts :: "'a list \<Rightarrow> 'a list" where
  "firsts xs = rev (remdups (rev xs))"

lemma firsts_simps [simp]: "firsts [] = []" "firsts (xs @ [x]) = (if x \<in> set xs then firsts xs else firsts xs @ [x])"
  by (simp_all add: firsts_def)

lemma set_firsts [simp]: "set (firsts xs) = set xs"
  by (simp add: firsts_def)

lemma firsts_distinct: "distinct xs \<Longrightarrow> firsts xs = xs"
  by (simp add: firsts_def distinct_remdups_id)

definition results_ok :: "nat \<Rightarrow> dmodel \<Rightarrow> bool" where
  "results_ok q m \<longleftrightarrow> q < length (trNodes m) \<and> distinct (map fst (anChildren (node m q))) \<and>
     (\<forall>(k, e) \<in> set (anChildren (node m q)). e < length (trNodes m) \<and> e \<noteq> q \<and> anPath (node m e) = k \<and> anChildren (node m e) = [])"

lemma drop_all:
  fixes s :: dmodel
  assumes "p < length (trNodes s)"
  shows "length (trNodes (foldl (\<lambda>t kc. drop_child False p kc t) s xs)) = length (trNodes s)"
    "anChildren (node (foldl (\<lambda>t kc. drop_child False p kc t) s xs) p) = foldl (\<lambda>m k. obj_del k m) (anChildren (node s p)) (map fst xs)"
    "dmSearch (foldl (\<lambda>t kc. drop_child False p kc t) s xs) = dmSearch s"
proof -
  have "length (trNodes (foldl (\<lambda>t kc. drop_child False p kc t) s xs)) = length (trNodes s) \<and>
    anChildren (node (foldl (\<lambda>t kc. drop_child False p kc t) s xs) p) = foldl (\<lambda>m k. obj_del k m) (anChildren (node s p)) (map fst xs) \<and>
    dmSearch (foldl (\<lambda>t kc. drop_child False p kc t) s xs) = dmSearch s"
    using assms
  proof (induction xs arbitrary: s)
    case (Cons kc xs)
    obtain k c where kc: "kc = (k, c)" by fastforce
    have "length (trNodes (drop_child False p kc s)) = length (trNodes s)" "dmSearch (drop_child False p kc s) = dmSearch s"
      "anChildren (node (drop_child False p kc s) p) = obj_del k (anChildren (node s p))"
      using Cons.prems by (simp_all add: drop_child_def kc Let_def nth_update)
    then show ?case using Cons.IH [of "drop_child False p kc s"] Cons.prems kc by simp
  qed simp
  then show "length (trNodes (foldl (\<lambda>t kc. drop_child False p kc t) s xs)) = length (trNodes s)"
    "anChildren (node (foldl (\<lambda>t kc. drop_child False p kc t) s xs) p) = foldl (\<lambda>m k. obj_del k m) (anChildren (node s p)) (map fst xs)"
    "dmSearch (foldl (\<lambda>t kc. drop_child False p kc t) s xs) = dmSearch s" by blast+
qed

lemma cleared:
  fixes s :: dmodel
  assumes "p < length (trNodes s)"
  shows "anChildren (node (clearNode p s) p) = []" "length (trNodes (clearNode p s)) = length (trNodes s)"
    "dmSearch (clearNode p s) = dmSearch s" "results_ok p (clearNode p s)"
proof -
  note dr = drop_all [OF assms, of "anChildren (node s p)"]
  have none: "foldl (\<lambda>m k. obj_del k m) (anChildren (node s p)) (map fst (anChildren (node s p))) = []"
    by (force simp: obj_del_all filter_empty_conv)
  show c: "anChildren (node (clearNode p s) p) = []" and l: "length (trNodes (clearNode p s)) = length (trNodes s)"
    "dmSearch (clearNode p s) = dmSearch s"
    using assms dr none by (simp_all add: clearNode_def drop_children_def)
  then show "results_ok p (clearNode p s)" using assms by (simp add: results_ok_def)
qed

text \<open>One result is added: a path that is there already is not added again.\<close>

lemma add_result:
  fixes m :: dmodel
  assumes ok: "results_ok q m" and c: "c < length (trNodes m)" "c \<noteq> q" "c \<notin> snd ` set (anChildren (node m q))" "anChildren (node m c) = []"
    and t: "t = fst (addChildNode q c m)"
  shows "results_ok q t" "length (trNodes t) = length (trNodes m)"
    "map fst (anChildren (node t q)) = (if anPath (node m c) \<in> set (map fst (anChildren (node m q))) then map fst (anChildren (node m q))
       else map fst (anChildren (node m q)) @ [anPath (node m c)])"
    "snd ` set (anChildren (node t q)) \<subseteq> insert c (snd ` set (anChildren (node m q)))"
    "j \<noteq> q \<Longrightarrow> anChildren (node t j) = anChildren (node m j)" "anPath (node t j) = anPath (node m j)"
proof -
  let ?s = "set_node c (adopt q (node m q)) m" and ?kids = "anChildren (node m q)"
  have q: "q < length (trNodes m)" "distinct (map fst ?kids)" using ok by (simp_all add: results_ok_def)
  have s: "anPath (node ?s j) = anPath (node m j)" "anChildren (node ?s j) = anChildren (node m j)" for j
    by (simp_all add: nth_update)
  have len: "length (trNodes ?s) = length (trNodes m)" by simp
  have "results_ok q t \<and> length (trNodes t) = length (trNodes m) \<and>
    map fst (anChildren (node t q)) = (if anPath (node m c) \<in> set (map fst ?kids) then map fst ?kids else map fst ?kids @ [anPath (node m c)]) \<and>
    snd ` set (anChildren (node t q)) \<subseteq> insert c (snd ` set ?kids) \<and>
    (\<forall>j. (j \<noteq> q \<longrightarrow> anChildren (node t j) = anChildren (node m j)) \<and> anPath (node t j) = anPath (node m j))"
  proof (cases "map_of ?kids (anPath (node m c))")
    case None
    then have fresh: "anPath (node m c) \<notin> fst ` set ?kids" by (simp add: map_of_eq_None_iff)
    have "t = notify q ''child_added'' (set_node q (\<lambda>n. n\<lparr>anChildren := obj_set (anPath (node ?s c)) c (anChildren n)\<rparr>) ?s)"
      using None s by (simp add: t addChildNode_def add_child_def findChildByPath_def Let_def)
    then have nodes: "node t j = (if j = q then (node ?s q)\<lparr>anChildren := ?kids @ [(anPath (node m c), c)]\<rparr> else node ?s j)"
      and "length (trNodes t) = length (trNodes m)" for j
      using q(1) s fresh by (simp_all add: nth_update obj_set_fresh)
    then show ?thesis using ok c fresh s by (auto simp: results_ok_def)
  next
    case (Some e)
    then have e: "(anPath (node m c), e) \<in> set ?kids" by (rule map_of_SomeD)
    then have e': "e < length (trNodes m)" "e \<noteq> q" "anPath (node m e) = anPath (node m c)" "e \<noteq> c"
      using ok c(3) by (force simp: results_ok_def)+
    have t': "t = ?s \<or> t = replaceBy True e c ?s"
      using Some s by (auto simp: t addChildNode_def add_child_def findChildByPath_def Let_def)
    have rep: "replaceBy True e c ?s = notify_parent e (notify e ''node_replaced'' (set_node e (copy_fields True (node ?s c)) ?s))"
      by (rule replaceBy_same_path) (use s c(4) e' in simp_all)
    have same: "anPath (node t j) = anPath (node m j)" "anChildren (node t j) = anChildren (node m j)"
      "length (trNodes t) = length (trNodes m)" for j
      using t' s rep e' len by (auto simp: nth_update)
    have "anPath (node m c) \<in> set (map fst ?kids)" using e by force
    then show ?thesis using ok same by (auto simp: results_ok_def)
  qed
  then show "results_ok q t" "length (trNodes t) = length (trNodes m)"
    "map fst (anChildren (node t q)) = (if anPath (node m c) \<in> set (map fst ?kids) then map fst ?kids else map fst ?kids @ [anPath (node m c)])"
    "snd ` set (anChildren (node t q)) \<subseteq> insert c (snd ` set ?kids)"
    "j \<noteq> q \<Longrightarrow> anChildren (node t j) = anChildren (node m j)" "anPath (node t j) = anPath (node m j)" by blast+
qed

lemma add_results_children:
  fixes m :: dmodel
  assumes ok: "results_ok q m" and none: "anChildren (node m q) = []"
    and cs: "\<forall>c \<in> set cs. c < length (trNodes m) \<and> c \<noteq> q \<and> anChildren (node m c) = []" "distinct cs"
  shows "results_ok q (foldl (\<lambda>t c. fst (addChildNode q c t)) m cs) \<and>
    map fst (anChildren (node (foldl (\<lambda>t c. fst (addChildNode q c t)) m cs) q)) = firsts (map (\<lambda>c. anPath (node m c)) cs) \<and>
    length (trNodes (foldl (\<lambda>t c. fst (addChildNode q c t)) m cs)) = length (trNodes m) \<and>
    snd ` set (anChildren (node (foldl (\<lambda>t c. fst (addChildNode q c t)) m cs) q)) \<subseteq> set cs \<and>
    (\<forall>j. (j \<noteq> q \<longrightarrow> anChildren (node (foldl (\<lambda>t c. fst (addChildNode q c t)) m cs) j) = anChildren (node m j)) \<and>
       anPath (node (foldl (\<lambda>t c. fst (addChildNode q c t)) m cs) j) = anPath (node m j))"
  using cs
proof (induction cs rule: rev_induct)
  case (snoc c cs)
  define u where "u = foldl (\<lambda>t c. fst (addChildNode q c t)) m cs"
  have IH: "results_ok q u" "map fst (anChildren (node u q)) = firsts (map (\<lambda>c. anPath (node m c)) cs)"
    "length (trNodes u) = length (trNodes m)" "snd ` set (anChildren (node u q)) \<subseteq> set cs"
    "\<forall>j. (j \<noteq> q \<longrightarrow> anChildren (node u j) = anChildren (node m j)) \<and> anPath (node u j) = anPath (node m j)"
    using snoc by (auto simp: u_def)
  have c: "c < length (trNodes u)" "c \<noteq> q" "c \<notin> snd ` set (anChildren (node u q))" "anChildren (node u c) = []"
    using snoc.prems IH(3-5) by auto
  have fold: "foldl (\<lambda>t c. fst (addChildNode q c t)) m (cs @ [c]) = fst (addChildNode q c u)" by (simp add: u_def)
  note ar = add_result [OF IH(1) c refl]
  have "anPath (node m c) \<in> set (map fst (anChildren (node u q))) \<longleftrightarrow> anPath (node m c) \<in> set (map (\<lambda>c. anPath (node m c)) cs)"
    unfolding IH(2) by simp
  then have "map fst (anChildren (node (fst (addChildNode q c u)) q)) = firsts (map (\<lambda>c. anPath (node m c)) (cs @ [c]))"
    using ar(3) IH(2,5) by simp
  moreover have "snd ` set (anChildren (node (fst (addChildNode q c u)) q)) \<subseteq> set (cs @ [c])" using ar(4) IH(4) by auto
  ultimately show ?case unfolding fold using ar(1,2,5,6) IH(3,5) by simp
qed (use ok none in simp)

lemma results_added:
  assumes ok: "results_ok q m" and none: "anChildren (node m q) = []" and ans: "list_all (\<lambda>n. anChildren n = []) answer"
  shows "map fst (anChildren (node (add_results q answer m) q)) = firsts (map anPath answer)"
    "length (trNodes (add_results q answer m)) = length (trNodes m) + length answer"
proof -
  let ?n = "length (trNodes m)"
  let ?m = "m\<lparr>trNodes := trNodes m @ answer\<rparr>" and ?cs = "[?n..<?n + length answer]"
  have q: "q < ?n" using ok by (simp add: results_ok_def)
  have at: "node ?m (?n + j) = answer ! j" if "j < length answer" for j using that by (simp add: nth_append)
  have ok': "results_ok q ?m" "anChildren (node ?m q) = []" using q none by (simp_all add: results_ok_def nth_append)
  have "\<forall>c \<in> set ?cs. c < length (trNodes ?m) \<and> c \<noteq> q \<and> anChildren (node ?m c) = []"
    using q ans by (auto simp: nth_append list_all_length)
  note arc = add_results_children [OF ok' this distinct_upt]
  have "map (\<lambda>c. anPath (node ?m c)) ?cs = map anPath answer" by (rule nth_equalityI) (simp_all add: at)
  then show "map fst (anChildren (node (add_results q answer m) q)) = firsts (map anPath answer)"
    "length (trNodes (add_results q answer m)) = length (trNodes m) + length answer"
    using arc by (simp_all add: add_results_def alloc_all_def)
qed

lemma setContextNode_pow:
  "trNodes ((setContextNode q True ^^ n) s) = trNodes s" "n > 0 \<Longrightarrow> trContext ((setContextNode q True ^^ n) s) = Some q"
  by (induction n) (simp_all add: setContextNode_def publish_def)

lemma search_loaded_sel [simp]:
  "trNodes (sbModel (search_loaded q b)) = trNodes (sbModel b)" "sbValues (search_loaded q b) = sbValues b"
  "sbNodeValues (search_loaded q b) = sbNodeValues b" "sbHistory (search_loaded q b) = sbHistory b"
  "sbSaved (search_loaded q b) = sbSaved b" "sbStore (search_loaded q b) = sbStore b"
  "sbOnce b > 0 \<Longrightarrow> trContext (sbModel (search_loaded q b)) = Some q" "sbRequests (search_loaded q b) = sbRequests b"
  by (simp_all add: search_loaded_def setContextNode_pow)

lemma pushHistory_sel [simp]:
  "sbModel (pushHistory h user text b) = sbModel b" "sbValues (pushHistory h user text b) = sbValues b"
  "sbNodeValues (pushHistory h user text b) = sbNodeValues b" "sbSaved (pushHistory h user text b) = sbSaved b"
  "sbRequests (pushHistory h user text b) = sbRequests b"
  by (simp_all add: pushHistory_def Let_def)

text \<open>The answer to any request gives the results shown.\<close>

lemma answered_results:
  assumes q: "dmSearch (sbModel b) = Some q" "q < length (trNodes (sbModel b))"
    and ans: "list_all (\<lambda>n. anChildren n = []) answer" and c: "c = search_answered ident user r answer facets b"
  shows "map fst (anChildren (node (sbModel c) q)) = firsts (map anPath answer)" "anLoaded (node (sbModel c) q)"
    "\<not> anLoading (node (sbModel c) q)" "sbOnce b > 0 \<Longrightarrow> trContext (sbModel c) = Some q" "\<not> sbLoading c" "sbFacets c = facets"
    "sbValues c = sbValues b" "sbNodeValues c = sbNodeValues b" "sbRequests c = remove1 r (sbRequests b)"
proof -
  have get: "getSearchNode (sbModel b) = (q, sbModel b)" using q(1) by (simp add: getSearchNode_def)
  define m1 where "m1 = set_node q (\<lambda>n. n\<lparr>anLoading := False, anLoaded := True\<rparr>) (add_results q answer (clearNode q (sbModel b)))"
  note cl = cleared [OF q(2)]
  note ra = results_added [OF cl(4,1) ans]
  define d where "d = search_loaded q (b\<lparr>sbModel := m1, sbRequests := remove1 r (sbRequests b)\<rparr>)"
  define e where "e = (case (ident, rqTerm r) of (Some h, Some text) \<Rightarrow> pushHistory h user text d | _ \<Rightarrow> d)"
  have c': "c = e\<lparr>sbLoading := False, sbFacets := facets\<rparr>"
    unfolding c search_answered_def Let_def get e_def d_def m1_def by simp
  have e': "sbModel e = sbModel d" "sbValues e = sbValues d" "sbNodeValues e = sbNodeValues d" "sbRequests e = sbRequests d"
    by (auto simp: e_def split: option.split)
  have node: "node (sbModel c) q = (node (add_results q answer (clearNode q (sbModel b))) q)\<lparr>anLoading := False, anLoaded := True\<rparr>"
    using ra(2) cl(2) q(2) by (simp add: c' e' d_def m1_def)
  show "map fst (anChildren (node (sbModel c) q)) = firsts (map anPath answer)" unfolding node using ra(1) by simp
  show "anLoaded (node (sbModel c) q)" "\<not> anLoading (node (sbModel c) q)" unfolding node by simp_all
  show "sbOnce b > 0 \<Longrightarrow> trContext (sbModel c) = Some q" by (simp add: c' e' d_def)
  show "\<not> sbLoading c" "sbFacets c = facets" "sbValues c = sbValues b" "sbNodeValues c = sbNodeValues b"
    "sbRequests c = remove1 r (sbRequests b)"
    by (simp_all add: c' e' d_def)
qed

lemma search_added: "dmSearch (add_results q answer m) = dmSearch m"
  by (simp add: add_results_def alloc_all_def foldl_frame)

lemma answered_search_node:
  assumes q: "dmSearch (sbModel b) = Some q" "q < length (trNodes (sbModel b))"
    and ans: "list_all (\<lambda>n. anChildren n = []) answer" and c: "c = search_answered ident user r answer facets b"
  shows "dmSearch (sbModel c) = Some q" "q < length (trNodes (sbModel c))"
proof -
  have get: "getSearchNode (sbModel b) = (q, sbModel b)" using q(1) by (simp add: getSearchNode_def)
  note cl = cleared [OF q(2)]
  have "dmSearch ((setContextNode q True ^^ n) s) = dmSearch s" for n and s :: dmodel by (induction n) simp_all
  then have "dmSearch (sbModel (search_loaded q d)) = dmSearch (sbModel d)" for d by (simp add: search_loaded_def)
  then show "dmSearch (sbModel c) = Some q" "q < length (trNodes (sbModel c))"
    using q cl results_added(2) [OF cl(4,1) ans]
    by (auto simp: c search_answered_def get Let_def search_added split: option.split)
qed

section \<open>History and saved searches\<close>

lemma keys_differ [simp]: "history_key h user \<noteq> saved_key h user"
  by (auto simp: history_key_def saved_key_def dest: arg_cong [where f = length])

lemma stored_pushed [simp]: "stored_list k (obj_set k (print_json (JArr xs)) store) = xs"
  using parse_print [of "JArr xs"] by (simp add: stored_list_def update_conv' del: print_json.simps) (simp add: print_json.simps)

lemma stored_other [simp]: "k \<noteq> l \<Longrightarrow> stored_list k (obj_set l v store) = stored_list k store"
  by (simp add: stored_list_def update_conv')

text \<open>What the storage holds is what the component shows; the history is short and has each term once.\<close>

definition in_store :: "string \<Rightarrow> string \<Rightarrow> search_box \<Rightarrow> bool" where
  "in_store h user b \<longleftrightarrow> stored_list (history_key h user) (sbStore b) = sbHistory b \<and>
     stored_list (saved_key h user) (sbStore b) = sbSaved b"

definition short_history :: "search_box \<Rightarrow> bool" where
  "short_history b \<longleftrightarrow> length (sbHistory b) \<le> 20 \<and> distinct (sbHistory b)"

definition box_kept :: "string \<Rightarrow> string \<Rightarrow> search_box \<Rightarrow> bool" where
  "box_kept h user b \<longleftrightarrow> in_store h user b \<and> short_history b"

lemma same_box_kept:
  "sbHistory c = sbHistory b \<Longrightarrow> sbSaved c = sbSaved b \<Longrightarrow> sbStore c = sbStore b \<Longrightarrow> box_kept h user c = box_kept h user b"
  by (simp add: box_kept_def in_store_def short_history_def)

lemma pushHistory_kept: "box_kept h user b \<Longrightarrow> box_kept h user (pushHistory h user text b)"
proof -
  assume ok: "box_kept h user b"
  have "distinct (text # take 19 (filter (\<lambda>f. f \<noteq> text) (sbHistory b)))"
    using ok by (auto simp: box_kept_def short_history_def dest: in_set_takeD)
  moreover have "saved_key h user \<noteq> history_key h user" using keys_differ by metis
  ultimately show ?thesis
    using ok by (simp add: box_kept_def in_store_def short_history_def pushHistory_def Let_def del: print_json.simps)
qed

lemma performSearch_frame:
  "sbHistory (performSearch b) = sbHistory b" "sbSaved (performSearch b) = sbSaved b" "sbStore (performSearch b) = sbStore b"
  by (simp_all add: performSearch_def Let_def case_prod_unfold on_model_def)

lemma search_failed_frame:
  "sbHistory (search_failed r b) = sbHistory b" "sbSaved (search_failed r b) = sbSaved b" "sbStore (search_failed r b) = sbStore b"
  by (simp_all add: search_failed_def Let_def case_prod_unfold)

lemma search_answered_kept:
  assumes "box_kept h user b"
  shows "box_kept h user (search_answered (Some h) user r answer facets b)"
proof -
  define d where "d = (let (q, m) = getSearchNode (sbModel b)
    in search_loaded q (b\<lparr>sbModel := set_node q (\<lambda>n. n\<lparr>anLoading := False, anLoaded := True\<rparr>) (add_results q answer (clearNode q m)),
       sbRequests := remove1 r (sbRequests b)\<rparr>))"
  have "box_kept h user d" using assms by (subst same_box_kept [of d b]) (simp_all add: d_def Let_def case_prod_unfold)
  moreover have "search_answered (Some h) user r answer facets b =
      (case rqTerm r of Some text \<Rightarrow> pushHistory h user text d | None \<Rightarrow> d)\<lparr>sbLoading := False, sbFacets := facets\<rparr>"
    by (simp add: search_answered_def d_def Let_def case_prod_unfold split: option.split)
  ultimately show ?thesis
    using pushHistory_kept [of h user d] by (auto simp: same_box_kept [where c = "x\<lparr>sbLoading := False, sbFacets := facets\<rparr>" for x] split: option.split)
qed

lemma saved_kept:
  assumes "box_kept h user b"
  shows "box_kept h user (pushSavedSearches h user label uuid b)" "box_kept h user (removeSavedSearch h user i b)"
  using assms by (auto simp: box_kept_def in_store_def short_history_def pushSavedSearches_def removeSavedSearch_def Let_def
      simp del: print_json.simps)

lemma search_step_kept: "search_step (Some h) user b c \<Longrightarrow> box_kept h user b \<Longrightarrow> box_kept h user c"
proof (induction rule: search_step.induct)
  case (answered r b answer facets)
  then show ?case by (intro search_answered_kept)
next
  case (saved h' b label uuid)
  then show ?case using saved_kept(1) by simp
next
  case (forgotten h' b i)
  then show ?case using saved_kept(2) by simp
qed (simp_all add: same_box_kept [where b = b for b] performSearch_frame search_failed_frame setValues_def setLimit_def toggleFacet_def
    Let_def box_kept_def in_store_def short_history_def)

definition search_start :: "string \<Rightarrow> string \<Rightarrow> search_box \<Rightarrow> bool" where
  "search_start h user b \<longleftrightarrow> (\<exists>scope values m store. b = newSearch (Some h) user scope values m store \<and>
     length (stored_list (history_key h user) store) \<le> 20 \<and> distinct (stored_list (history_key h user) store))"

lemma search_start_kept: "search_start h user b \<Longrightarrow> box_kept h user b"
  by (auto simp: search_start_def newSearch_def box_kept_def in_store_def short_history_def)

interpretation search: reactive_system "search_start h user" "search_step (Some h) user" "box_kept h user"
  for h user
  by unfold_locales (blast intro: search_start_kept search_step_kept)+

definition search_reachable :: "string \<Rightarrow> string \<Rightarrow> search_box \<Rightarrow> bool" where
  "search_reachable h user b \<longleftrightarrow> reach (search_start h user) (search_step (Some h) user) b"

lemma search_reachable_kept: "search_reachable h user b \<Longrightarrow> box_kept h user b"
  unfolding search_reachable_def by (rule search.reached)


end
