(* ===== verification/SearchProperties.thy ===== *)
theory SearchProperties
  imports SearchFacts
begin

text \<open>Properties of the search of files.\<close>

section \<open>Results\<close>

text \<open>C9. The answer of a search, whichever search is asked for now, gives the results shown: one node for
  each path of the answer, the first in its place, however many workspaces have a file of that path; the
  search node is loaded and, if a search waits, shown.\<close>

theorem results_by_path:
  assumes "dmSearch (sbModel b) = Some q" "q < length (trNodes (sbModel b))" "list_all (\<lambda>n. anChildren n = []) answer"
    and "c = search_answered ident user r answer facets b"
  shows "map fst (anChildren (node (sbModel c) q)) = firsts (map anPath answer) \<and>
    anLoaded (node (sbModel c) q) \<and> \<not> anLoading (node (sbModel c) q) \<and> \<not> sbLoading c \<and> sbFacets c = facets \<and>
    (sbOnce b > 0 \<longrightarrow> trContext (sbModel c) = Some q)"
  using answered_results [OF assms] by simp

definition searched_box :: search_box where
  "searched_box = performSearch (newSearch None ''u'' ''all'' [(''basenameOrContent'', JStr ''a'')]
     (newDataModel (newNode ''/'' False ''Files'' [] None)) [])"

definition found_nodes :: "anode list" where
  "found_nodes = [newNode ''/a'' True ''a'' [] None, newNode ''/b'' True ''b'' [] None, newNode ''/a'' True ''a'' [] None]"

lemma searched_box_facts:
  "dmSearch (sbModel searched_box) = Some 1" "1 < length (trNodes (sbModel searched_box))" "sbOnce searched_box = 1"
  "length (sbRequests searched_box) = 1" "list_all (\<lambda>n. anChildren n = []) found_nodes"
  "map anPath found_nodes = [''/a'', ''/b'', ''/a'']"
  by code_simp+

lemma results_by_path_witness:
  "map fst (anChildren (node (sbModel (search_answered None ''u'' (hd (sbRequests searched_box)) found_nodes [] searched_box)) 1))
     = [''/a'', ''/b''] \<and>
   trContext (sbModel (search_answered None ''u'' (hd (sbRequests searched_box)) found_nodes [] searched_box)) = Some 1"
proof -
  have "firsts (map anPath found_nodes) = [''/a'', ''/b'']" by code_simp
  then show ?thesis
    using results_by_path [OF searched_box_facts(1,2,5), of _ None "''u''" "hd (sbRequests searched_box)" "[]"] searched_box_facts(3) by simp
qed

text \<open>C11. Of two searches on their way the one answered last is shown: when the older answer comes after
  the newer one, its results and facets are those shown, under the values of the newer search, and
  nothing is loading.\<close>

theorem older_answer_shown:
  assumes "dmSearch (sbModel b) = Some q" "q < length (trNodes (sbModel b))"
    and "list_all (\<lambda>n. anChildren n = []) old" "list_all (\<lambda>n. anChildren n = []) new" "sbRequests b = [older, newer]" "older \<noteq> newer"
    and "c = search_answered ident user older old oldFacets (search_answered ident user newer new newFacets b)"
  shows "map fst (anChildren (node (sbModel c) q)) = firsts (map anPath old) \<and> sbFacets c = oldFacets \<and>
    sbNodeValues c = sbNodeValues b \<and> sbValues c = sbValues b \<and> sbRequests c = [] \<and> \<not> sbLoading c"
proof -
  define d where "d = search_answered ident user newer new newFacets b"
  note d = answered_results [OF assms(1,2,4) d_def]
  note c = answered_results [OF answered_search_node [OF assms(1,2,4) d_def] assms(3) assms(7) [folded d_def]]
  show ?thesis using c d assms(5,6) by simp
qed

definition twice_searched :: search_box where
  "twice_searched = setLimit 60 searched_box"

lemma older_answer_shown_witness:
  "map fst (anChildren (node (sbModel (search_answered None ''u'' (sbRequests twice_searched ! 0) [newNode ''/old'' True [] [] None] []
     (search_answered None ''u'' (sbRequests twice_searched ! 1) found_nodes [] twice_searched))) 1)) = [''/old'']"
proof -
  have lims: "map rqLimit (sbRequests twice_searched) = [30, 60]" and search: "dmSearch (sbModel twice_searched) = Some 1"
    "1 < length (trNodes (sbModel twice_searched))" by code_simp+
  then obtain o1 n1 where on: "sbRequests twice_searched = [o1, n1]" "rqLimit o1 = 30" "rqLimit n1 = 60" by auto
  then have "o1 \<noteq> n1" by auto
  have "list_all (\<lambda>n. anChildren n = []) [newNode ''/old'' True [] [] None]" "firsts (map anPath [newNode ''/old'' True [] [] None]) = [''/old'']"
    by code_simp+
  then show ?thesis
    using older_answer_shown [OF search _ searched_box_facts(5) on(1) \<open>o1 \<noteq> n1\<close> refl, of _ None "''u''" "[]" "[]"] by (simp add: on(1))
qed

section \<open>History and saved searches\<close>

text \<open>C10. In every state of the search, what the storage of the browser holds is what is shown: a component
  made anew has the history and the saved searches of the last one; the history has at most twenty terms,
  each once.\<close>

theorem searches_survive_reload:
  assumes "search_reachable h user b"
  shows "sbHistory (newSearch (Some h) user scope values m (sbStore b)) = sbHistory b \<and>
    sbSaved (newSearch (Some h) user scope values m (sbStore b)) = sbSaved b \<and>
    length (sbHistory b) \<le> 20 \<and> distinct (sbHistory b)"
  using search_reachable_kept [OF assms] by (simp add: box_kept_def in_store_def short_history_def newSearch_def)

definition first_box :: search_box where
  "first_box = newSearch (Some ''main'') ''u'' ''all'' [(''basenameOrContent'', JStr ''a'')] (newDataModel (newNode ''/'' False ''Files'' [] None)) []"

lemma searches_survive_reload_witness:
  "sbSaved (newSearch (Some ''main'') ''u'' ''all'' [] undefined (sbStore (pushSavedSearches ''main'' ''u'' ''mine'' ''id'' first_box)))
     = sbSaved (pushSavedSearches ''main'' ''u'' ''mine'' ''id'' first_box) \<and>
   length (sbSaved (pushSavedSearches ''main'' ''u'' ''mine'' ''id'' first_box)) = 1"
proof -
  have "search_start ''main'' ''u'' first_box"
    unfolding search_start_def first_box_def
    by (intro exI conjI, rule refl) (simp_all add: stored_list_def)
  moreover have "search_step (Some ''main'') ''u'' first_box (pushSavedSearches ''main'' ''u'' ''mine'' ''id'' first_box)"
    by (rule search_step.saved) (rule refl)
  ultimately have "search_reachable ''main'' ''u'' (pushSavedSearches ''main'' ''u'' ''mine'' ''id'' first_box)"
    unfolding search_reachable_def by (rule reach.stepped [OF reach.started])
  from searches_survive_reload [OF this] show ?thesis
    by (simp add: first_box_def pushSavedSearches_def newSearch_def stored_list_def Let_def)
qed

text \<open>Saving a search and forgetting it gives back the list.\<close>

lemma saved_forgotten:
  assumes "map_of (sbValues b) ''searchID'' = None" "\<forall>v \<in> set (sbSaved b). search_id v \<noteq> Some (JStr uuid)"
  shows "sbSaved (removeSavedSearch h user (JStr uuid) (pushSavedSearches h user label uuid b)) = sbSaved b"
proof -
  have "search_id (JObj (obj_set ''searchID'' (JStr uuid) (obj_set ''searchLABEL'' (JStr label) (sbValues b)))) = Some (JStr uuid)"
    by (simp add: search_id_def member_def update_conv')
  then show ?thesis using assms by (simp add: removeSavedSearch_def pushSavedSearches_def Let_def filter_id_conv)
qed

section \<open>Queries\<close>

text \<open>The values always hold the scope, so that the branch for a single \<open>basename\<close> is never taken.\<close>

lemma file_name_never_set:
  assumes "map_of values ''scope'' = Some v"
  shows "qFileName (search_query values scope) = None"
proof -
  have "qFileName (fst (fold query_key vs (q, free))) = qFileName q" for vs q free
  proof (induction vs arbitrary: q free)
    case (Cons kv vs)
    obtain q' free' where s: "query_key kv (q, free) = (q', free')" by fastforce
    then have "qFileName q' = qFileName q"
      by (auto simp: query_key_def case_prod_unfold split: if_splits)
    then show ?case using Cons.IH [of q' free'] s by simp
  qed simp
  moreover have "obj_keys values \<noteq> [''basename'']" using assms by (cases "values") (auto simp: obj_keys_def)
  ultimately show ?thesis by (simp add: search_query_def case_prod_unfold empty_query_def Let_def)
qed

text \<open>Of several extensions only the last one is asked for.\<close>

lemma last_extension_asked:
  assumes "fcField e = ''Extension''" "fcField f = ''Extension''"
  shows "mergeFacets values [e, f] = mergeFacets values [f]"
  using assms by (simp add: mergeFacets_def facet_data_def)

end
