(* ===== verification/Spec2Isabelle.thy ===== *)
theory Spec2Isabelle
  imports UploadProperties ImportProperties SessionProperties ModelProperties ShareProperties ChatProperties
    FormProperties MigrationProperties NodeMetaProperties HomeProperties EditorProperties
    AddressBookProperties DataModelProperties SearchProperties
begin

text \<open>
  A model of the browser side of the cells repository: the JavaScript that keeps state and takes
  decisions, under \<open>src/frontend/front-srv/assets\<close>. The paths below are relative to that directory.

  \<^bold>\<open>The program.\<close> The interface is a set of plugins (\<open>uploader.html\<close>, \<open>action.share\<close>,
  \<open>access.settings\<close>, \<open>gui.ajax\<close>, ...). Each has models, plain objects and observables that hold state
  and talk to the server through a generated client, and React views that read the models and call
  them. The models are what is verified here: the views, the client and the server are their
  environment. JavaScript runs one callback at a time to its end, so a component is a state with one
  function per callback; what interleaves is the order of the callbacks, which the step relations
  leave open.

  \<^bold>\<open>Conventions.\<close> \<open>Prelude\<close> holds them with the fragment of the standard library used: objects are
  association lists in insertion order, \<open>undefined\<close> and \<open>null\<close> are \<open>None\<close>, an operation that throws
  gives \<open>None\<close> (or a flag beside the state, when it has changed the state before it throws), a method
  that waits for the server is split at the point where it waits. Objects the code compares or shares
  by reference have a number, the others are values. \<open>Json\<close> is \<open>JSON.stringify\<close> and \<open>JSON.parse\<close>,
  \<open>Paths\<close> the helpers of \<open>PathUtils\<close> and \<open>LangUtils\<close>.

  \<open>Systems\<close> is the contract of a component as a reactive system, the locale \<open>reactive_system\<close>: an
  invariant of the start and of every step holds in all states reached. The uploader, the chat, the
  metadata client, the migration page, the editors' tabs, the address book and the search are its
  interpretations.

  \<^bold>\<open>The uploader\<close> (\<open>uploader.html/res/js/model\<close>). \<open>UploadState\<close>: the items of \<open>StatusItem.js\<close>,
  \<open>FolderItem.js\<close>, \<open>UploadItem.js\<close>, \<open>PartItem.js\<close> and \<open>Session.js\<close> in a heap, with the fields of
  \<open>Store.js\<close>; \<open>UploadTree\<close>: walking, aborting, pausing and removing; \<open>UploadStore\<close>: processing an
  item, with its retries, and the queue (\<open>processNext\<close>, \<open>getNexts\<close>, \<open>getFolders\<close>); \<open>UploadEvents\<close>:
  the answers, timers and commands as a step relation \<open>ustep\<close>, with \<open>reachable\<close>; \<open>UploadImport\<close>:
  the folder picker and dropped entries; \<open>UploadSession\<close>: the tree of the paths, the stat of the
  server, new names, \<open>prepare\<close>; \<open>UploadConfigs\<close>: the options; \<open>UploadTask\<close> and \<open>JobsStore\<close>: the job
  a session shows and the registry of jobs (\<open>gui.ajax/.../tasks/JobsStore.js\<close>).
  They interact as in the code: the picker creates items under a session, \<open>prepare\<close> asks the server
  and sets its status, the status observer calls the queue, the queue calls items, items call back
  the queue, and every status change reaches the session's task and through it the registry.
  \<open>UploadFacts\<close> proves what any call of the queue respects, inside the locale \<open>queue_relation\<close>, which
  is interpreted with four relations; \<open>UploadTree\<close> has the locale \<open>item_forest\<close>, interpreted with the
  heap; \<open>UploadTask\<close> uses the registry through the locale \<open>local_jobs\<close>. \<open>UploadQueue\<close> shows that the
  fuel of \<open>process_next\<close>, one more than the number of startable items, is never used up;
  \<open>UploadInvariant\<close> proves the invariants of the step relation by rule induction; \<open>UploadProgress\<close>
  says what a call starts; \<open>UploadRun\<close> replays concrete histories.

  \<^bold>\<open>The administration models\<close> (\<open>access.settings/res/js\<close>). \<open>RoleAcls\<close>: \<open>Role.js\<close>, rules, parameters,
  policies and rights; \<open>UserModel\<close>: \<open>User.js\<close>, the list of roles; \<open>WorkspaceModels\<close>: \<open>Ws.js\<close>,
  \<open>DataSource.js\<close>, \<open>VirtualNode.js\<close>, \<open>Metadata.js\<close>. \<open>Snapshots\<close> is the locale \<open>snapshot_model\<close> of an
  editor that can be reverted; roles, users, cells and links are its interpretations.

  \<^bold>\<open>Sharing\<close> (\<open>action.share/res/js\<close>, \<open>CellModel.es6\<close>). \<open>ShareLinks\<close>: \<open>LinkModel.js\<close> and
  \<open>ShareHelper.js\<close>; \<open>ShareCells\<close>: the members and nodes of a cell; \<open>ShareComposite\<close>:
  \<open>CompositeModel.js\<close>, the dialog that composes both, with loading, saving and reverting.

  \<^bold>\<open>The tree of files\<close> (\<open>gui.ajax/res/js/core\<close>). \<open>NodeTree\<close>: the nodes of \<open>model/AjxpNode.es6\<close>, in a
  list because they refer to each other; \<open>DataModel\<close>: \<open>model/PydioDataModel.es6\<close>, the selection, the
  folder shown and its loading, with the answers of \<open>MetaNodeProvider.es6\<close> and the messages of
  \<open>http/PydioWebSocket.es6\<close>. \<open>NodeTreeFacts\<close> has the invariant of a tree (each node is in the map of its
  parent under its path) and the lookup by path; \<open>DataModelFacts\<close> what adding, removing, moving and
  updating a node do to \<open>files\<close>, the map from paths to the data of the nodes; \<open>DataModelEvents\<close> the
  specification \<open>event_files\<close> of a message on that map, and that the tree follows it; \<open>DataModelLoading\<close>
  what asking for a folder and its answer do. \<open>SearchBox\<close>: the search of files
  (\<open>ui/HOCs/search/withSearch.js\<close>) and its query (\<open>http/SearchApi.es6\<close>), whose results are children of
  the search node of the data model; \<open>SearchFacts\<close> has its lemmas and its invariant.

  \<^bold>\<open>The other parts of the interface.\<close> \<open>ChatRooms\<close>: \<open>ChatClient.js\<close>, rooms over one web socket.
  \<open>FormManager\<close>: \<open>Form/manager/Manager.js\<close>, definitions and values of forms; \<open>NodeMetas\<close>:
  \<open>meta.user/res/js/MetaClient.js\<close>; \<open>Recents\<close> and \<open>HomeCards\<close>: the home page
  (\<open>SmartRecents.js\<close>, \<open>dynamic-grid/Store.js\<close>); \<open>EditorTabs\<close>: opened nodes, the reducers of the tabs
  and the selections they browse; \<open>AddressBook\<close>: the loaders, folders and pages of users, groups and
  teams (\<open>users/addressbook\<close>). \<open>MigrationTree\<close>, \<open>Migration\<close>, \<open>MigrationMapper\<close>: the paths of old
  workspaces arranged into a tree, the loader, and the page that pairs workspaces with data sources
  and template paths (\<open>action.migration/res/js/workspaces\<close>); \<open>MigrationFacts\<close> has its step relation
  and lemmas.

  \<^bold>\<open>What is shown.\<close> The numbered properties are in the theories whose names end in \<open>Properties\<close>, each
  with an instance on concrete data where it has hypotheses. Invariants of all reachable states: the
  upload forest, the bound on attempts and on parallel uploads, the subscriptions of the chat, the
  requests of the metadata client, the workspaces of the migration page, the places of the selections,
  the items of the address book, the history of searches.
  Equivalence with a specification: sliced stat and one stat, collecting and the tree order, recent
  nodes and the first distinct ones. Refinement: the tree of the paths and their prefixes,
  \<open>diffAcls\<close> and the wanted rules, the list of jobs after a reload, the tree of files and the map that
  the messages of the server change. Round trips: policies, members of a
  cell, slash notation, saved metadata, cards. Termination: the callbacks of the uploader, new names,
  identifiers of cards. Error behaviour: what the code does on failed folders, refused files, failed
  uploads, folders that cannot be loaded, directories that cannot be read, links that cannot be saved,
  closed sockets, workspaces without a root. Several of these state a defect of the code; the names of the theorems say which.

  \<^bold>\<open>Bounds and fuel.\<close> \<open>full_path\<close> runs on the number of the item plus one, enough because a parent has a
  smaller number; \<open>process_next\<close> on the startable items plus one; the JSON parser on the length of its
  input plus one; \<open>newPath\<close> on any \<open>n\<close> above the number of files of the server; \<open>parse_fields\<close> on the
  number of keys plus one; \<open>replace_by\<close> on the number of nodes plus one (it goes down the tree of the new
  node, and the nodes that messages and answers bring have no children), \<open>in_branch\<close> on the number of
  nodes. The slash notation ends because each turn takes slashes out of the keys. The draws of a random
  identifier are a list. Numbers of the code that count items or bytes are \<open>nat\<close> or \<open>int\<close>: they stay far
  below the 53 bits in which JavaScript numbers are exact. Characters are the 256 of \<open>char\<close>.

  \<^bold>\<open>Parameters.\<close> The server's answers, the clock, the configuration, translations, the password checker,
  base64, dates in words and the random draws are arguments of the definitions that use them.

  \<^bold>\<open>Not modelled.\<close> The React views and their animations, styles and layout; \<open>createFormElement\<close> and
  \<open>getHelpersCache\<close>, which only choose components or read the plugin registry; the schedule form, whose
  meaning is the library \<open>moment\<close>; the core of \<open>gui.ajax\<close> in \<open>.es6\<close> files beyond the
  helpers, the cell model and the data model; single
  REST calls without state; vendored and generated code (\<open>PydioInstall\<close>, \<open>pdfjs\<close>, \<open>codemirror\<close>,
  \<open>soundmanager\<close>, \<open>OpenLayers\<close>, everything under \<open>build\<close> and \<open>dist\<close>); and the services in Go.
\<close>

end
